(* ===== verification/Prelude.thy ===== *)
theory Prelude
  imports Main "HOL-Library.Word" "HOL-Library.Monad_Syntax"
begin

text \<open>
  Shared vocabulary of the development: the C integer types and their conversions, memory as
  lists of bytes with partial \<open>load\<close>, \<open>store\<close> and \<open>memcpy\<close> (the value \<open>None\<close> is undefined
  behaviour or a failed \<open>RT_ASSERT\<close>), C strings, and the list and word lemmas that more than one
  component uses.
\<close>

unbundle bit_operations_syntax

named_theorems c_conv \<open>conversions between C integer types that lose nothing\<close>

type_synonym u8 = "8 word"
type_synonym u16 = "16 word"
type_synonym u32 = "32 word"
type_synonym bytes = "u8 list"

section \<open>Integer conversions\<close>

text \<open>
  Where a component computes with \<open>int\<close> or \<open>nat\<close>, these are the conversions that the C code
  performs on assignment: reduction modulo the width, and two's complement for signed types.
\<close>

definition to_u31 :: "int \<Rightarrow> nat" where
  "to_u31 x = nat (x mod 2 ^ 31)"

definition to_u32 :: "int \<Rightarrow> nat" where
  "to_u32 x = nat (x mod 2 ^ 32)"

definition to_u16 :: "int \<Rightarrow> nat" where
  "to_u16 x = nat (x mod 2 ^ 16)"

definition to_u8 :: "int \<Rightarrow> nat" where
  "to_u8 x = nat (x mod 2 ^ 8)"

definition to_i32 :: "int \<Rightarrow> int" where
  "to_i32 x = (x + 2 ^ 31) mod 2 ^ 32 - 2 ^ 31"

definition to_i16 :: "int \<Rightarrow> int" where
  "to_i16 x = (x + 2 ^ 15) mod 2 ^ 16 - 2 ^ 15"

definition to_i8 :: "int \<Rightarrow> int" where
  "to_i8 x = (x + 2 ^ 7) mod 2 ^ 8 - 2 ^ 7"

text \<open>C's division and remainder truncate towards zero.\<close>

definition cdiv :: "int \<Rightarrow> int \<Rightarrow> int" where
  "cdiv a b = sgn a * sgn b * (\<bar>a\<bar> div \<bar>b\<bar>)"

definition cmod :: "int \<Rightarrow> int \<Rightarrow> int" where
  "cmod a b = a - cdiv a b * b"

lemma to_u31_id [c_conv]: "0 \<le> x \<Longrightarrow> x < 2 ^ 31 \<Longrightarrow> to_u31 x = nat x"
  by (simp add: to_u31_def)

lemma to_u32_id [c_conv]: "0 \<le> x \<Longrightarrow> x < 2 ^ 32 \<Longrightarrow> to_u32 x = nat x"
  by (simp add: to_u32_def)

lemma to_u16_id [c_conv]: "0 \<le> x \<Longrightarrow> x < 2 ^ 16 \<Longrightarrow> to_u16 x = nat x"
  by (simp add: to_u16_def)

lemma to_i32_id [c_conv]: "- (2 ^ 31) \<le> x \<Longrightarrow> x < 2 ^ 31 \<Longrightarrow> to_i32 x = x"
  by (simp add: to_i32_def)

lemma to_i16_id [c_conv]: "- (2 ^ 15) \<le> x \<Longrightarrow> x < 2 ^ 15 \<Longrightarrow> to_i16 x = x"
  by (simp add: to_i16_def)

lemma to_u32_bound: "to_u32 x < 2 ^ 32"
  by (simp add: to_u32_def nat_less_iff)

lemma to_u16_bound: "to_u16 x < 2 ^ 16"
  by (simp add: to_u16_def nat_less_iff)

lemma to_i32_bound: "- (2 ^ 31) \<le> to_i32 x \<and> to_i32 x < 2 ^ 31"
  by (simp add: to_i32_def)

lemma cdiv_nonneg: "0 \<le> a \<Longrightarrow> 0 < b \<Longrightarrow> cdiv a b = a div b"
  by (cases "a = 0") (auto simp: cdiv_def)

lemma cmod_nonneg: "0 \<le> a \<Longrightarrow> 0 < b \<Longrightarrow> cmod a b = a mod b"
  by (simp add: cmod_def cdiv_nonneg minus_div_mult_eq_mod)

section \<open>Error codes\<close>

text \<open>
  The codes of RT-Thread in the configuration of the project: the POSIX-compatible ones, with the
  numbers of the ARM compiler's C library.
\<close>

definition RT_EOK :: int where "RT_EOK = 0"
definition RT_ERROR :: int where "RT_ERROR = 255"
definition RT_ENOMEM :: int where "RT_ENOMEM = 6"
definition RT_EBUSY :: int where "RT_EBUSY = 23"

section \<open>Memory\<close>

definition load :: "'a list \<Rightarrow> nat \<Rightarrow> 'a option" where
  "load m a = (if a < length m then Some (m ! a) else None)"

definition store :: "'a list \<Rightarrow> nat \<Rightarrow> 'a \<Rightarrow> 'a list option" where
  "store m a v = (if a < length m then Some (m[a := v]) else None)"

text \<open>\<open>memcpy dst d src s n\<close> copies \<open>n\<close> elements from \<open>src\<close> at \<open>s\<close> to \<open>dst\<close> at \<open>d\<close>.\<close>

definition memcpy :: "'a list \<Rightarrow> nat \<Rightarrow> 'a list \<Rightarrow> nat \<Rightarrow> nat \<Rightarrow> 'a list option" where
  "memcpy dst d src s n =
     (if d + n \<le> length dst \<and> s + n \<le> length src
      then Some (take d dst @ take n (drop s src) @ drop (d + n) dst) else None)"

lemma memcpy_defined:
  "d + n \<le> length dst \<Longrightarrow> s + n \<le> length src \<Longrightarrow>
   memcpy dst d src s n = Some (take d dst @ take n (drop s src) @ drop (d + n) dst)"
  by (simp add: memcpy_def)

lemma memcpy_length: "memcpy dst d src s n = Some r \<Longrightarrow> length r = length dst"
  by (auto simp: memcpy_def split: if_splits)

lemma memcpy_nth:
  assumes "memcpy dst d src s n = Some r" and "i < length dst"
  shows "r ! i = (if d \<le> i \<and> i < d + n then src ! (s + (i - d)) else dst ! i)"
proof -
  from assms(1) have b: "d + n \<le> length dst" "s + n \<le> length src"
    and r: "r = take d dst @ take n (drop s src) @ drop (d + n) dst"
    by (auto simp: memcpy_def split: if_splits)
  from b have "length (take n (drop s src)) = n" "length (take d dst) = d" by auto
  then show ?thesis
    using b assms(2) by (auto simp: r nth_append)
qed

lemma memcpy_drop: "memcpy dst d src s n = Some r \<Longrightarrow> d + n \<le> c \<Longrightarrow> drop c r = drop c dst"
  by (auto simp: memcpy_def split: if_splits)

lemma load_Some_iff: "load m a = Some v \<longleftrightarrow> a < length m \<and> v = m ! a"
  by (auto simp: load_def)

lemma store_Some_iff: "store m a v = Some m' \<longleftrightarrow> a < length m \<and> m' = m[a := v]"
  by (auto simp: store_def)

section \<open>C strings\<close>

text \<open>
  String literals become byte lists without their terminator; \<open>c_str\<close> reads a string from
  memory up to its terminator and \<open>strlen\<close> is undefined where the terminator is missing.
\<close>

definition bs :: "string \<Rightarrow> bytes" where
  "bs s = map of_char s"

definition c_str :: "bytes \<Rightarrow> bytes" where
  "c_str m = takeWhile (\<lambda>b. b \<noteq> 0) m"

definition strlen :: "bytes \<Rightarrow> nat option" where
  "strlen m = (if 0 \<in> set m then Some (length (c_str m)) else None)"

text \<open>A fixed-size character array holding a string: the string, then zero bytes.\<close>

definition c_array :: "nat \<Rightarrow> bytes \<Rightarrow> bytes" where
  "c_array n s = s @ replicate (n - length s) 0"

lemma c_str_append_zero: "0 \<notin> set s \<Longrightarrow> c_str (s @ 0 # r) = s"
  unfolding c_str_def by (subst takeWhile_append2) auto

lemma c_str_no_zero: "0 \<notin> set (c_str m)"
  by (auto simp: c_str_def dest: set_takeWhileD)

lemma c_str_c_array:
  assumes "0 \<notin> set s" and "length s < n"
  shows "c_str (c_array n s) = s"
proof -
  from assms(2) obtain k where "n - length s = Suc k"
    by (cases "n - length s") auto
  then show ?thesis
    using assms(1) by (simp add: c_array_def c_str_append_zero)
qed

lemma length_c_array: "length s \<le> n \<Longrightarrow> length (c_array n s) = n"
  by (simp add: c_array_def)

lemma strlen_append_zero: "0 \<notin> set s \<Longrightarrow> strlen (s @ 0 # r) = Some (length s)"
  by (simp add: strlen_def c_str_append_zero)

lemma length_bs [simp]: "length (bs s) = length s"
  by (simp add: bs_def)

section \<open>Lists and options\<close>

lemma bind_Some_iff: "Option.bind m f = Some r \<longleftrightarrow> (\<exists>x. m = Some x \<and> f x = Some r)"
  by (cases m) auto

lemma map_option_bind_lam: "map_option f (Option.bind m g) = Option.bind m (\<lambda>x. map_option f (g x))"
  by (cases m) auto

lemma map_upt_append:
  "map f [0..<m + n] = map f [0..<m] @ map (\<lambda>k. f (m + k)) [0..<n]"
  by (induction n) (auto simp: add.assoc)

lemma map_nth_take: "n \<le> length xs \<Longrightarrow> map (\<lambda>k. xs ! k) [0..<n] = take n xs"
  by (rule nth_equalityI) auto

text \<open>Counting through the rows of an array is counting through the array.\<close>

lemma rows_upt: "concat (map (\<lambda>j. map (\<lambda>i. i + j * w) [0..<w]) [0..<h]) = [0..<w * h]" for w h :: nat
proof (induction h)
  case (Suc h)
  have "map (\<lambda>i. i + h * w) [0..<w] = [w * h..<w * h + w]"
    by (rule nth_equalityI) (auto simp: mult.commute add.commute)
  moreover have "[0..<w * h + w] = [0..<w * h] @ [w * h..<w * h + w]"
    by (rule upt_add_eq_append) simp
  ultimately show ?case using Suc by (simp add: add.commute)
qed simp

lemma foldl_option_None: "foldl (\<lambda>a x. Option.bind a (f x)) None xs = None"
  by (induction xs) auto

section \<open>Words\<close>

lemma xor_right_cancel: "x XOR z = y XOR z \<longleftrightarrow> x = y" for x y z :: "'a::len word"
proof
  assume "x XOR z = y XOR z"
  then have "(x XOR z) XOR z = (y XOR z) XOR z" by simp
  then show "x = y" by (simp add: xor.assoc)
qed simp

lemma xor_left_cancel: "z XOR x = z XOR y \<longleftrightarrow> x = y" for x y z :: "'a::len word"
  using xor_right_cancel[of x z y] by (simp add: xor.commute)

lemma bit_length_lt: "bit x n \<Longrightarrow> n < LENGTH('a)" for x :: "'a::len word"
  by (rule bit_imp_le_length)

lemma unat_u32: "unat (x :: u32) < 2 ^ 32"
  by (rule order_less_le_trans[OF unsigned_less]) simp

lemma unat_u8: "unat (x :: u8) < 256"
  by (rule order_less_le_trans[OF unsigned_less]) simp

lemma ucast_u8_u32: "(ucast (ucast b :: u32) :: u8) = b"
  by (auto simp: bit_eq_iff bit_simps dest: bit_length_lt)

lemma ucast_u32_u8:
  fixes x :: u32
  assumes "x < 256"
  shows "ucast (ucast x :: u8) = x"
proof -
  have "x AND mask 8 = x" using less_mask_eq[of x 8] assms by simp
  moreover have "ucast (ucast x :: u8) = x AND mask 8"
    by (auto simp: bit_eq_iff bit_simps)
  ultimately show ?thesis by simp
qed

lemma sint_of_nat_u32: "k < 2 ^ 31 \<Longrightarrow> sint (of_nat k :: u32) = int k"
  by (simp add: sint_uint unsigned_of_nat signed_take_bit_int_eq_self take_bit_nat_eq_self)

lemma unat_of_nat_u32: "k < 2 ^ 32 \<Longrightarrow> unat (of_nat k :: u32) = k"
  by (simp add: unat_of_nat take_bit_nat_eq_self)

lemma bit_masks:
  "bit (0x80 :: int) n \<longleftrightarrow> n = 7"
  "bit (0xC0 :: int) n \<longleftrightarrow> n = 7 \<or> n = 6"
  "bit (0xF0 :: int) n \<longleftrightarrow> n = 7 \<or> n = 6 \<or> n = 5 \<or> n = 4"
proof -
  have "(0x80 :: int) = push_bit 7 1" "(0xC0 :: int) = push_bit 6 (mask 2)" "(0xF0 :: int) = push_bit 4 (mask 4)"
    by (simp_all add: mask_eq_exp_minus_1)
  then show "bit (0x80 :: int) n \<longleftrightarrow> n = 7" "bit (0xC0 :: int) n \<longleftrightarrow> n = 7 \<or> n = 6"
    "bit (0xF0 :: int) n \<longleftrightarrow> n = 7 \<or> n = 6 \<or> n = 5 \<or> n = 4"
    by (auto simp only: bit_simps possible_bit_def) auto
qed

section \<open>Loops\<close>

text \<open>
  A C loop is the iteration of its body, a function that either leaves the loop with a result
  (\<open>Inl\<close>) or gives the state of the next round (\<open>Inr\<close>), and is \<open>None\<close> where the body is
  undefined. \<open>run_loop n\<close> runs at most \<open>n\<close> rounds; \<open>Some (Inr s)\<close> means it is still running.
\<close>

fun run_loop :: "nat \<Rightarrow> ('s \<Rightarrow> ('r + 's) option) \<Rightarrow> 's \<Rightarrow> ('r + 's) option" where
  "run_loop 0 body s = Some (Inr s)"
| "run_loop (Suc n) body s =
     (case body s of
        None \<Rightarrow> None
      | Some (Inl r) \<Rightarrow> Some (Inl r)
      | Some (Inr s') \<Rightarrow> run_loop n body s')"

lemma run_loop_more: "run_loop n body s = Some (Inl r) \<Longrightarrow> n \<le> m \<Longrightarrow> run_loop m body s = Some (Inl r)"
proof (induction n arbitrary: m s)
  case (Suc n)
  from Suc.prems(2) obtain k where k: "m = Suc k" "n \<le> k" by (cases m) auto
  show ?case
    using Suc.prems(1) Suc.IH[OF _ k(2)] by (simp add: k(1) split: option.splits sum.splits)
qed simp

lemma run_loop_add:
  "run_loop n body s = Some (Inr s') \<Longrightarrow> run_loop (n + m) body s = run_loop m body s'"
proof (induction n arbitrary: s)
  case (Suc n)
  from Suc.prems obtain t where "body s = Some (Inr t)" "run_loop n body t = Some (Inr s')"
    by (auto split: option.splits sum.splits)
  with Suc.IH[of t] show ?case by simp
qed simp

text \<open>A loop whose measure falls in every round comes to an end, or to an undefined step.\<close>

lemma run_loop_measure:
  assumes dec: "\<And>s s'. P s \<Longrightarrow> body s = Some (Inr s') \<Longrightarrow> P s' \<and> m s' < m s"
  shows "P s \<Longrightarrow> m s < n \<Longrightarrow> (\<exists>r. run_loop n body s = Some (Inl r)) \<or> run_loop n body s = None"
proof (induction n arbitrary: s)
  case (Suc n)
  show ?case
  proof (cases "body s")
    case (Some x)
    then show ?thesis
    proof (cases x)
      case (Inr s')
      with Some dec[OF Suc.prems(1), of s'] have d: "P s'" "m s' < m s" by auto
      with Suc.prems(2) have "m s' < n" by linarith
      with Suc.IH[OF d(1)] Some Inr show ?thesis by simp
    qed simp
  qed simp
qed simp

text \<open>Total correctness: an invariant and a measure that falls give a result.\<close>

lemma run_loop_total:
  assumes step: "\<And>s. P s \<Longrightarrow> (\<exists>r. body s = Some (Inl r) \<and> Q r) \<or> (\<exists>s'. body s = Some (Inr s') \<and> P s' \<and> m s' < m s)"
  shows "P s \<Longrightarrow> m s < n \<Longrightarrow> \<exists>r. run_loop n body s = Some (Inl r) \<and> Q r"
proof (induction n arbitrary: s)
  case (Suc n)
  from step[OF Suc.prems(1)] show ?case
  proof (elim disjE exE conjE)
    fix s'
    assume "body s = Some (Inr s')" "P s'" "m s' < m s"
    with Suc.IH[of s'] Suc.prems(2) show ?case by simp
  qed simp
qed simp

text \<open>A loop that keeps an invariant under which its body always goes on never ends.\<close>

lemma run_loop_forever:
  assumes step: "\<And>s. P s \<Longrightarrow> \<exists>s'. body s = Some (Inr s') \<and> P s'"
  shows "P s \<Longrightarrow> \<exists>s'. run_loop n body s = Some (Inr s') \<and> P s'"
proof (induction n arbitrary: s)
  case (Suc n)
  from step[OF Suc.prems] obtain s' where "body s = Some (Inr s')" "P s'" by blast
  with Suc.IH[of s'] show ?case by simp
qed simp

lemma run_loop_inv:
  assumes step: "\<And>s s'. P s \<Longrightarrow> body s = Some (Inr s') \<Longrightarrow> P s'"
    and exit: "\<And>s r. P s \<Longrightarrow> body s = Some (Inl r) \<Longrightarrow> Q r"
  shows "P s \<Longrightarrow> run_loop n body s = Some (Inl r) \<Longrightarrow> Q r"
proof (induction n arbitrary: s)
  case (Suc n)
  show ?case
  proof (cases "body s")
    case (Some x)
    then show ?thesis
      using Suc.prems Suc.IH step[OF Suc.prems(1)] exit[OF Suc.prems(1)] by (cases x) auto
  qed (use Suc.prems in simp)
qed simp

text \<open>A counting loop visits a list of indices in order and stops at the first undefined step.\<close>

fun for_each :: "('a \<Rightarrow> 's \<Rightarrow> 's option) \<Rightarrow> 'a list \<Rightarrow> 's \<Rightarrow> 's option" where
  "for_each f [] s = Some s"
| "for_each f (x # xs) s = Option.bind (f x s) (for_each f xs)"

lemma bind_for_each_Nil [simp]: "Option.bind m (for_each f []) = m"
  by (cases m) auto

lemma for_each_append: "for_each f (xs @ ys) s = Option.bind (for_each f xs s) (for_each f ys)"
proof (induction xs arbitrary: s)
  case (Cons x xs)
  then show ?case by (cases "f x s") auto
qed simp

lemma for_each_concat_map: "for_each f (concat (map g xs)) = for_each (\<lambda>x. for_each f (g x)) xs"
proof (induction xs)
  case (Cons x xs)
  show ?case
  proof
    fix s
    show "for_each f (concat (map g (x # xs))) s = for_each (\<lambda>x. for_each f (g x)) (x # xs) s"
      using Cons by (simp add: for_each_append)
  qed
qed (simp add: fun_eq_iff)

lemma for_each_map: "for_each f (map g xs) = for_each (\<lambda>x. f (g x)) xs"
proof (induction xs)
  case (Cons x xs)
  show ?case by (rule ext) (simp add: Cons)
qed (simp add: fun_eq_iff)

lemma for_each_cong: "(\<And>x. x \<in> set xs \<Longrightarrow> f x = g x) \<Longrightarrow> for_each f xs = for_each g xs"
proof (induction xs)
  case (Cons x xs)
  then have "for_each f xs = for_each g xs" "f x = g x" by simp_all
  then show ?case by (intro ext) simp
qed (simp add: fun_eq_iff)

lemma for_each_inv:
  assumes "\<And>x s. x \<in> set xs \<Longrightarrow> P s \<Longrightarrow> \<exists>s'. f x s = Some s' \<and> P s'"
  shows "P s \<Longrightarrow> \<exists>s'. for_each f xs s = Some s' \<and> P s'"
  using assms
proof (induction xs arbitrary: s)
  case (Cons x xs)
  from Cons.prems(2)[of x s] Cons.prems(1) obtain t where t: "f x s = Some t" "P t" by auto
  moreover from Cons.IH[OF t(2)] Cons.prems(2) obtain u where "for_each f xs t = Some u" "P u"
    by (metis list.set_intros(2))
  ultimately show ?case by simp
qed simp

lemma for_each_None:
  assumes "x \<in> set xs" and "\<And>s. f x s = None"
  shows "for_each f xs s = None"
  using assms(1)
proof (induction xs arbitrary: s)
  case (Cons y xs)
  then show ?case using assms(2) by (cases "y = x"; cases "f y s") auto
qed simp

section \<open>State machines\<close>

text \<open>
  The contract between a component that runs in steps and its invariant: the invariant holds where
  the component starts, and every step keeps it. It then holds in every state of every run.
\<close>

locale machine =
  fixes start :: "'s \<Rightarrow> bool" and step :: "'s \<Rightarrow> 's \<Rightarrow> bool" and inv :: "'s \<Rightarrow> bool"
  assumes start_inv: "start s \<Longrightarrow> inv s"
    and step_inv: "step s t \<Longrightarrow> inv s \<Longrightarrow> inv t"
begin

lemma run_keeps: "step\<^sup>*\<^sup>* s t \<Longrightarrow> inv s \<Longrightarrow> inv t"
  by (induction rule: rtranclp_induct) (auto intro: step_inv)

lemma reachable: "step\<^sup>*\<^sup>* s t \<Longrightarrow> start s \<Longrightarrow> inv t"
  using run_keeps start_inv by blast

lemma never: "step\<^sup>*\<^sup>* s t \<Longrightarrow> start s \<Longrightarrow> (\<And>u. inv u \<Longrightarrow> \<not> bad u) \<Longrightarrow> \<not> bad t"
  using reachable by blast

end

end
