(* ===== verification/Ringbuffer.thy ===== *)
theory Ringbuffer
  imports Prelude
begin

text \<open>
  The ring buffer between the network thread and the parser thread
  (\<^verbatim>\<open>src/rt-thread/components/drivers/ipc/ringbuffer.c\<close>): every operation of the file, with the
  bit fields and the 32-bit arithmetic of the C code written out, the mirror-bit invariant, and
  the refinement to a bounded byte queue stated as the locale \<open>byte_fifo\<close>. An operation returns
  \<open>None\<close> exactly where the C code would access memory out of range.
\<close>

section \<open>Data\<close>

text \<open>
  \<open>read_mirror\<close> and \<open>write_mirror\<close> are one-bit fields, so \<open>~\<close> on them is negation;
  \<open>read_index\<close> and \<open>write_index\<close> are 31-bit fields, so storing to them reduces modulo
  \<open>2 ^ 31\<close>.
\<close>

record rt_ringbuffer =
  buffer_ptr :: bytes
  read_mirror :: bool
  read_index :: nat
  write_mirror :: bool
  write_index :: nat
  buffer_size :: int

datatype rt_ringbuffer_state =
  RT_RINGBUFFER_EMPTY | RT_RINGBUFFER_FULL | RT_RINGBUFFER_HALFFULL

definition RT_ALIGN_SIZE :: int where
  "RT_ALIGN_SIZE = 8"

definition RT_ALIGN_DOWN :: "int \<Rightarrow> int \<Rightarrow> int" where
  "RT_ALIGN_DOWN sz align = sz AND NOT (align - 1)"

section \<open>Operations\<close>

definition rt_ringbuffer_status :: "rt_ringbuffer \<Rightarrow> rt_ringbuffer_state" where
  "rt_ringbuffer_status rb =
     (if read_index rb = write_index rb
      then if read_mirror rb = write_mirror rb then RT_RINGBUFFER_EMPTY else RT_RINGBUFFER_FULL
      else RT_RINGBUFFER_HALFFULL)"

definition rt_ringbuffer_init :: "bytes \<Rightarrow> int \<Rightarrow> rt_ringbuffer option" where
  "rt_ringbuffer_init pool sz =
     (if sz > 0
      then Some \<lparr>buffer_ptr = pool, read_mirror = False, read_index = 0, write_mirror = False,
             write_index = 0, buffer_size = RT_ALIGN_DOWN sz RT_ALIGN_SIZE\<rparr>
      else None)"

definition rt_ringbuffer_data_len :: "rt_ringbuffer \<Rightarrow> nat" where
  "rt_ringbuffer_data_len rb =
     (case rt_ringbuffer_status rb of
        RT_RINGBUFFER_EMPTY \<Rightarrow> 0
      | RT_RINGBUFFER_FULL \<Rightarrow> to_u32 (buffer_size rb)
      | RT_RINGBUFFER_HALFFULL \<Rightarrow>
          (let wi = write_index rb; ri = read_index rb
           in if wi > ri then wi - ri else to_u32 (buffer_size rb - (int ri - int wi))))"

definition rt_ringbuffer_space_len :: "rt_ringbuffer \<Rightarrow> nat" where
  "rt_ringbuffer_space_len rb = to_u32 (buffer_size rb - int (rt_ringbuffer_data_len rb))"

definition rt_ringbuffer_get_size :: "rt_ringbuffer \<Rightarrow> nat" where
  "rt_ringbuffer_get_size rb = to_u32 (buffer_size rb)"

text \<open>\<open>len\<close> bytes of \<open>ptr\<close> go in; the result is the number of bytes stored.\<close>

definition rt_ringbuffer_put :: "rt_ringbuffer \<Rightarrow> bytes \<Rightarrow> nat \<Rightarrow> (nat \<times> rt_ringbuffer) option" where
  "rt_ringbuffer_put rb ptr len0 =
     (let sz = rt_ringbuffer_space_len rb in
      if sz = 0 then Some (0, rb)
      else
        let len = (if sz < len0 then sz else len0);
            room = to_u32 (buffer_size rb - int (write_index rb)) in
        if room > len then
          do { b \<leftarrow> memcpy (buffer_ptr rb) (write_index rb) ptr 0 len;
               Some (len, rb\<lparr>buffer_ptr := b,
                 write_index := to_u31 (int (write_index rb) + int len)\<rparr>) }
        else
          do { b1 \<leftarrow> memcpy (buffer_ptr rb) (write_index rb) ptr 0 room;
               b2 \<leftarrow> memcpy b1 0 ptr room (to_u32 (int len - int room));
               Some (len, rb\<lparr>buffer_ptr := b2,
                 write_mirror := \<not> write_mirror rb,
                 write_index := to_u31 (int len - int room)\<rparr>) })"

definition rt_ringbuffer_put_force ::
  "rt_ringbuffer \<Rightarrow> bytes \<Rightarrow> nat \<Rightarrow> (nat \<times> rt_ringbuffer) option" where
  "rt_ringbuffer_put_force rb ptr0 len0 =
     (let space_length = rt_ringbuffer_space_len rb;
          over = len0 > to_u32 (buffer_size rb);
          ptr = (if over then drop (to_u32 (int len0 - buffer_size rb)) ptr0 else ptr0);
          len = (if over then to_u32 (buffer_size rb) else len0);
          room = to_u32 (buffer_size rb - int (write_index rb)) in
      if room > len then
        do { b \<leftarrow> memcpy (buffer_ptr rb) (write_index rb) ptr 0 len;
             let wi = to_u31 (int (write_index rb) + int len);
             Some (len, rb\<lparr>buffer_ptr := b, write_index := wi,
               read_index := (if len > space_length then wi else read_index rb)\<rparr>) }
      else
        do { b1 \<leftarrow> memcpy (buffer_ptr rb) (write_index rb) ptr 0 room;
             b2 \<leftarrow> memcpy b1 0 ptr room (to_u32 (int len - int room));
             let wi = to_u31 (int len - int room);
             Some (len, rb\<lparr>buffer_ptr := b2,
               write_mirror := \<not> write_mirror rb, write_index := wi,
               read_mirror := (if len > space_length \<and> wi \<le> read_index rb
                               then \<not> read_mirror rb else read_mirror rb),
               read_index := (if len > space_length then wi else read_index rb)\<rparr>) })"

text \<open>The bytes read are copied to the front of \<open>ptr\<close>, whose other bytes stay.\<close>

definition rt_ringbuffer_get ::
  "rt_ringbuffer \<Rightarrow> bytes \<Rightarrow> nat \<Rightarrow> (nat \<times> bytes \<times> rt_ringbuffer) option" where
  "rt_ringbuffer_get rb ptr len0 =
     (let sz = rt_ringbuffer_data_len rb in
      if sz = 0 then Some (0, ptr, rb)
      else
        let len = (if sz < len0 then sz else len0);
            room = to_u32 (buffer_size rb - int (read_index rb)) in
        if room > len then
          do { p \<leftarrow> memcpy ptr 0 (buffer_ptr rb) (read_index rb) len;
               Some (len, p, rb\<lparr>read_index := to_u31 (int (read_index rb) + int len)\<rparr>) }
        else
          do { p1 \<leftarrow> memcpy ptr 0 (buffer_ptr rb) (read_index rb) room;
               p2 \<leftarrow> memcpy p1 room (buffer_ptr rb) 0 (to_u32 (int len - int room));
               Some (len, p2, rb\<lparr>read_mirror := \<not> read_mirror rb,
                 read_index := to_u31 (int len - int room)\<rparr>) })"

text \<open>The second component is the offset of the first readable byte, \<open>None\<close> for a null pointer.\<close>

definition rt_ringbuffer_peek :: "rt_ringbuffer \<Rightarrow> nat \<times> nat option \<times> rt_ringbuffer" where
  "rt_ringbuffer_peek rb =
     (let sz = rt_ringbuffer_data_len rb in
      if sz = 0 then (0, None, rb)
      else if to_u32 (buffer_size rb - int (read_index rb)) > sz
      then (sz, Some (read_index rb), rb\<lparr>read_index := to_u31 (int (read_index rb) + int sz)\<rparr>)
      else (to_u32 (buffer_size rb - int (read_index rb)), Some (read_index rb),
            rb\<lparr>read_mirror := \<not> read_mirror rb, read_index := 0\<rparr>))"

definition rt_ringbuffer_putchar :: "rt_ringbuffer \<Rightarrow> u8 \<Rightarrow> (nat \<times> rt_ringbuffer) option" where
  "rt_ringbuffer_putchar rb ch =
     (if rt_ringbuffer_space_len rb = 0 then Some (0, rb)
      else do { b \<leftarrow> store (buffer_ptr rb) (write_index rb) ch;
                let rb' = rb\<lparr>buffer_ptr := b\<rparr>;
                if int (write_index rb) = buffer_size rb - 1
                then Some (1, rb'\<lparr>write_mirror := \<not> write_mirror rb, write_index := 0\<rparr>)
                else Some (1, rb'\<lparr>write_index := to_u31 (int (write_index rb) + 1)\<rparr>) })"

definition rt_ringbuffer_putchar_force ::
  "rt_ringbuffer \<Rightarrow> u8 \<Rightarrow> (nat \<times> rt_ringbuffer) option" where
  "rt_ringbuffer_putchar_force rb ch =
     (let old_state = rt_ringbuffer_status rb in
      do { b \<leftarrow> store (buffer_ptr rb) (write_index rb) ch;
           let rb' = rb\<lparr>buffer_ptr := b\<rparr>;
           if int (write_index rb) = buffer_size rb - 1
           then let rb'' = rb'\<lparr>write_mirror := \<not> write_mirror rb, write_index := 0\<rparr>
                in Some (1, if old_state = RT_RINGBUFFER_FULL
                            then rb''\<lparr>read_mirror := \<not> read_mirror rb, read_index := 0\<rparr> else rb'')
           else let wi = to_u31 (int (write_index rb) + 1); rb'' = rb'\<lparr>write_index := wi\<rparr>
                in Some (1, if old_state = RT_RINGBUFFER_FULL
                            then rb''\<lparr>read_index := wi\<rparr> else rb'') })"

definition rt_ringbuffer_getchar :: "rt_ringbuffer \<Rightarrow> (nat \<times> u8 option \<times> rt_ringbuffer) option" where
  "rt_ringbuffer_getchar rb =
     (if rt_ringbuffer_data_len rb = 0 then Some (0, None, rb)
      else do { ch \<leftarrow> load (buffer_ptr rb) (read_index rb);
                if int (read_index rb) = buffer_size rb - 1
                then Some (1, Some ch, rb\<lparr>read_mirror := \<not> read_mirror rb, read_index := 0\<rparr>)
                else Some (1, Some ch, rb\<lparr>read_index := to_u31 (int (read_index rb) + 1)\<rparr>) })"

definition rt_ringbuffer_reset :: "rt_ringbuffer \<Rightarrow> rt_ringbuffer" where
  "rt_ringbuffer_reset rb =
     rb\<lparr>read_mirror := False, read_index := 0, write_mirror := False, write_index := 0\<rparr>"

text \<open>
  \<open>rb_mem\<close> says whether the heap had room for the control block, \<open>pool_mem\<close> is the pool it gave.
  The result \<open>Some None\<close> is the null pointer.
\<close>

definition rt_ringbuffer_create :: "int \<Rightarrow> bool \<Rightarrow> bytes option \<Rightarrow> rt_ringbuffer option option" where
  "rt_ringbuffer_create sz0 rb_mem pool_mem =
     (if sz0 > 0
      then let sz = RT_ALIGN_DOWN sz0 RT_ALIGN_SIZE in
           if rb_mem
           then case pool_mem of
                  None \<Rightarrow> Some None
                | Some pool \<Rightarrow> map_option Some (rt_ringbuffer_init pool (to_i32 sz))
           else Some None
      else None)"

section \<open>Invariant and contents\<close>

text \<open>
  The invariant: positive size within the pool, indices in range, and the mirror bits say on
  which side of the reader the writer is.
\<close>

definition rb_inv :: "rt_ringbuffer \<Rightarrow> bool" where
  "rb_inv rb \<longleftrightarrow>
     0 < buffer_size rb \<and> buffer_size rb < 2 ^ 31 \<and> buffer_size rb \<le> int (length (buffer_ptr rb)) \<and>
     int (read_index rb) < buffer_size rb \<and> int (write_index rb) < buffer_size rb \<and>
     (if read_mirror rb = write_mirror rb then read_index rb \<le> write_index rb
      else write_index rb \<le> read_index rb)"

definition rb_cap :: "rt_ringbuffer \<Rightarrow> nat" where
  "rb_cap rb = nat (buffer_size rb)"

definition wrap :: "nat \<Rightarrow> nat \<Rightarrow> nat" where
  "wrap n a = (if a < n then a else a - n)"

definition rb_contents :: "rt_ringbuffer \<Rightarrow> bytes" where
  "rb_contents rb =
     map (\<lambda>k. buffer_ptr rb ! wrap (rb_cap rb) (read_index rb + k)) [0..<rt_ringbuffer_data_len rb]"

section \<open>Lengths\<close>

lemma rb_cap_update [simp]:
  "rb_cap (rb\<lparr>buffer_ptr := b\<rparr>) = rb_cap rb" "rb_cap (rb\<lparr>read_mirror := x\<rparr>) = rb_cap rb"
  "rb_cap (rb\<lparr>read_index := i\<rparr>) = rb_cap rb" "rb_cap (rb\<lparr>write_mirror := x\<rparr>) = rb_cap rb"
  "rb_cap (rb\<lparr>write_index := i\<rparr>) = rb_cap rb"
  by (simp_all add: rb_cap_def)

lemma rb_invD:
  assumes "rb_inv rb"
  shows "buffer_size rb = int (rb_cap rb)" "0 < rb_cap rb" "rb_cap rb < 2 ^ 31"
    "rb_cap rb \<le> length (buffer_ptr rb)" "read_index rb < rb_cap rb" "write_index rb < rb_cap rb"
    "read_mirror rb = write_mirror rb \<Longrightarrow> read_index rb \<le> write_index rb"
    "read_mirror rb \<noteq> write_mirror rb \<Longrightarrow> write_index rb \<le> read_index rb"
  using assms by (auto simp: rb_inv_def rb_cap_def split: if_splits)

lemma rb_inv_iff:
  "rb_inv rb \<longleftrightarrow> buffer_size rb = int (rb_cap rb) \<and> 0 < rb_cap rb \<and> rb_cap rb < 2 ^ 31 \<and>
     rb_cap rb \<le> length (buffer_ptr rb) \<and> read_index rb < rb_cap rb \<and> write_index rb < rb_cap rb \<and>
     (if read_mirror rb = write_mirror rb then read_index rb \<le> write_index rb
      else write_index rb \<le> read_index rb)"
  by (auto simp: rb_inv_def rb_cap_def)

lemma data_len_eq:
  assumes "rb_inv rb"
  shows "rt_ringbuffer_data_len rb =
    (if read_mirror rb = write_mirror rb then write_index rb - read_index rb
     else rb_cap rb - (read_index rb - write_index rb))"
proof (cases "read_mirror rb = write_mirror rb")
  case True
  with rb_invD[OF assms] show ?thesis
    by (auto simp: rt_ringbuffer_data_len_def rt_ringbuffer_status_def Let_def)
next
  case False
  with rb_invD[OF assms] show ?thesis
    by (auto simp: rt_ringbuffer_data_len_def rt_ringbuffer_status_def Let_def c_conv
        nat_diff_distrib)
qed

lemma data_len_le: "rb_inv rb \<Longrightarrow> rt_ringbuffer_data_len rb \<le> rb_cap rb"
  using rb_invD[of rb] by (auto simp: data_len_eq)

lemma space_len_eq: "rb_inv rb \<Longrightarrow> rt_ringbuffer_space_len rb = rb_cap rb - rt_ringbuffer_data_len rb"
  using rb_invD[of rb] data_len_le[of rb]
  by (simp add: rt_ringbuffer_space_len_def c_conv nat_diff_distrib)

lemma write_index_eq: "rb_inv rb \<Longrightarrow>
  write_index rb = wrap (rb_cap rb) (read_index rb + rt_ringbuffer_data_len rb)"
  using rb_invD[of rb] by (auto simp: data_len_eq wrap_def)

lemma length_contents [simp]: "length (rb_contents rb) = rt_ringbuffer_data_len rb"
  by (simp add: rb_contents_def)

lemma contents_Nil_iff: "rb_contents rb = [] \<longleftrightarrow> rt_ringbuffer_data_len rb = 0"
  using length_contents[of rb] by (metis length_0_conv)

lemma contents_nth: "k < rt_ringbuffer_data_len rb \<Longrightarrow>
  rb_contents rb ! k = buffer_ptr rb ! wrap (rb_cap rb) (read_index rb + k)"
  by (simp add: rb_contents_def)

section \<open>Cyclic copies\<close>

text \<open>\<open>b\<close> is \<open>buf\<close> with \<open>m\<close> bytes of \<open>d\<close> written cyclically from position \<open>w\<close> on.\<close>

definition cyc_written :: "nat \<Rightarrow> bytes \<Rightarrow> nat \<Rightarrow> bytes \<Rightarrow> nat \<Rightarrow> bytes \<Rightarrow> bool" where
  "cyc_written n buf w d m b \<longleftrightarrow>
     length b = length buf \<and> drop n b = drop n buf \<and>
     (\<forall>i<n. b ! i =
        (if (if w \<le> i then i - w else i + n - w) < m
         then d ! (if w \<le> i then i - w else i + n - w) else buf ! i))"

lemma cyc_written_none: "cyc_written n buf w d 0 buf"
  by (simp add: cyc_written_def)

lemma copy_straight:
  assumes "w < n" "n \<le> length buf" "m \<le> length d" "m < n - w"
  shows "\<exists>b. memcpy buf w d 0 m = Some b \<and> cyc_written n buf w d m b"
proof -
  obtain b where b: "memcpy buf w d 0 m = Some b"
    using assms by (simp add: memcpy_defined)
  have nb: "b ! i = (if w \<le> i \<and> i < w + m then d ! (i - w) else buf ! i)" if "i < n" for i
    using memcpy_nth[OF b, of i] that assms(2) by simp
  have "cyc_written n buf w d m b"
    unfolding cyc_written_def
  proof (intro conjI allI impI)
    show "length b = length buf" using b by (rule memcpy_length)
    show "drop n b = drop n buf" using b assms by (intro memcpy_drop) auto
    fix i assume "i < n"
    with nb[OF this] assms show "b ! i =
        (if (if w \<le> i then i - w else i + n - w) < m
         then d ! (if w \<le> i then i - w else i + n - w) else buf ! i)"
      by (cases "w \<le> i") auto
  qed
  with b show ?thesis by blast
qed

lemma copy_wrap:
  assumes "w < n" "n \<le> length buf" "m \<le> length d" "n - w \<le> m" "m \<le> n"
  shows "\<exists>b1 b2. memcpy buf w d 0 (n - w) = Some b1 \<and>
    memcpy b1 0 d (n - w) (m - (n - w)) = Some b2 \<and> cyc_written n buf w d m b2"
proof -
  obtain b1 where b1: "memcpy buf w d 0 (n - w) = Some b1"
    using assms by (simp add: memcpy_defined)
  then have l1: "length b1 = length buf" by (rule memcpy_length)
  then obtain b2 where b2: "memcpy b1 0 d (n - w) (m - (n - w)) = Some b2"
    using assms by (simp add: memcpy_defined)
  have n2: "b2 ! i = (if i < m - (n - w) then d ! (i + n - w) else
      if w \<le> i then d ! (i - w) else buf ! i)" if "i < n" for i
  proof -
    have "n - w + i = i + n - w" using assms(1) by simp
    then show ?thesis
      using memcpy_nth[OF b2, of i] memcpy_nth[OF b1, of i] that assms l1 by simp
  qed
  have "cyc_written n buf w d m b2"
    unfolding cyc_written_def
  proof (intro conjI allI impI)
    show "length b2 = length buf" using l1 memcpy_length[OF b2] by simp
    have "drop n b2 = drop n b1" using b2 assms by (intro memcpy_drop) auto
    also have "\<dots> = drop n buf" using b1 assms by (intro memcpy_drop) auto
    finally show "drop n b2 = drop n buf" .
    fix i assume "i < n"
    with n2[OF this] assms show "b2 ! i =
        (if (if w \<le> i then i - w else i + n - w) < m
         then d ! (if w \<le> i then i - w else i + n - w) else buf ! i)"
      by (cases "w \<le> i") auto
  qed
  with b1 b2 show ?thesis by blast
qed

section \<open>Advancing the indices\<close>

definition advance_w :: "rt_ringbuffer \<Rightarrow> bytes \<Rightarrow> nat \<Rightarrow> rt_ringbuffer" where
  "advance_w rb b m =
     rb\<lparr>buffer_ptr := b,
        write_mirror := (if write_index rb + m < rb_cap rb then write_mirror rb
                         else \<not> write_mirror rb),
        write_index := wrap (rb_cap rb) (write_index rb + m)\<rparr>"

definition advance_r :: "rt_ringbuffer \<Rightarrow> nat \<Rightarrow> rt_ringbuffer" where
  "advance_r rb m =
     rb\<lparr>read_mirror := (if read_index rb + m < rb_cap rb then read_mirror rb else \<not> read_mirror rb),
        read_index := wrap (rb_cap rb) (read_index rb + m)\<rparr>"

lemma advance_w_inv:
  assumes inv: "rb_inv rb" and w: "cyc_written (rb_cap rb) (buffer_ptr rb) (write_index rb) d m b"
    and m: "m \<le> rb_cap rb - rt_ringbuffer_data_len rb"
  shows "rb_inv (advance_w rb b m)"
    and "rt_ringbuffer_data_len (advance_w rb b m) = rt_ringbuffer_data_len rb + m"
proof -
  have cap: "rb_cap (advance_w rb b m) = rb_cap rb" by (simp add: advance_w_def rb_cap_def)
  show "rb_inv (advance_w rb b m)"
    using rb_invD[OF inv] w m data_len_eq[OF inv] unfolding rb_inv_iff cap
    by (cases "read_mirror rb = write_mirror rb")
       (auto simp: advance_w_def wrap_def cyc_written_def)
  then show "rt_ringbuffer_data_len (advance_w rb b m) = rt_ringbuffer_data_len rb + m"
    using rb_invD[OF inv] m data_len_eq[OF inv]
    by (cases "read_mirror rb = write_mirror rb") (auto simp: data_len_eq cap advance_w_def wrap_def)
qed

lemma advance_w_contents:
  assumes inv: "rb_inv rb" and w: "cyc_written (rb_cap rb) (buffer_ptr rb) (write_index rb) d m b"
    and m: "m \<le> rb_cap rb - rt_ringbuffer_data_len rb" "m \<le> length d"
  shows "rb_contents (advance_w rb b m) = rb_contents rb @ take m d"
proof (rule nth_equalityI)
  note dl = advance_w_inv(2)[OF inv w m(1)]
  show "length (rb_contents (advance_w rb b m)) = length (rb_contents rb @ take m d)"
    using m by (simp add: dl)
  fix k assume "k < length (rb_contents (advance_w rb b m))"
  then have k: "k < rt_ringbuffer_data_len rb + m" by (simp add: dl)
  have cap: "rb_cap (advance_w rb b m) = rb_cap rb" by (simp add: advance_w_def rb_cap_def)
  let ?p = "wrap (rb_cap rb) (read_index rb + k)"
  have p: "?p < rb_cap rb"
    using k m data_len_le[OF inv] rb_invD[OF inv] by (auto simp: wrap_def)
  have "rb_contents (advance_w rb b m) ! k = b ! ?p"
    using k by (simp add: rb_contents_def dl cap) (simp add: advance_w_def)
  also have "\<dots> = (rb_contents rb @ take m d) ! k"
    using k m data_len_le[OF inv] rb_invD[OF inv] p w write_index_eq[OF inv]
    by (auto simp: cyc_written_def nth_append rb_contents_def wrap_def split: if_splits)
  finally show "rb_contents (advance_w rb b m) ! k = (rb_contents rb @ take m d) ! k" .
qed

lemma advance_r_inv:
  assumes inv: "rb_inv rb" and m: "m \<le> rt_ringbuffer_data_len rb"
  shows "rb_inv (advance_r rb m)"
    and "rt_ringbuffer_data_len (advance_r rb m) = rt_ringbuffer_data_len rb - m"
proof -
  have cap: "rb_cap (advance_r rb m) = rb_cap rb" by (simp add: advance_r_def rb_cap_def)
  show "rb_inv (advance_r rb m)"
    using rb_invD[OF inv] m data_len_eq[OF inv] unfolding rb_inv_iff cap
    by (cases "read_mirror rb = write_mirror rb") (auto simp: advance_r_def wrap_def)
  then show "rt_ringbuffer_data_len (advance_r rb m) = rt_ringbuffer_data_len rb - m"
    using rb_invD[OF inv] m data_len_eq[OF inv]
    by (cases "read_mirror rb = write_mirror rb") (auto simp: data_len_eq cap advance_r_def wrap_def)
qed

lemma advance_r_contents:
  assumes inv: "rb_inv rb" and m: "m \<le> rt_ringbuffer_data_len rb"
  shows "rb_contents (advance_r rb m) = drop m (rb_contents rb)"
proof (rule nth_equalityI)
  note dl = advance_r_inv(2)[OF inv m]
  show "length (rb_contents (advance_r rb m)) = length (drop m (rb_contents rb))"
    by (simp add: dl)
  fix k assume "k < length (rb_contents (advance_r rb m))"
  then have k: "k < rt_ringbuffer_data_len rb - m" by (simp add: dl)
  have cap: "rb_cap (advance_r rb m) = rb_cap rb" by (simp add: advance_r_def rb_cap_def)
  have "wrap (rb_cap rb) (wrap (rb_cap rb) (read_index rb + m) + k) =
      wrap (rb_cap rb) (read_index rb + (m + k))"
    using k data_len_le[OF inv] rb_invD[OF inv] by (auto simp: wrap_def)
  then show "rb_contents (advance_r rb m) ! k = drop m (rb_contents rb) ! k"
    using k by (simp add: rb_contents_def dl cap) (simp add: advance_r_def)
qed

section \<open>Effect of the operations\<close>

lemma advance_w_0: "rb_inv rb \<Longrightarrow> advance_w rb (buffer_ptr rb) 0 = rb"
  using rb_invD[of rb] by (simp add: advance_w_def wrap_def)

lemma room_eq:
  assumes "rb_inv rb"
  shows "to_u32 (buffer_size rb - int (write_index rb)) = rb_cap rb - write_index rb"
    and "to_u32 (buffer_size rb - int (read_index rb)) = rb_cap rb - read_index rb"
    and "to_u32 (buffer_size rb) = rb_cap rb"
  using rb_invD[OF assms] by (simp_all add: c_conv nat_diff_distrib)

lemma index_conv:
  assumes "rb_inv rb" "m \<le> rb_cap rb" "i < rb_cap rb"
  shows "i + m < rb_cap rb \<Longrightarrow> to_u31 (int i + int m) = i + m"
    and "rb_cap rb - i \<le> m \<Longrightarrow> to_u31 (int m - int (rb_cap rb - i)) = i + m - rb_cap rb"
    and "rb_cap rb - i \<le> m \<Longrightarrow> to_u32 (int m - int (rb_cap rb - i)) = m - (rb_cap rb - i)"
  using rb_invD(3)[OF assms(1)] assms(2,3) by (simp_all add: c_conv nat_add_distrib nat_diff_distrib)

lemma put_eq:
  assumes inv: "rb_inv rb" and d: "n \<le> length d"
    and m: "m = min (rb_cap rb - rt_ringbuffer_data_len rb) n"
  shows "\<exists>b. cyc_written (rb_cap rb) (buffer_ptr rb) (write_index rb) d m b \<and>
    rt_ringbuffer_put rb d n = Some (m, advance_w rb b m)"
proof (cases "rt_ringbuffer_space_len rb = 0")
  case True
  then show ?thesis
    using inv m by (auto simp: rt_ringbuffer_put_def space_len_eq advance_w_0
        intro!: exI[of _ "buffer_ptr rb"] cyc_written_none)
next
  case False
  note D = rb_invD[OF inv]
  have me: "(if rt_ringbuffer_space_len rb < n then rt_ringbuffer_space_len rb else n) = m"
    using m by (simp add: space_len_eq[OF inv])
  have mc: "m \<le> rb_cap rb" "m \<le> length d" using m d by auto
  note I = index_conv[OF inv mc(1) D(6)]
  show ?thesis
  proof (cases "m < rb_cap rb - write_index rb")
    case True
    then obtain b where b: "memcpy (buffer_ptr rb) (write_index rb) d 0 m = Some b"
      and c: "cyc_written (rb_cap rb) (buffer_ptr rb) (write_index rb) d m b"
      using copy_straight[OF D(6) D(4) mc(2)] by blast
    show ?thesis
      using b c True False I
      by (intro exI[of _ b])
         (simp add: rt_ringbuffer_put_def Let_def me room_eq[OF inv] advance_w_def wrap_def)
  next
    case wr: False
    then have wr': "rb_cap rb - write_index rb \<le> m" by simp
    then obtain b1 b2 where b1: "memcpy (buffer_ptr rb) (write_index rb) d 0 (rb_cap rb - write_index rb) = Some b1"
      and b2: "memcpy b1 0 d (rb_cap rb - write_index rb) (m - (rb_cap rb - write_index rb)) = Some b2"
      and c: "cyc_written (rb_cap rb) (buffer_ptr rb) (write_index rb) d m b2"
      using copy_wrap[OF D(6) D(4) mc(2) wr' mc(1)] by blast
    have nl: "\<not> write_index rb + m < rb_cap rb" using wr by simp
    show ?thesis
      using b1 b2 c wr nl False I(2,3)[OF wr']
      by (intro exI[of _ b2])
         (simp add: rt_ringbuffer_put_def Let_def me room_eq[OF inv] advance_w_def wrap_def)
  qed
qed

lemma put_spec:
  assumes inv: "rb_inv rb" and d: "n \<le> length d"
  defines "m \<equiv> min (rb_cap rb - length (rb_contents rb)) n"
  shows "\<exists>rb'. rt_ringbuffer_put rb d n = Some (m, rb') \<and> rb_inv rb' \<and> rb_cap rb' = rb_cap rb \<and>
    rb_contents rb' = rb_contents rb @ take m d"
proof -
  have m: "m = min (rb_cap rb - rt_ringbuffer_data_len rb) n" by (simp add: m_def)
  obtain b where c: "cyc_written (rb_cap rb) (buffer_ptr rb) (write_index rb) d m b"
    and p: "rt_ringbuffer_put rb d n = Some (m, advance_w rb b m)"
    using put_eq[OF inv d m] by blast
  have le: "m \<le> rb_cap rb - rt_ringbuffer_data_len rb" "m \<le> length d" using d by (auto simp: m)
  show ?thesis
    using p advance_w_inv(1)[OF inv c le(1)] advance_w_contents[OF inv c le]
    by (auto simp: advance_w_def)
qed

text \<open>Contents that run past the end of the pool are its tail followed by its head.\<close>

lemma contents_wrapped:
  assumes inv: "rb_inv rb" and m: "m \<le> rt_ringbuffer_data_len rb" "m \<le> rb_cap rb" and wr: "rb_cap rb - read_index rb \<le> m"
  shows "take m (rb_contents rb) = take (rb_cap rb - read_index rb) (drop (read_index rb) (buffer_ptr rb)) @
    take (m - (rb_cap rb - read_index rb)) (buffer_ptr rb)"
proof (rule nth_equalityI)
  let ?a = "rb_cap rb - read_index rb"
  note D = rb_invD[OF inv]
  have cont: "take m (rb_contents rb) = map (\<lambda>k. buffer_ptr rb ! wrap (rb_cap rb) (read_index rb + k)) [0..<m]"
    using m(1) by (simp add: rb_contents_def take_map)
  have la: "length (take ?a (drop (read_index rb) (buffer_ptr rb))) = ?a" using D(4,5) by simp
  have "length (take m (rb_contents rb)) = m" by (simp add: cont)
  then show "length (take m (rb_contents rb)) = length (take ?a (drop (read_index rb) (buffer_ptr rb)) @ take (m - ?a) (buffer_ptr rb))"
    using D m wr la by simp
  fix i assume "i < length (take m (rb_contents rb))"
  then have i: "i < m" by simp
  then have "take m (rb_contents rb) ! i = buffer_ptr rb ! wrap (rb_cap rb) (read_index rb + i)"
    by (simp add: cont)
  moreover have "i - ?a = read_index rb + i - rb_cap rb" if "\<not> i < ?a" using D(5) by linarith
  ultimately show "take m (rb_contents rb) ! i = (take ?a (drop (read_index rb) (buffer_ptr rb)) @ take (m - ?a) (buffer_ptr rb)) ! i"
    using i la D(4,5) by (auto simp: nth_append wrap_def)
qed

lemma get_eq:
  assumes inv: "rb_inv rb" and p: "n \<le> length p"
    and m: "m = min (rt_ringbuffer_data_len rb) n"
  shows "rt_ringbuffer_get rb p n =
    Some (m, take m (rb_contents rb) @ drop m p, advance_r rb m)"
proof (cases "rt_ringbuffer_data_len rb = 0")
  case True
  then show ?thesis
    using m rb_invD[OF inv] by (simp add: rt_ringbuffer_get_def advance_r_def wrap_def)
next
  case False
  note D = rb_invD[OF inv]
  have me: "(if rt_ringbuffer_data_len rb < n then rt_ringbuffer_data_len rb else n) = m"
    using m by simp
  have mc: "m \<le> rb_cap rb" "m \<le> length p" "m \<le> rt_ringbuffer_data_len rb"
    using m p data_len_le[OF inv] by auto
  have cont: "take m (rb_contents rb) = map (\<lambda>k. buffer_ptr rb ! wrap (rb_cap rb) (read_index rb + k)) [0..<m]"
    using mc(3) by (simp add: rb_contents_def take_map)
  note I = index_conv[OF inv mc(1) D(5)]
  show ?thesis
  proof (cases "m < rb_cap rb - read_index rb")
    case True
    then have "take m (rb_contents rb) = take m (drop (read_index rb) (buffer_ptr rb))"
      unfolding cont using D(4) by (intro nth_equalityI) (auto simp: wrap_def)
    then have "memcpy p 0 (buffer_ptr rb) (read_index rb) m = Some (take m (rb_contents rb) @ drop m p)"
      using True D mc by (simp add: memcpy_defined)
    moreover have "read_index rb + m < rb_cap rb" using True by simp
    ultimately show ?thesis
      using True False I(1)
      by (simp add: rt_ringbuffer_get_def Let_def me room_eq[OF inv] advance_r_def wrap_def)
  next
    case wr: False
    then have wr': "rb_cap rb - read_index rb \<le> m" by simp
    let ?a = "rb_cap rb - read_index rb"
    note t = contents_wrapped[OF inv mc(3,1) wr']
    have p1: "memcpy p 0 (buffer_ptr rb) (read_index rb) ?a =
        Some (take ?a (drop (read_index rb) (buffer_ptr rb)) @ drop ?a p)"
      using D wr' mc by (simp add: memcpy_defined)
    have p2: "memcpy (take ?a (drop (read_index rb) (buffer_ptr rb)) @ drop ?a p) ?a (buffer_ptr rb) 0 (m - ?a) =
        Some (take m (rb_contents rb) @ drop m p)"
      using D wr' mc by (simp add: memcpy_defined t)
    have nl: "\<not> read_index rb + m < rb_cap rb" using wr by simp
    show ?thesis
      using p1 p2 wr nl False I(2,3)[OF wr']
      by (simp add: rt_ringbuffer_get_def Let_def me room_eq[OF inv] advance_r_def wrap_def)
  qed
qed

lemma get_spec:
  assumes inv: "rb_inv rb" and p: "n \<le> length p"
  defines "m \<equiv> min (length (rb_contents rb)) n"
  shows "\<exists>rb'. rt_ringbuffer_get rb p n = Some (m, take m (rb_contents rb) @ drop m p, rb') \<and>
    rb_inv rb' \<and> rb_cap rb' = rb_cap rb \<and> rb_contents rb' = drop m (rb_contents rb)"
proof -
  have m: "m = min (rt_ringbuffer_data_len rb) n" by (simp add: m_def)
  then have le: "m \<le> rt_ringbuffer_data_len rb" by simp
  show ?thesis
    using get_eq[OF inv p m] advance_r_inv(1)[OF inv le] advance_r_contents[OF inv le]
    by (simp add: advance_r_def)
qed

section \<open>Single bytes\<close>

lemma store_memcpy: "store b w ch = memcpy b w [ch] 0 1"
  by (auto simp: store_def memcpy_def upd_conv_take_nth_drop)

lemma putchar_eq_put:
  assumes inv: "rb_inv rb"
  shows "rt_ringbuffer_putchar rb ch = rt_ringbuffer_put rb [ch] 1"
proof -
  note D = rb_invD[OF inv]
  have u: "write_index rb + 1 < rb_cap rb \<Longrightarrow> to_u31 (int (write_index rb) + 1) = Suc (write_index rb)"
    using D(3) by (simp add: c_conv nat_add_distrib)
  have l: "int (write_index rb) = buffer_size rb - 1 \<longleftrightarrow> \<not> write_index rb + 1 < rb_cap rb"
    using D(1,2,6) by linarith
  have z: "to_u32 0 = 0" "to_u31 0 = 0" by (simp_all add: c_conv)
  have one: "rb_cap rb - write_index rb = 1" if "\<not> write_index rb + 1 < rb_cap rb"
    using that D(6) by linarith
  have mem0: "memcpy b 0 [ch] (Suc 0) 0 = Some b" for b by (simp add: memcpy_def)
  show ?thesis
  proof (cases "write_index rb + 1 < rb_cap rb")
    case True
    then have "Suc 0 < rb_cap rb - write_index rb" by simp
    with True show ?thesis
      unfolding rt_ringbuffer_putchar_def rt_ringbuffer_put_def Let_def room_eq[OF inv] l
      by (simp add: store_memcpy u)
  next
    case False
    then show ?thesis
      unfolding rt_ringbuffer_putchar_def rt_ringbuffer_put_def Let_def room_eq[OF inv] l
      by (cases "memcpy (buffer_ptr rb) (write_index rb) [ch] 0 1")
         (simp_all add: store_memcpy one z mem0)
  qed
qed

lemma getchar_eq:
  assumes inv: "rb_inv rb"
  shows "rt_ringbuffer_getchar rb =
    (if rb_contents rb = [] then Some (0, None, rb)
     else Some (1, Some (hd (rb_contents rb)), advance_r rb 1))"
proof -
  note D = rb_invD[OF inv]
  have u: "read_index rb + 1 < rb_cap rb \<Longrightarrow> to_u31 (int (read_index rb) + 1) = Suc (read_index rb)"
    using D(3) by (simp add: c_conv nat_add_distrib)
  have l: "int (read_index rb) = buffer_size rb - 1 \<longleftrightarrow> \<not> read_index rb + 1 < rb_cap rb"
    using D(1,2,5) by linarith
  note e = contents_Nil_iff[of rb]
  have h: "hd (rb_contents rb) = buffer_ptr rb ! read_index rb" if "0 < rt_ringbuffer_data_len rb"
    using that D(5) by (simp add: rb_contents_def hd_map wrap_def)
  show ?thesis
    using D(4,5)
    by (cases "rt_ringbuffer_data_len rb = 0")
       (auto simp: rt_ringbuffer_getchar_def e h l u load_def advance_r_def wrap_def)
qed

section \<open>Overwriting put\<close>

text \<open>
  \<open>put_force\<close> keeps the newest bytes: the last \<open>rb_cap\<close> bytes of the old contents followed by
  the new data.
\<close>

definition last_n :: "nat \<Rightarrow> 'a list \<Rightarrow> 'a list" where
  "last_n n xs = drop (length xs - n) xs"

definition force_w :: "rt_ringbuffer \<Rightarrow> bytes \<Rightarrow> nat \<Rightarrow> rt_ringbuffer" where
  "force_w rb b m =
     rb\<lparr>buffer_ptr := b, read_mirror := \<not> write_mirror (advance_w rb b m),
        read_index := wrap (rb_cap rb) (write_index rb + m),
        write_mirror := write_mirror (advance_w rb b m),
        write_index := wrap (rb_cap rb) (write_index rb + m)\<rparr>"

lemma force_w_inv:
  assumes inv: "rb_inv rb" and w: "cyc_written (rb_cap rb) (buffer_ptr rb) (write_index rb) d m b"
    and m: "m \<le> rb_cap rb"
  shows "rb_inv (force_w rb b m)" "rt_ringbuffer_data_len (force_w rb b m) = rb_cap rb"
proof -
  show i: "rb_inv (force_w rb b m)"
    using rb_invD[OF inv] w m by (auto simp: rb_inv_iff force_w_def wrap_def cyc_written_def)
  show "rt_ringbuffer_data_len (force_w rb b m) = rb_cap rb"
    unfolding data_len_eq[OF i] by (simp add: force_w_def)
qed

lemma force_w_contents:
  assumes inv: "rb_inv rb" and w: "cyc_written (rb_cap rb) (buffer_ptr rb) (write_index rb) d m b"
    and m: "m \<le> rb_cap rb" "m \<le> length d" "rb_cap rb \<le> rt_ringbuffer_data_len rb + m"
  shows "rb_contents (force_w rb b m) =
    drop (rt_ringbuffer_data_len rb + m - rb_cap rb) (rb_contents rb) @ take m d"
proof (rule nth_equalityI)
  note dl = force_w_inv(2)[OF inv w m(1)]
  note D = rb_invD[OF inv]
  note le = data_len_le[OF inv]
  show "length (rb_contents (force_w rb b m)) =
      length (drop (rt_ringbuffer_data_len rb + m - rb_cap rb) (rb_contents rb) @ take m d)"
    using m le by (simp add: dl)
  fix k assume "k < length (rb_contents (force_w rb b m))"
  then have k: "k < rb_cap rb" by (simp add: dl)
  let ?p = "wrap (rb_cap rb) (wrap (rb_cap rb) (write_index rb + m) + k)"
  have p: "?p < rb_cap rb"
    using k m D by (auto simp: wrap_def)
  have "rb_contents (force_w rb b m) ! k = b ! ?p"
    using k by (simp add: rb_contents_def dl) (simp add: force_w_def)
  also have "\<dots> = (if m + k < rb_cap rb then buffer_ptr rb ! ?p else d ! (m + k - rb_cap rb))"
    using w p k m D by (auto simp: cyc_written_def wrap_def split: if_splits)
  also have "\<dots> = (drop (rt_ringbuffer_data_len rb + m - rb_cap rb) (rb_contents rb) @ take m d) ! k"
  proof (cases "m + k < rb_cap rb")
    case True
    have "?p = wrap (rb_cap rb) (read_index rb + (rt_ringbuffer_data_len rb + m - rb_cap rb + k))"
      using k m D le write_index_eq[OF inv] True by (auto simp: wrap_def split: if_splits)
    moreover have "k < rt_ringbuffer_data_len rb - (rt_ringbuffer_data_len rb + m - rb_cap rb)"
      "rt_ringbuffer_data_len rb + m - rb_cap rb + k < rt_ringbuffer_data_len rb"
      using True m le by linarith+
    ultimately show ?thesis
      using True m(3) by (simp add: nth_append contents_nth)
  next
    case False
    moreover have "rt_ringbuffer_data_len rb - (rt_ringbuffer_data_len rb + m - rb_cap rb) = rb_cap rb - m"
      using m le by linarith
    moreover have "k - (rb_cap rb - m) = m + k - rb_cap rb" using m(1) by linarith
    ultimately show ?thesis
      using k m(1,2) by (auto simp: nth_append)
  qed
  finally show "rb_contents (force_w rb b m) ! k =
      (drop (rt_ringbuffer_data_len rb + m - rb_cap rb) (rb_contents rb) @ take m d) ! k" .
qed

lemma put_force_eq:
  assumes inv: "rb_inv rb" and d: "length d = n" "n < 2 ^ 32" and m: "m = min n (rb_cap rb)"
  shows "\<exists>b. cyc_written (rb_cap rb) (buffer_ptr rb) (write_index rb) (last_n m d) m b \<and>
    rt_ringbuffer_put_force rb d n =
      Some (m, if rb_cap rb < rt_ringbuffer_data_len rb + m then force_w rb b m else advance_w rb b m)"
proof -
  note D = rb_invD[OF inv]
  note le = data_len_le[OF inv] and dl = data_len_eq[OF inv]
  have mc: "m \<le> rb_cap rb" "m \<le> length (last_n m d)" using m d by (auto simp: last_n_def)
  note I = index_conv[OF inv mc(1) D(6)]
  have len: "(if rb_cap rb < n then rb_cap rb else n) = m" using m by simp
  have "to_u32 (int n - buffer_size rb) = n - rb_cap rb" if "n > rb_cap rb"
    using that d(2) D(1,3) by (simp add: c_conv nat_diff_distrib)
  then have ptr: "(if rb_cap rb < n then drop (to_u32 (int n - buffer_size rb)) d else d) = last_n m d"
    using m d by (simp add: last_n_def min_def)
  have sp: "rb_cap rb - rt_ringbuffer_data_len rb < m \<longleftrightarrow> rb_cap rb < rt_ringbuffer_data_len rb + m"
    using le by linarith
  note S = rt_ringbuffer_put_force_def Let_def len ptr room_eq[OF inv] space_len_eq[OF inv] sp
  show ?thesis
  proof (cases "m < rb_cap rb - write_index rb")
    case True
    then obtain b where b: "memcpy (buffer_ptr rb) (write_index rb) (last_n m d) 0 m = Some b"
      and c: "cyc_written (rb_cap rb) (buffer_ptr rb) (write_index rb) (last_n m d) m b"
      using copy_straight[OF D(6) D(4) mc(2)] by blast
    have nl: "write_index rb + m < rb_cap rb" using True by simp
    have "read_mirror rb = (\<not> write_mirror rb)" if "rb_cap rb < rt_ringbuffer_data_len rb + m"
      using that True dl by (auto split: if_splits)
    with b c True nl I(1)[OF nl] show ?thesis
      unfolding S by (intro exI[of _ b]) (simp add: advance_w_def force_w_def wrap_def)
  next
    case wr: False
    then have wr': "rb_cap rb - write_index rb \<le> m" by simp
    then obtain b1 b2 where b1: "memcpy (buffer_ptr rb) (write_index rb) (last_n m d) 0 (rb_cap rb - write_index rb) = Some b1"
      and b2: "memcpy b1 0 (last_n m d) (rb_cap rb - write_index rb) (m - (rb_cap rb - write_index rb)) = Some b2"
      and c: "cyc_written (rb_cap rb) (buffer_ptr rb) (write_index rb) (last_n m d) m b2"
      using copy_wrap[OF D(6) D(4) mc(2) wr' mc(1)] by blast
    have nl: "\<not> write_index rb + m < rb_cap rb" using wr by simp
    have "(if write_index rb + m - rb_cap rb \<le> read_index rb then \<not> read_mirror rb else read_mirror rb) =
        write_mirror rb" if "rb_cap rb < rt_ringbuffer_data_len rb + m"
      using that dl D mc(1) wr' by (cases "read_mirror rb = write_mirror rb") auto
    with b1 b2 c wr nl I(2,3)[OF wr'] show ?thesis
      unfolding S by (intro exI[of _ b2]) (simp add: advance_w_def force_w_def wrap_def)
  qed
qed

lemma put_force_spec:
  assumes inv: "rb_inv rb" and d: "length d = n" "n < 2 ^ 32"
  shows "\<exists>rb'. rt_ringbuffer_put_force rb d n = Some (min n (rb_cap rb), rb') \<and>
    rb_inv rb' \<and> rb_cap rb' = rb_cap rb \<and>
    rb_contents rb' = last_n (rb_cap rb) (rb_contents rb @ d)"
proof -
  define m where m: "m = min n (rb_cap rb)"
  obtain b where c: "cyc_written (rb_cap rb) (buffer_ptr rb) (write_index rb) (last_n m d) m b"
    and p: "rt_ringbuffer_put_force rb d n =
      Some (m, if rb_cap rb < rt_ringbuffer_data_len rb + m then force_w rb b m else advance_w rb b m)"
    using put_force_eq[OF inv d m] by blast
  have mc: "m \<le> rb_cap rb" "m \<le> length (last_n m d)" using m d by (auto simp: last_n_def)
  have all: "take m (last_n m d) = last_n m d" by (simp add: last_n_def)
  note le = data_len_le[OF inv]
  show ?thesis
  proof (cases "rb_cap rb < rt_ringbuffer_data_len rb + m")
    case True
    then have "rb_contents (force_w rb b m) = last_n (rb_cap rb) (rb_contents rb @ d)"
      using force_w_contents[OF inv c mc] m d le all by (auto simp: last_n_def min_def)
    then show ?thesis
      using p True force_w_inv(1)[OF inv c mc(1)] by (simp add: m force_w_def)
  next
    case False
    then have l: "m \<le> rb_cap rb - rt_ringbuffer_data_len rb" using le by linarith
    have "rb_contents (advance_w rb b m) = rb_contents rb @ last_n m d"
      using advance_w_contents[OF inv c l mc(2)] all by simp
    also have "\<dots> = last_n (rb_cap rb) (rb_contents rb @ d)"
      using m d False le by (auto simp: last_n_def min_def contents_Nil_iff split: if_splits)
    finally show ?thesis
      using p False advance_w_inv(1)[OF inv c l] by (simp add: m advance_w_def)
  qed
qed

lemma putchar_force_eq:
  assumes inv: "rb_inv rb"
  shows "rt_ringbuffer_putchar_force rb ch = rt_ringbuffer_put_force rb [ch] 1"
proof -
  note D = rb_invD[OF inv]
  have u: "write_index rb + 1 < rb_cap rb \<Longrightarrow> to_u31 (int (write_index rb) + 1) = Suc (write_index rb)"
    using D(3) by (simp add: c_conv nat_add_distrib)
  have l: "int (write_index rb) = buffer_size rb - 1 \<longleftrightarrow> \<not> write_index rb + 1 < rb_cap rb"
    using D(1,2,6) by linarith
  have z: "to_u32 0 = 0" "to_u31 0 = 0" by (simp_all add: c_conv)
  have over: "\<not> rb_cap rb < 1" using D(2) by simp
  have full: "rt_ringbuffer_status rb = RT_RINGBUFFER_FULL \<longleftrightarrow> rt_ringbuffer_space_len rb < 1"
    using D data_len_eq[OF inv] by (auto simp: rt_ringbuffer_status_def space_len_eq[OF inv])
  have mir: "rt_ringbuffer_space_len rb < 1 \<Longrightarrow> read_index rb = write_index rb"
    using full by (auto simp: rt_ringbuffer_status_def split: if_splits)
  show ?thesis
  proof (cases "write_index rb + 1 < rb_cap rb")
    case True
    then have "1 < rb_cap rb - write_index rb" by simp
    with True over show ?thesis
      unfolding rt_ringbuffer_putchar_force_def rt_ringbuffer_put_force_def Let_def room_eq[OF inv] l full
      by (simp add: store_memcpy u)
  next
    case False
    then have one: "rb_cap rb - write_index rb = 1" using D(6) by linarith
    have mem0: "memcpy b 0 [ch] (Suc 0) 0 = Some b" for b by (simp add: memcpy_def)
    from False one over mir show ?thesis
      unfolding rt_ringbuffer_putchar_force_def rt_ringbuffer_put_force_def Let_def room_eq[OF inv] l full
      by (cases "memcpy (buffer_ptr rb) (write_index rb) [ch] 0 1") (simp_all add: store_memcpy z mem0)
  qed
qed

lemma put_frame:
  assumes inv: "rb_inv rb" and d: "n \<le> length d" and p: "rt_ringbuffer_put rb d n = Some (k, rb')"
  shows "drop (rb_cap rb) (buffer_ptr rb') = drop (rb_cap rb) (buffer_ptr rb)"
  using put_eq[OF inv d refl] p by (auto simp: cyc_written_def advance_w_def)

section \<open>Peeking\<close>

text \<open>
  \<open>peek\<close> hands out the longest contiguous run of readable bytes and consumes it.
\<close>

lemma peek_eq:
  assumes inv: "rb_inv rb"
  shows "rt_ringbuffer_peek rb =
    (if rb_contents rb = [] then (0, None, rb)
     else let m = min (rt_ringbuffer_data_len rb) (rb_cap rb - read_index rb)
          in (m, Some (read_index rb), advance_r rb m))"
proof -
  note D = rb_invD[OF inv]
  note e = contents_Nil_iff[of rb]
  have u: "to_u31 (int (read_index rb) + int (rt_ringbuffer_data_len rb)) =
      read_index rb + rt_ringbuffer_data_len rb"
    if "rt_ringbuffer_data_len rb < rb_cap rb - read_index rb"
    using that index_conv(1)[OF inv data_len_le[OF inv] D(5)] by simp
  show ?thesis
    using D(5) u
    by (auto simp: rt_ringbuffer_peek_def e Let_def room_eq[OF inv] advance_r_def wrap_def min_def)
qed

lemma peek_run:
  assumes inv: "rb_inv rb" and p: "rt_ringbuffer_peek rb = (m, Some off, rb')"
  shows "take m (drop off (buffer_ptr rb)) = take m (rb_contents rb) \<and> 0 < m \<and> rb_inv rb' \<and>
    rb_contents rb' = drop m (rb_contents rb)"
proof -
  note D = rb_invD[OF inv]
  from p have ne: "rb_contents rb \<noteq> []" and m: "m = min (rt_ringbuffer_data_len rb) (rb_cap rb - read_index rb)"
    and off: "off = read_index rb" and rb': "rb' = advance_r rb m"
    by (auto simp: peek_eq[OF inv] Let_def split: if_splits)
  have "0 < m" using ne D(5) m length_contents[of rb] by (metis length_greater_0_conv min_less_iff_conj zero_less_diff)
  moreover have "take m (drop off (buffer_ptr rb)) = take m (rb_contents rb)"
    using D(4,5) m by (intro nth_equalityI) (auto simp: off contents_nth wrap_def)
  ultimately show ?thesis
    using m advance_r_inv(1)[OF inv] advance_r_contents[OF inv] by (simp add: rb')
qed

section \<open>Initialisation\<close>

lemma align_down_8: "RT_ALIGN_DOWN sz RT_ALIGN_SIZE = sz - sz mod 8"
proof -
  have m: "mask 3 = (7 :: int)" by (simp add: mask_eq_exp_minus_1)
  have "NOT sz AND take_bit 3 sz = 0" by (simp add: bit_eq_iff bit_simps)
  then have "sz - take_bit 3 sz = sz AND NOT (take_bit 3 sz)"
    by (rule disjunctive_diff_eq_and_not)
  also have "\<dots> = sz AND NOT (mask 3)"
    by (auto simp: bit_eq_iff bit_simps)
  finally show ?thesis
    by (simp add: RT_ALIGN_DOWN_def RT_ALIGN_SIZE_def take_bit_eq_mod m)
qed

lemma init_spec:
  assumes "8 \<le> sz" "sz < 2 ^ 31" "sz \<le> int (length pool)"
  shows "\<exists>rb. rt_ringbuffer_init pool sz = Some rb \<and> rb_inv rb \<and> rb_contents rb = [] \<and>
    rb_cap rb = nat (sz - sz mod 8)"
proof -
  have "0 < sz - sz mod 8" using assms(1) by (simp add: minus_mod_eq_div_mult)
  moreover have "0 \<le> sz mod 8" by simp
  ultimately show ?thesis
    using assms
    by (auto simp: rt_ringbuffer_init_def align_down_8 rb_inv_def rb_cap_def rb_contents_def
        rt_ringbuffer_data_len_def rt_ringbuffer_status_def)
qed

lemma reset_spec:
  assumes "rb_inv rb"
  shows "rb_inv (rt_ringbuffer_reset rb)" "rb_contents (rt_ringbuffer_reset rb) = []"
    "rb_cap (rt_ringbuffer_reset rb) = rb_cap rb"
proof -
  show "rb_inv (rt_ringbuffer_reset rb)"
    using assms by (auto simp: rt_ringbuffer_reset_def rb_inv_def)
  show "rb_contents (rt_ringbuffer_reset rb) = []"
    by (simp add: contents_Nil_iff rt_ringbuffer_data_len_def rt_ringbuffer_status_def
        rt_ringbuffer_reset_def)
  show "rb_cap (rt_ringbuffer_reset rb) = rb_cap rb"
    by (simp add: rt_ringbuffer_reset_def)
qed

section \<open>The queue interface\<close>

text \<open>
  What the network thread and the parser thread rely on: a bounded first-in first-out queue of
  bytes whose \<open>put\<close> accepts as much as fits and whose \<open>get\<close> never fails.
\<close>

datatype fifo_op = Put bytes | Get nat

text \<open>
  A run of operations on a queue: the bytes accepted by the puts, the bytes delivered by the
  gets, and the final queue.
\<close>

fun fifo_run ::
  "('q \<Rightarrow> bytes \<Rightarrow> nat \<Rightarrow> (nat \<times> 'q) option) \<Rightarrow> ('q \<Rightarrow> bytes \<Rightarrow> nat \<Rightarrow> (nat \<times> bytes \<times> 'q) option) \<Rightarrow>
   fifo_op list \<Rightarrow> 'q \<Rightarrow> (bytes \<times> bytes \<times> 'q) option" where
  "fifo_run put get [] q = Some ([], [], q)"
| "fifo_run put get (Put d # ops) q =
     do { (n, q1) \<leftarrow> put q d (length d);
          (a, g, q2) \<leftarrow> fifo_run put get ops q1;
          Some (take n d @ a, g, q2) }"
| "fifo_run put get (Get n # ops) q =
     do { (k, p, q1) \<leftarrow> get q (replicate n 0) n;
          (a, g, q2) \<leftarrow> fifo_run put get ops q1;
          Some (a, take k p @ g, q2) }"

locale byte_fifo =
  fixes put :: "'q \<Rightarrow> bytes \<Rightarrow> nat \<Rightarrow> (nat \<times> 'q) option"
    and get :: "'q \<Rightarrow> bytes \<Rightarrow> nat \<Rightarrow> (nat \<times> bytes \<times> 'q) option"
    and contents :: "'q \<Rightarrow> bytes"
    and cap :: "'q \<Rightarrow> nat"
    and invar :: "'q \<Rightarrow> bool"
  assumes fifo_put: "invar q \<Longrightarrow> n \<le> length d \<Longrightarrow>
      \<exists>q'. put q d n = Some (min (cap q - length (contents q)) n, q') \<and> invar q' \<and> cap q' = cap q \<and>
        contents q' = contents q @ take (min (cap q - length (contents q)) n) d"
    and fifo_get: "invar q \<Longrightarrow> n \<le> length p \<Longrightarrow>
      \<exists>q'. get q p n = Some (min (length (contents q)) n,
            take (min (length (contents q)) n) (contents q) @ drop (min (length (contents q)) n) p, q') \<and>
        invar q' \<and> cap q' = cap q \<and> contents q' = drop (min (length (contents q)) n) (contents q)"
    and fifo_bound: "invar q \<Longrightarrow> length (contents q) \<le> cap q"
begin

lemma put_all: "invar q \<Longrightarrow> length (contents q) + length d \<le> cap q \<Longrightarrow>
  \<exists>q'. put q d (length d) = Some (length d, q') \<and> invar q' \<and> cap q' = cap q \<and>
    contents q' = contents q @ d"
proof -
  assume a: "invar q" "length (contents q) + length d \<le> cap q"
  then have "min (cap q - length (contents q)) (length d) = length d" by linarith
  with fifo_put[OF a(1) order_refl, of d] show ?thesis by simp
qed

lemma stream_preserved:
  "invar q \<Longrightarrow> \<exists>a g q'. fifo_run put get ops q = Some (a, g, q') \<and> invar q' \<and> cap q' = cap q \<and>
     contents q @ a = g @ contents q'"
proof (induction ops arbitrary: q)
  case Nil
  then show ?case by simp
next
  case (Cons x ops)
  show ?case
  proof (cases x)
    case (Put d)
    obtain n q1 where p: "put q d (length d) = Some (n, q1)" "invar q1" "cap q1 = cap q"
      and c: "contents q1 = contents q @ take n d"
      using fifo_put[OF Cons.prems order_refl] by blast
    from Cons.IH[OF p(2)] obtain a g q2 where "fifo_run put get ops q1 = Some (a, g, q2)"
      "invar q2" "cap q2 = cap q1" "contents q1 @ a = g @ contents q2" by blast
    with p c Put show ?thesis by simp
  next
    case (Get n)
    obtain q1 where p: "get q (replicate n 0) n = Some (min (length (contents q)) n,
        take (min (length (contents q)) n) (contents q) @ drop (min (length (contents q)) n) (replicate n 0), q1)"
      "invar q1" "cap q1 = cap q" "contents q1 = drop (min (length (contents q)) n) (contents q)"
      using fifo_get[OF Cons.prems, of n "replicate n 0"] by auto
    from Cons.IH[OF p(2)] obtain a g q2 where r: "fifo_run put get ops q1 = Some (a, g, q2)"
      "invar q2" "cap q2 = cap q1" "contents q1 @ a = g @ contents q2" by blast
    have "contents q @ a = take (min (length (contents q)) n) (contents q) @ contents q1 @ a"
      by (simp add: p(4))
    also have "\<dots> = take (min (length (contents q)) n) (contents q) @ g @ contents q2"
      by (simp add: r(4))
    finally show ?thesis
      using p r Get by simp
  qed
qed

end

interpretation rbq: byte_fifo rt_ringbuffer_put rt_ringbuffer_get rb_contents rb_cap rb_inv
proof
  fix q n and d :: bytes assume "rb_inv q" "n \<le> length d"
  then show "\<exists>q'. rt_ringbuffer_put q d n = Some (min (rb_cap q - length (rb_contents q)) n, q') \<and>
      rb_inv q' \<and> rb_cap q' = rb_cap q \<and>
      rb_contents q' = rb_contents q @ take (min (rb_cap q - length (rb_contents q)) n) d"
    by (rule put_spec)
next
  fix q n and p :: bytes assume "rb_inv q" "n \<le> length p"
  then show "\<exists>q'. rt_ringbuffer_get q p n = Some (min (length (rb_contents q)) n,
        take (min (length (rb_contents q)) n) (rb_contents q) @ drop (min (length (rb_contents q)) n) p, q') \<and>
      rb_inv q' \<and> rb_cap q' = rb_cap q \<and> rb_contents q' = drop (min (length (rb_contents q)) n) (rb_contents q)"
    by (rule get_spec)
next
  fix q assume "rb_inv q"
  then show "length (rb_contents q) \<le> rb_cap q" by (simp add: data_len_le)
qed

section \<open>Properties\<close>

text \<open>
  C3. Between the network thread and the parser thread no byte is lost, duplicated or reordered:
  in every sequence of puts and gets on a well-formed ring buffer, all memory accesses are in
  range, the invariant holds at the end, and the bytes stored before plus the bytes accepted are
  exactly the bytes delivered followed by the bytes still stored.
\<close>

theorem ringbuffer_stream:
  assumes "rb_inv rb"
  shows "\<exists>acc del rb'. fifo_run rt_ringbuffer_put rt_ringbuffer_get ops rb = Some (acc, del, rb') \<and>
    rb_inv rb' \<and> rb_cap rb' = rb_cap rb \<and> rb_contents rb @ acc = del @ rb_contents rb'"
  using assms by (rule rbq.stream_preserved)

definition rb16 :: rt_ringbuffer where
  "rb16 = \<lparr>buffer_ptr = replicate 16 0, read_mirror = False, read_index = 13, write_mirror = False,
     write_index = 13, buffer_size = 16\<rparr>"

theorem ringbuffer_stream_witness:
  "\<exists>acc del rb'. fifo_run rt_ringbuffer_put rt_ringbuffer_get
      [Put [1, 2, 3, 4, 5], Get 2, Put [6, 7]] rb16 = Some (acc, del, rb') \<and>
    rb_inv rb' \<and> rb_cap rb' = rb_cap rb16 \<and> rb_contents rb16 @ acc = del @ rb_contents rb'"
  by (rule ringbuffer_stream) (simp add: rb16_def rb_inv_def)

text \<open>
  \<open>rt_ringbuffer_put\<close> stores as many bytes of its argument as there is room for, behind
  the ones already stored, and returns how many: it never writes outside the pool.
\<close>

theorem ringbuffer_put_appends:
  assumes "rb_inv rb" and "n \<le> length d"
  shows "\<exists>rb'. rt_ringbuffer_put rb d n = Some (min (rt_ringbuffer_space_len rb) n, rb') \<and> rb_inv rb' \<and>
    rb_contents rb' = rb_contents rb @ take (min (rt_ringbuffer_space_len rb) n) d \<and>
    drop (rb_cap rb) (buffer_ptr rb') = drop (rb_cap rb) (buffer_ptr rb)"
  using put_spec[OF assms] put_frame[OF assms] by (auto simp: space_len_eq[OF assms(1)])

theorem ringbuffer_put_appends_witness:
  "\<exists>rb'. rt_ringbuffer_put rb16 (replicate 20 7) 20 = Some (min (rt_ringbuffer_space_len rb16) 20, rb') \<and>
    rb_inv rb' \<and>
    rb_contents rb' = rb_contents rb16 @ take (min (rt_ringbuffer_space_len rb16) 20) (replicate 20 7) \<and>
    drop (rb_cap rb16) (buffer_ptr rb') = drop (rb_cap rb16) (buffer_ptr rb16)"
  by (rule ringbuffer_put_appends) (simp_all add: rb16_def rb_inv_def)

text \<open>
  \<open>rt_ringbuffer_put_force\<close> always takes the data: afterwards the buffer holds the newest
  \<open>rb_cap\<close> bytes of the old contents followed by the data, in order, whichever of the index and
  mirror branches ran; the one-byte version agrees with it.
\<close>

theorem ringbuffer_put_force_newest:
  assumes "rb_inv rb" and "length d < 2 ^ 32"
  shows "\<exists>rb'. rt_ringbuffer_put_force rb d (length d) = Some (min (length d) (rb_cap rb), rb') \<and>
    rb_inv rb' \<and> rb_contents rb' = last_n (rb_cap rb) (rb_contents rb @ d) \<and>
    rt_ringbuffer_putchar_force rb ch = rt_ringbuffer_put_force rb [ch] 1"
  using put_force_spec[OF assms(1) refl assms(2)] putchar_force_eq[OF assms(1)] by blast

theorem ringbuffer_put_force_newest_witness:
  "\<exists>rb'. rt_ringbuffer_put_force rb16 (replicate 20 7) (length (replicate 20 (7 :: u8))) =
      Some (min (length (replicate 20 (7 :: u8))) (rb_cap rb16), rb') \<and>
    rb_inv rb' \<and> rb_contents rb' = last_n (rb_cap rb16) (rb_contents rb16 @ replicate 20 7) \<and>
    rt_ringbuffer_putchar_force rb16 9 = rt_ringbuffer_put_force rb16 [9] 1"
  by (rule ringbuffer_put_force_newest) (simp_all add: rb16_def rb_inv_def)

text \<open>
  \<open>rt_ringbuffer_peek\<close> hands out the longest contiguous run of the stored bytes and consumes
  exactly that run; on an empty buffer it hands out nothing and changes nothing.
\<close>

theorem ringbuffer_peek_run:
  assumes "rb_inv rb"
  shows "case rt_ringbuffer_peek rb of
      (m, None, rb') \<Rightarrow> m = 0 \<and> rb' = rb \<and> rb_contents rb = []
    | (m, Some off, rb') \<Rightarrow> take m (drop off (buffer_ptr rb)) = take m (rb_contents rb) \<and> 0 < m \<and>
        (m = length (rb_contents rb) \<or> off + m = rb_cap rb) \<and>
        rb_inv rb' \<and> rb_contents rb' = drop m (rb_contents rb)"
proof (cases "rb_contents rb = []")
  case True
  then show ?thesis by (simp add: peek_eq[OF assms])
next
  case False
  define m where "m = min (rt_ringbuffer_data_len rb) (rb_cap rb - read_index rb)"
  have p: "rt_ringbuffer_peek rb = (m, Some (read_index rb), advance_r rb m)"
    using False by (simp add: peek_eq[OF assms] m_def Let_def)
  have "m = length (rb_contents rb) \<or> read_index rb + m = rb_cap rb"
    using rb_invD(5)[OF assms] by (auto simp: m_def)
  with peek_run[OF assms p] show ?thesis by (simp add: p)
qed

theorem ringbuffer_peek_run_witness:
  "case rt_ringbuffer_peek rb16 of
      (m, None, rb') \<Rightarrow> m = 0 \<and> rb' = rb16 \<and> rb_contents rb16 = []
    | (m, Some off, rb') \<Rightarrow> take m (drop off (buffer_ptr rb16)) = take m (rb_contents rb16) \<and> 0 < m \<and>
        (m = length (rb_contents rb16) \<or> off + m = rb_cap rb16) \<and>
        rb_inv rb' \<and> rb_contents rb' = drop m (rb_contents rb16)"
  by (rule ringbuffer_peek_run) (simp add: rb16_def rb_inv_def)

end
