(* ===== verification/Vfs.thy ===== *)
theory Vfs
  imports Prelude
begin

text \<open>
  The file-system calls of the C library that the firmware uses (\<open>open\<close>, \<open>read\<close>, \<open>write\<close>,
  \<open>lseek\<close>, \<open>close\<close>, \<open>access\<close>, \<open>mkdir\<close> and the \<open>fopen\<close> family, which sits on them), over a flat
  map from path names to file contents. Path names are byte strings; a name without a
  slash-separated parent in \<open>dirs\<close> cannot be created, so the order of \<open>mkdir\<close> and \<open>open\<close> matters.
  \<open>room\<close> is the free space of the flash: a write stores what fits. Descriptors are numbers from
  3 on, handed out lowest first; a descriptor that is never closed stays taken.
\<close>

section \<open>State\<close>

record ofile =
  of_path :: bytes
  of_pos :: nat

record vfs =
  files :: "bytes \<rightharpoonup> bytes"
  dirs :: "bytes \<Rightarrow> bool"
  fds :: "int \<rightharpoonup> ofile"
  room :: nat

definition slash :: u8 where
  "slash = 47"

definition parent :: "bytes \<Rightarrow> bytes" where
  "parent p = rev (drop 1 (dropWhile (\<lambda>b. b \<noteq> slash) (rev p)))"

definition fd_list :: "int list" where
  "fd_list = [3, 4, 5, 6, 7, 8, 9, 10, 11, 12, 13, 14, 15]"

definition fd_alloc :: "vfs \<Rightarrow> int option" where
  "fd_alloc fs = List.find (\<lambda>d. fds fs d = None) fd_list"

section \<open>Calls\<close>

definition fd_new :: "vfs \<Rightarrow> bytes \<Rightarrow> int \<times> vfs" where
  "fd_new fs p =
     (case fd_alloc fs of
        None \<Rightarrow> (-1, fs)
      | Some d \<Rightarrow> (d, fs\<lparr>fds := (fds fs)(d \<mapsto> \<lparr>of_path = p, of_pos = 0\<rparr>)\<rparr>))"

text \<open>\<open>O_RDONLY\<close>\<close>

definition open_r :: "vfs \<Rightarrow> bytes \<Rightarrow> int \<times> vfs" where
  "open_r fs p = (if files fs p = None then (-1, fs) else fd_new fs p)"

definition file_size :: "vfs \<Rightarrow> bytes \<Rightarrow> nat" where
  "file_size fs p = (case files fs p of None \<Rightarrow> 0 | Some c \<Rightarrow> length c)"

text \<open>\<open>O_WRONLY | O_CREAT | O_TRUNC\<close>: the space of the old contents is free again.\<close>

definition open_w :: "vfs \<Rightarrow> bytes \<Rightarrow> int \<times> vfs" where
  "open_w fs p =
     (if dirs fs (parent p) \<and> \<not> dirs fs p \<and> fd_alloc fs \<noteq> None
      then fd_new (fs\<lparr>files := (files fs)(p \<mapsto> []), room := room fs + file_size fs p\<rparr>) p
      else (-1, fs))"

text \<open>\<open>O_RDWR | O_CREAT\<close>\<close>

definition open_rw :: "vfs \<Rightarrow> bytes \<Rightarrow> int \<times> vfs" where
  "open_rw fs p =
     (if files fs p \<noteq> None then fd_new fs p
      else if dirs fs (parent p) \<and> \<not> dirs fs p \<and> fd_alloc fs \<noteq> None
      then fd_new (fs\<lparr>files := (files fs)(p \<mapsto> [])\<rparr>) p
      else (-1, fs))"

text \<open>\<open>O_WRONLY | O_CREAT | O_APPEND\<close>\<close>

definition open_a :: "vfs \<Rightarrow> bytes \<Rightarrow> int \<times> vfs" where
  "open_a fs p =
     (case open_rw fs p of (d, fs1) \<Rightarrow>
        if d < 0 then (d, fs1)
        else (d, fs1\<lparr>fds := (fds fs1)(d \<mapsto> \<lparr>of_path = p, of_pos = file_size fs1 p\<rparr>)\<rparr>))"

text \<open>\<open>fopen\<close> with the binary modes; a negative number is the null pointer.\<close>

definition fopen :: "vfs \<Rightarrow> bytes \<Rightarrow> bytes \<Rightarrow> int \<times> vfs" where
  "fopen fs p mode =
     (if mode = bs ''rb'' then open_r fs p
      else if mode = bs ''wb'' then open_w fs p
      else if mode = bs ''ab'' then open_a fs p
      else (-1, fs))"

definition fcontent :: "vfs \<Rightarrow> int \<Rightarrow> bytes option" where
  "fcontent fs d = do { f \<leftarrow> fds fs d; files fs (of_path f) }"

definition vread :: "vfs \<Rightarrow> int \<Rightarrow> nat \<Rightarrow> int \<times> bytes \<times> vfs" where
  "vread fs d n =
     (case fds fs d of
        None \<Rightarrow> (-1, [], fs)
      | Some f \<Rightarrow>
          (case files fs (of_path f) of
             None \<Rightarrow> (-1, [], fs)
           | Some c \<Rightarrow>
               let x = take n (drop (of_pos f) c) in
               (int (length x), x,
                fs\<lparr>fds := (fds fs)(d \<mapsto> f\<lparr>of_pos := of_pos f + length x\<rparr>)\<rparr>)))"

definition vwrite :: "vfs \<Rightarrow> int \<Rightarrow> bytes \<Rightarrow> int \<times> vfs" where
  "vwrite fs d x =
     (case fds fs d of
        None \<Rightarrow> (-1, fs)
      | Some f \<Rightarrow>
          (case files fs (of_path f) of
             None \<Rightarrow> (-1, fs)
           | Some c \<Rightarrow>
               let p = of_pos f;
                   n = min (length x) (length c - p + room fs);
                   c' = take p c @ replicate (p - length c) 0 @ take n x @ drop (p + n) c
               in (int n,
                   fs\<lparr>files := (files fs)(of_path f \<mapsto> c'),
                      fds := (fds fs)(d \<mapsto> f\<lparr>of_pos := p + n\<rparr>),
                      room := room fs - (length c' - length c)\<rparr>)))"

text \<open>\<open>fread\<close> and \<open>fwrite\<close> with element size 1: the number of bytes transferred.\<close>

definition fread :: "vfs \<Rightarrow> int \<Rightarrow> nat \<Rightarrow> nat \<times> bytes \<times> vfs" where
  "fread fs d n = (case vread fs d n of (r, x, fs1) \<Rightarrow> (nat r, x, fs1))"

definition fwrite :: "vfs \<Rightarrow> int \<Rightarrow> bytes \<Rightarrow> nat \<times> vfs" where
  "fwrite fs d x = (case vwrite fs d x of (r, fs1) \<Rightarrow> (nat r, fs1))"

text \<open>\<open>SEEK_SET\<close>; a negative offset fails.\<close>

definition vseek :: "vfs \<Rightarrow> int \<Rightarrow> int \<Rightarrow> int \<times> vfs" where
  "vseek fs d off =
     (case fds fs d of
        None \<Rightarrow> (-1, fs)
      | Some f \<Rightarrow> if off < 0 then (-1, fs)
          else (0, fs\<lparr>fds := (fds fs)(d \<mapsto> f\<lparr>of_pos := nat off\<rparr>)\<rparr>))"

text \<open>The value of \<open>lseek (fd, 0, SEEK_END)\<close>.\<close>

definition vsize :: "vfs \<Rightarrow> int \<Rightarrow> int" where
  "vsize fs d = (case fcontent fs d of None \<Rightarrow> -1 | Some c \<Rightarrow> int (length c))"

definition vclose :: "vfs \<Rightarrow> int \<Rightarrow> vfs" where
  "vclose fs d = fs\<lparr>fds := (fds fs)(d := None)\<rparr>"

definition vaccess :: "vfs \<Rightarrow> bytes \<Rightarrow> bool" where
  "vaccess fs p \<longleftrightarrow> files fs p \<noteq> None \<or> dirs fs p"

definition vmkdir :: "vfs \<Rightarrow> bytes \<Rightarrow> int \<times> vfs" where
  "vmkdir fs p =
     (if dirs fs (parent p) \<and> \<not> dirs fs p \<and> files fs p = None
      then (0, fs\<lparr>dirs := (dirs fs)(p := True)\<rparr>) else (-1, fs))"

section \<open>Laws\<close>

lemma fd_alloc_SomeD: "fd_alloc fs = Some d \<Longrightarrow> fds fs d = None \<and> 3 \<le> d \<and> d \<le> 15"
  unfolding fd_alloc_def find_Some_iff fd_list_def
  by (elim exE conjE) (simp add: less_Suc_eq numeral_eq_Suc, auto)

lemma open_r_ok:
  assumes "files fs p = Some c" and "fd_alloc fs = Some d"
  shows "open_r fs p = (d, fs\<lparr>fds := (fds fs)(d \<mapsto> \<lparr>of_path = p, of_pos = 0\<rparr>)\<rparr>)"
  using assms by (simp add: open_r_def fd_new_def)

lemma open_w_ok:
  assumes "dirs fs (parent p)" "\<not> dirs fs p" and "fd_alloc fs = Some d"
  shows "open_w fs p = (d, fs\<lparr>files := (files fs)(p \<mapsto> []), room := room fs + file_size fs p,
    fds := (fds fs)(d \<mapsto> \<lparr>of_path = p, of_pos = 0\<rparr>)\<rparr>)"
  using assms by (simp add: open_w_def fd_new_def fd_alloc_def)

lemma open_w_cases:
  "(\<exists>d. fd_alloc fs = Some d \<and> dirs fs (parent p) \<and> \<not> dirs fs p) \<or> open_w fs p = (-1, fs)"
  by (cases "fd_alloc fs") (auto simp: open_w_def)

text \<open>
  A descriptor stands at the end of its file with \<open>n\<close> bytes of flash left.
\<close>

definition at_end :: "vfs \<Rightarrow> int \<Rightarrow> nat \<Rightarrow> bool" where
  "at_end fs d n \<longleftrightarrow>
     n \<le> room fs \<and>
     (case fds fs d of None \<Rightarrow> False
      | Some f \<Rightarrow> (case files fs (of_path f) of None \<Rightarrow> False | Some c \<Rightarrow> of_pos f = length c))"

lemma at_endE:
  assumes "at_end fs d n"
  obtains f c where "fds fs d = Some f" "files fs (of_path f) = Some c" "of_pos f = length c"
    "n \<le> room fs" "fcontent fs d = Some c"
  using assms by (auto simp: at_end_def fcontent_def split: option.splits)

lemma vwrite_append:
  assumes "fds fs d = Some f" "files fs (of_path f) = Some c" "of_pos f = length c" "length x \<le> room fs"
  shows "vwrite fs d x = (int (length x),
    fs\<lparr>files := (files fs)(of_path f \<mapsto> c @ x),
       fds := (fds fs)(d \<mapsto> f\<lparr>of_pos := length c + length x\<rparr>), room := room fs - length x\<rparr>)"
  using assms by (simp add: vwrite_def Let_def)

lemma vread_eq:
  assumes "fds fs d = Some f" "files fs (of_path f) = Some c"
  shows "vread fs d n = (int (length (take n (drop (of_pos f) c))), take n (drop (of_pos f) c),
    fs\<lparr>fds := (fds fs)(d \<mapsto> f\<lparr>of_pos := of_pos f + length (take n (drop (of_pos f) c))\<rparr>)\<rparr>)"
  using assms by (simp add: vread_def Let_def)

section \<open>Writing a file in pieces\<close>

text \<open>
  What the update receiver and the archive extractor rely on: a sink that keeps the pieces it
  is given, in order, as long as there is room.
\<close>

locale chunk_sink =
  fixes put :: "'s \<Rightarrow> int \<Rightarrow> bytes \<Rightarrow> int \<times> 's"
    and content :: "'s \<Rightarrow> int \<Rightarrow> bytes option"
    and ready :: "'s \<Rightarrow> int \<Rightarrow> nat \<Rightarrow> bool"
  assumes put_piece: "ready s d n \<Longrightarrow> length x \<le> n \<Longrightarrow> content s d = Some c \<Longrightarrow>
      \<exists>s'. put s d x = (int (length x), s') \<and> content s' d = Some (c @ x) \<and> ready s' d (n - length x)"
    and ready_content: "ready s d n \<Longrightarrow> content s d \<noteq> None"
begin

lemma put_pieces:
  "ready s d n \<Longrightarrow> length (concat xs) \<le> n \<Longrightarrow> content s d = Some c \<Longrightarrow>
   content (fold (\<lambda>x s. snd (put s d x)) xs s) d = Some (c @ concat xs) \<and>
   ready (fold (\<lambda>x s. snd (put s d x)) xs s) d (n - length (concat xs))"
proof (induction xs arbitrary: s n c)
  case Nil
  then show ?case by simp
next
  case (Cons x xs)
  from Cons.prems have "length x \<le> n" by simp
  from put_piece[OF Cons.prems(1) this Cons.prems(3)] obtain s' where
    s: "put s d x = (int (length x), s')" "content s' d = Some (c @ x)" "ready s' d (n - length x)"
    by blast
  from Cons.prems(2) have "length (concat xs) \<le> n - length x" by simp
  from Cons.IH[OF s(3) this s(2)] s(1) show ?case by simp
qed

end

interpretation fsink: chunk_sink vwrite fcontent at_end
proof
  fix fs d n and x c :: bytes
  assume "at_end fs d n" "length x \<le> n" and c: "fcontent fs d = Some c"
  then obtain f where f: "fds fs d = Some f" "files fs (of_path f) = Some c" "of_pos f = length c"
    "length x \<le> room fs" "n \<le> room fs"
    by (auto elim!: at_endE)
  show "\<exists>s'. vwrite fs d x = (int (length x), s') \<and> fcontent s' d = Some (c @ x) \<and> at_end s' d (n - length x)"
    using f by (simp add: vwrite_append[OF f(1-4)] fcontent_def at_end_def)
next
  fix fs d n assume "at_end fs d n"
  then show "fcontent fs d \<noteq> None" by (auto elim!: at_endE)
qed

end
