(* ===== verification/Crc.thy ===== *)
theory Crc
  imports Vfs
begin

text \<open>
  The checksum of downloaded update files (\<^verbatim>\<open>src/applications/common/common.c\<close>): the table, the
  table-driven \<open>soft_crc32\<close> and \<open>crcfile\<close>, which reads a file in blocks. The reference is the
  bitwise CRC-32 with the reflected polynomial \<open>0xEDB88320\<close>.
\<close>

section \<open>Code\<close>

definition CRC_BUFFER_SIZE :: nat where
  "CRC_BUFFER_SIZE = 512"

definition crc32_table :: "u32 list" where
  "crc32_table =
    [0, 1996959894, 3993919788, 2567524794, 124634137, 1886057615, 3915621685, 2657392035,
     249268274, 2044508324, 3772115230, 2547177864, 162941995, 2125561021, 3887607047, 2428444049,
     498536548, 1789927666, 4089016648, 2227061214, 450548861, 1843258603, 4107580753, 2211677639,
     325883990, 1684777152, 4251122042, 2321926636, 335633487, 1661365465, 4195302755, 2366115317,
     997073096, 1281953886, 3579855332, 2724688242, 1006888145, 1258607687, 3524101629, 2768942443,
     901097722, 1119000684, 3686517206, 2898065728, 853044451, 1172266101, 3705015759, 2882616665,
     651767980, 1373503546, 3369554304, 3218104598, 565507253, 1454621731, 3485111705, 3099436303,
     671266974, 1594198024, 3322730930, 2970347812, 795835527, 1483230225, 3244367275, 3060149565,
     1994146192, 31158534, 2563907772, 4023717930, 1907459465, 112637215, 2680153253, 3904427059,
     2013776290, 251722036, 2517215374, 3775830040, 2137656763, 141376813, 2439277719, 3865271297,
     1802195444, 476864866, 2238001368, 4066508878, 1812370925, 453092731, 2181625025, 4111451223,
     1706088902, 314042704, 2344532202, 4240017532, 1658658271, 366619977, 2362670323, 4224994405,
     1303535960, 984961486, 2747007092, 3569037538, 1256170817, 1037604311, 2765210733, 3554079995,
     1131014506, 879679996, 2909243462, 3663771856, 1141124467, 855842277, 2852801631, 3708648649,
     1342533948, 654459306, 3188396048, 3373015174, 1466479909, 544179635, 3110523913, 3462522015,
     1591671054, 702138776, 2966460450, 3352799412, 1504918807, 783551873, 3082640443, 3233442989,
     3988292384, 2596254646, 62317068, 1957810842, 3939845945, 2647816111, 81470997, 1943803523,
     3814918930, 2489596804, 225274430, 2053790376, 3826175755, 2466906013, 167816743, 2097651377,
     4027552580, 2265490386, 503444072, 1762050814, 4150417245, 2154129355, 426522225, 1852507879,
     4275313526, 2312317920, 282753626, 1742555852, 4189708143, 2394877945, 397917763, 1622183637,
     3604390888, 2714866558, 953729732, 1340076626, 3518719985, 2797360999, 1068828381, 1219638859,
     3624741850, 2936675148, 906185462, 1090812512, 3747672003, 2825379669, 829329135, 1181335161,
     3412177804, 3160834842, 628085408, 1382605366, 3423369109, 3138078467, 570562233, 1426400815,
     3317316542, 2998733608, 733239954, 1555261956, 3268935591, 3050360625, 752459403, 1541320221,
     2607071920, 3965973030, 1969922972, 40735498, 2617837225, 3943577151, 1913087877, 83908371,
     2512341634, 3803740692, 2075208622, 213261112, 2463272603, 3855990285, 2094854071, 198958881,
     2262029012, 4057260610, 1759359992, 534414190, 2176718541, 4139329115, 1873836001, 414664567,
     2282248934, 4279200368, 1711684554, 285281116, 2405801727, 4167216745, 1634467795, 376229701,
     2685067896, 3608007406, 1308918612, 956543938, 2808555105, 3495958263, 1231636301, 1047427035,
     2932959818, 3654703836, 1088359270, 936918000, 2847714899, 3736837829, 1202900863, 817233897,
     3183342108, 3401237130, 1404277552, 615818150, 3134207493, 3453421203, 1423857449, 601450431,
     3009837614, 3294710456, 1567103746, 711928724, 3020668471, 3272380065, 1510334235, 755167117]"

fun soft_crc32_loop :: "bytes \<Rightarrow> nat \<Rightarrow> u32 \<Rightarrow> u32 option" where
  "soft_crc32_loop buf 0 crc = Some crc"
| "soft_crc32_loop [] (Suc len) crc = None"
| "soft_crc32_loop (b # buf) (Suc len) crc =
     do { t \<leftarrow> load crc32_table (unat ((crc XOR ucast b) AND 0xFF));
          soft_crc32_loop buf len (t XOR drop_bit 8 crc) }"

definition soft_crc32 :: "bytes \<Rightarrow> nat \<Rightarrow> u32 \<Rightarrow> u32 option" where
  "soft_crc32 buf len crc_init =
     map_option (\<lambda>crc. crc XOR 0xFFFFFFFF) (soft_crc32_loop buf len (crc_init XOR 0xFFFFFFFF))"

text \<open>One round of the loop of \<open>crcfile\<close>.\<close>

definition crcfile_body :: "int \<Rightarrow> vfs \<times> u32 \<Rightarrow> ((vfs \<times> u32) + (vfs \<times> u32)) option" where
  "crcfile_body fd = (\<lambda>(fs, crc_result).
     case vread fs fd CRC_BUFFER_SIZE of (read_bytes, buffer, fs1) \<Rightarrow>
       if read_bytes > 0
       then do { c \<leftarrow> soft_crc32 buffer (nat read_bytes) crc_result; Some (Inr (fs1, c)) }
       else Some (Inl (fs1, crc_result)))"

text \<open>
  \<open>argv\<close> is the argument vector; the result is \<open>None\<close> when \<open>fuel\<close> rounds are not enough to
  read the file.
\<close>

definition crcfile :: "nat \<Rightarrow> vfs \<Rightarrow> bytes list \<Rightarrow> (u32 \<times> vfs) option" where
  "crcfile fuel fs argv =
     (if length argv \<noteq> 2 then Some (0, fs)
      else case open_r fs (argv ! 1) of (fd, fs1) \<Rightarrow>
        if fd < 0 then Some (0, fs1)
        else case run_loop fuel (crcfile_body fd) (fs1, 0) of
               Some (Inl (fs2, crc_result)) \<Rightarrow> Some (crc_result, vclose fs2 fd)
             | _ \<Rightarrow> None)"

section \<open>The bitwise reference\<close>

definition crc_bit :: "u32 \<Rightarrow> u32" where
  "crc_bit x = (if bit x 0 then drop_bit 1 x XOR 0xEDB88320 else drop_bit 1 x)"

definition crc_byte :: "u32 \<Rightarrow> u8 \<Rightarrow> u32" where
  "crc_byte c b = (crc_bit ^^ 8) (c XOR ucast b)"

definition crc32_ref :: "bytes \<Rightarrow> u32" where
  "crc32_ref d = NOT (foldl crc_byte (NOT 0) d)"

lemma crc_bit_numeral:
  "crc_bit 0 = 0" "crc_bit 1 = 0xEDB88320"
  "crc_bit (numeral n) = (if bit (numeral n :: u32) 0
     then drop_bit 1 (numeral n) XOR 0xEDB88320 else drop_bit 1 (numeral n))"
  by (simp_all add: crc_bit_def)

lemma crc_bit_8: "(crc_bit ^^ 8) x =
  crc_bit (crc_bit (crc_bit (crc_bit (crc_bit (crc_bit (crc_bit (crc_bit x)))))))"
  by (simp add: eval_nat_numeral)

lemma length_crc32_table: "length crc32_table = 256"
  by (simp add: crc32_table_def)

lemma crc32_table_all: "map (\<lambda>i. (crc_bit ^^ 8) (word_of_int i)) [0..255] = crc32_table"
  by (simp add: upto.simps crc_bit_8 crc_bit_numeral crc32_table_def)

lemma crc32_table_nth:
  assumes "i < 256"
  shows "crc32_table ! i = (crc_bit ^^ 8) (word_of_nat i)"
proof -
  have "crc32_table ! i = map (\<lambda>i. (crc_bit ^^ 8) (word_of_int i)) [0..255] ! i"
    by (simp add: crc32_table_all)
  also have "\<dots> = (crc_bit ^^ 8) (word_of_int (int i))"
    using assms by (subst nth_map) simp_all
  finally show ?thesis by simp
qed

section \<open>The table step is the bitwise step\<close>

lemma crc_bit_xor: "crc_bit (x XOR y) = crc_bit x XOR crc_bit y"
  by (auto simp: crc_bit_def bit_simps ac_simps)

lemma crc_bits_xor: "(crc_bit ^^ n) (x XOR y) = (crc_bit ^^ n) x XOR (crc_bit ^^ n) y"
  by (induction n arbitrary: x y) (simp_all add: crc_bit_xor)

lemma crc_bits_high: "(\<And>i. i < n \<Longrightarrow> \<not> bit x i) \<Longrightarrow> (crc_bit ^^ n) x = drop_bit n x"
proof (induction n arbitrary: x)
  case (Suc n)
  have "crc_bit x = drop_bit 1 x" using Suc.prems[of 0] by (simp add: crc_bit_def)
  moreover have "(crc_bit ^^ n) (drop_bit 1 x) = drop_bit n (drop_bit 1 x)"
    by (rule Suc.IH) (use Suc.prems in \<open>simp add: bit_simps\<close>)
  ultimately show ?case by (simp add: funpow_Suc_right del: funpow.simps)
qed simp

lemma crc_table_step:
  "crc32_table ! unat (x AND 0xFF) XOR drop_bit 8 x = (crc_bit ^^ 8) x"
proof -
  have m: "(0xFF :: u32) = mask 8" by (simp add: mask_eq_exp_minus_1)
  have lt: "unat (x AND 0xFF) < 256"
    using word_and_le1[of x "0xFF"] by (simp add: word_le_nat_alt)
  have x: "x = (x AND 0xFF) XOR (x AND NOT 0xFF)"
    unfolding m by (auto simp: bit_eq_iff bit_simps)
  have "(crc_bit ^^ 8) x = (crc_bit ^^ 8) (x AND 0xFF) XOR (crc_bit ^^ 8) (x AND NOT 0xFF)"
    by (subst x) (rule crc_bits_xor)
  also have "(crc_bit ^^ 8) (x AND 0xFF) = crc32_table ! unat (x AND 0xFF)"
    using lt by (simp add: crc32_table_nth)
  also have "(crc_bit ^^ 8) (x AND NOT 0xFF) = drop_bit 8 (x AND NOT 0xFF)"
    unfolding m by (rule crc_bits_high) (simp add: bit_simps)
  also have "drop_bit 8 (x AND NOT 0xFF) = drop_bit 8 x"
    unfolding m by (auto simp: bit_eq_iff bit_simps dest: bit_length_lt)
  finally show ?thesis by simp
qed

lemma crc_step:
  "load crc32_table (unat ((crc XOR ucast b) AND 0xFF)) = Some t \<Longrightarrow> t XOR drop_bit 8 crc = crc_byte crc b"
proof -
  assume "load crc32_table (unat ((crc XOR ucast b) AND 0xFF)) = Some t"
  then have t: "t = crc32_table ! unat ((crc XOR ucast b) AND 0xFF)"
    by (simp add: load_Some_iff)
  have "drop_bit 8 (crc XOR ucast b) = drop_bit 8 crc"
    by (auto simp: bit_eq_iff bit_simps dest: bit_imp_le_length)
  with crc_table_step[of "crc XOR ucast b"] show ?thesis
    by (simp add: t crc_byte_def)
qed

lemma soft_crc32_loop_eq:
  "len \<le> length buf \<Longrightarrow> soft_crc32_loop buf len crc = Some (foldl crc_byte crc (take len buf))"
proof (induction buf len crc rule: soft_crc32_loop.induct)
  case (3 b buf len crc)
  have "unat ((crc XOR ucast b) AND 0xFF) < length crc32_table"
    using word_and_le1[of "crc XOR ucast b" "0xFF"] by (simp add: word_le_nat_alt length_crc32_table)
  then obtain t where t: "load crc32_table (unat ((crc XOR ucast b) AND 0xFF)) = Some t"
    by (simp add: load_def)
  from 3 t crc_step[OF t] show ?case by simp
qed simp_all

lemma xor_ones: "(x :: u32) XOR 0xFFFFFFFF = NOT x"
proof -
  have "(0xFFFFFFFF :: u32) = NOT 0" by simp
  then show ?thesis by (simp only: ) (auto simp: bit_eq_iff bit_simps)
qed

lemma soft_crc32_eq:
  "len \<le> length buf \<Longrightarrow> soft_crc32 buf len init = Some (NOT (foldl crc_byte (NOT init) (take len buf)))"
  by (simp add: soft_crc32_def soft_crc32_loop_eq xor_ones)

section \<open>Sensitivity\<close>

lemma bit_31_crc_bit: "bit (crc_bit x) 31 \<longleftrightarrow> bit x 0"
  using bit_length_lt[of x 32] by (auto simp: crc_bit_def bit_simps)

lemma crc_bit_inj: "crc_bit x = crc_bit y \<Longrightarrow> x = y"
proof -
  assume e: "crc_bit x = crc_bit y"
  then have b0: "bit x 0 = bit y 0" using bit_31_crc_bit by metis
  have d: "drop_bit 1 x = drop_bit 1 y"
    using e b0 by (auto simp: crc_bit_def xor_right_cancel split: if_splits)
  show "x = y"
  proof (rule bit_eqI)
    fix n
    show "bit x n = bit y n"
    proof (cases n)
      case 0
      then show ?thesis using b0 by simp
    next
      case (Suc k)
      have "bit (drop_bit 1 x) k = bit (drop_bit 1 y) k" using d by simp
      then show ?thesis by (simp add: Suc bit_simps)
    qed
  qed
qed

lemma crc_bits_inj: "(crc_bit ^^ n) x = (crc_bit ^^ n) y \<Longrightarrow> x = y"
  by (induction n) (auto dest: crc_bit_inj)

lemma crc_byte_inj_state: "crc_byte c b = crc_byte c' b \<Longrightarrow> c = c'"
  unfolding crc_byte_def by (drule crc_bits_inj) (simp add: xor_right_cancel)

lemma crc_byte_inj_byte: "crc_byte c b = crc_byte c b' \<Longrightarrow> b = b'"
proof -
  assume "crc_byte c b = crc_byte c b'"
  then have "(ucast b :: u32) = ucast b'"
    unfolding crc_byte_def by (auto dest: crc_bits_inj simp: xor_left_cancel)
  then have "(ucast (ucast b :: u32) :: u8) = ucast (ucast b' :: u32)" by simp
  then show "b = b'" by (simp add: ucast_u8_u32)
qed

lemma crc_fold_inj: "foldl crc_byte c d = foldl crc_byte c' d \<Longrightarrow> c = c'"
  by (induction d arbitrary: c c') (auto dest: crc_byte_inj_state)

lemma crc32_ref_single:
  assumes "b \<noteq> b'"
  shows "crc32_ref (p @ b # s) \<noteq> crc32_ref (p @ b' # s)"
proof
  assume "crc32_ref (p @ b # s) = crc32_ref (p @ b' # s)"
  then have "foldl crc_byte (foldl crc_byte (NOT 0) p) (b # s) = foldl crc_byte (foldl crc_byte (NOT 0) p) (b' # s)"
    by (simp add: crc32_ref_def)
  then have "crc_byte (foldl crc_byte (NOT 0) p) b = crc_byte (foldl crc_byte (NOT 0) p) b'"
    by (auto dest: crc_fold_inj)
  with assms show False by (auto dest: crc_byte_inj_byte)
qed

section \<open>Reading a file in blocks\<close>

lemma crcfile_loop:
  "fds fs fd = Some f \<Longrightarrow> files fs (of_path f) = Some c \<Longrightarrow> of_pos f \<le> length c \<Longrightarrow>
   length c - of_pos f < n \<Longrightarrow>
   \<exists>g. run_loop n (crcfile_body fd) (fs, NOT (foldl crc_byte (NOT 0) (take (of_pos f) c))) =
     Some (Inl (fs\<lparr>fds := (fds fs)(fd \<mapsto> g)\<rparr>, crc32_ref c))"
proof (induction n arbitrary: fs f)
  case (Suc n)
  define x where "x = take CRC_BUFFER_SIZE (drop (of_pos f) c)"
  define g where "g = f\<lparr>of_pos := of_pos f + length x\<rparr>"
  define fs1 where "fs1 = fs\<lparr>fds := (fds fs)(fd \<mapsto> g)\<rparr>"
  have r: "vread fs fd CRC_BUFFER_SIZE = (int (length x), x, fs1)"
    by (simp add: vread_eq[OF Suc.prems(1,2)] x_def g_def fs1_def)
  show ?case
  proof (cases "x = []")
    case True
    then have "of_pos f = length c" using Suc.prems(3) by (simp add: x_def CRC_BUFFER_SIZE_def)
    then show ?thesis
      using r True by (intro exI[of _ g]) (simp add: crcfile_body_def crc32_ref_def fs1_def fun_upd_def)
  next
    case False
    have tk: "take (of_pos g) c = take (of_pos f) c @ x"
      by (auto simp: g_def x_def take_add min_def)
    have b: "crcfile_body fd (fs, NOT (foldl crc_byte (NOT 0) (take (of_pos f) c))) =
        Some (Inr (fs1, NOT (foldl crc_byte (NOT 0) (take (of_pos g) c))))"
      using False by (simp add: crcfile_body_def r soft_crc32_eq tk)
    have "of_pos g \<le> length c" using Suc.prems(3) by (simp add: g_def x_def)
    moreover have "length c - of_pos g < n" using False Suc.prems(4) by (auto simp: g_def x_def)
    moreover have "fds fs1 fd = Some g" "files fs1 (of_path g) = Some c"
      using Suc.prems(2) by (simp_all add: fs1_def g_def)
    ultimately obtain h where "run_loop n (crcfile_body fd) (fs1, NOT (foldl crc_byte (NOT 0) (take (of_pos g) c))) =
        Some (Inl (fs1\<lparr>fds := (fds fs1)(fd \<mapsto> h)\<rparr>, crc32_ref c))"
      using Suc.IH by blast
    moreover have "fs1\<lparr>fds := (fds fs1)(fd \<mapsto> h)\<rparr> = fs\<lparr>fds := (fds fs)(fd \<mapsto> h)\<rparr>"
      by (simp add: fs1_def)
    ultimately show ?thesis unfolding run_loop.simps b by (intro exI[of _ h]) (simp add: fun_upd_def)
  qed
qed simp

lemma crcfile_ok:
  assumes f: "files fs p = Some c" and d: "fd_alloc fs = Some d" and fuel: "length c < fuel"
  shows "crcfile fuel fs [cmd, p] = Some (crc32_ref c, fs)"
proof -
  note dd = fd_alloc_SomeD[OF d]
  define fs1 where "fs1 = fs\<lparr>fds := (fds fs)(d \<mapsto> \<lparr>of_path = p, of_pos = 0\<rparr>)\<rparr>"
  obtain g where r: "run_loop fuel (crcfile_body d) (fs1, 0) = Some (Inl (fs1\<lparr>fds := (fds fs1)(d \<mapsto> g)\<rparr>, crc32_ref c))"
    using crcfile_loop[of fs1 d "\<lparr>of_path = p, of_pos = 0\<rparr>" c fuel] f fuel by (auto simp: fs1_def)
  have "vclose (fs1\<lparr>fds := (fds fs1)(d \<mapsto> g)\<rparr>) d = fs"
    using dd by (simp add: vclose_def fs1_def fun_upd_idem)
  then show ?thesis
    using dd r by (simp add: crcfile_def open_r_ok[OF f d] fs1_def[symmetric])
qed

section \<open>Properties\<close>

text \<open>
  C7. The table-driven checksum is CRC-32: for every buffer and length within it, the result is
  the complement of the bitwise division with the reflected polynomial \<open>0xEDB88320\<close>, started from
  all ones; and a checksum continued over a second buffer is the checksum of both together, which
  is what lets \<open>crcfile\<close> work in blocks.
\<close>

theorem soft_crc32_correct:
  assumes "len \<le> length buf"
  shows "soft_crc32 buf len 0 = Some (crc32_ref (take len buf)) \<and>
    Option.bind (soft_crc32 buf len 0) (soft_crc32 buf2 (length buf2)) =
      Some (crc32_ref (take len buf @ buf2))"
  using assms by (simp add: soft_crc32_eq crc32_ref_def)

theorem soft_crc32_correct_witness:
  "soft_crc32 [49, 50, 51, 52, 53, 54, 55, 56, 57] 5 0 =
     Some (crc32_ref (take 5 [49, 50, 51, 52, 53, 54, 55, 56, 57])) \<and>
   Option.bind (soft_crc32 [49, 50, 51, 52, 53, 54, 55, 56, 57] 5 0) (soft_crc32 [54] (length [54 :: u8])) =
      Some (crc32_ref (take 5 [49, 50, 51, 52, 53, 54, 55, 56, 57] @ [54]))"
  by (rule soft_crc32_correct) simp

text \<open>
  C32. \<open>crcfile\<close> on an existing file returns the CRC-32 of the whole contents, whatever its length
  relative to the 512-byte block, after at most one round more than the file has bytes; it closes
  the descriptor it opened and leaves the file system as it was. On a missing file it returns 0.
\<close>

theorem crcfile_correct:
  assumes "files fs p = Some c" and "fd_alloc fs \<noteq> None" and "length c < fuel"
  shows "crcfile fuel fs [cmd, p] = Some (crc32_ref c, fs) \<and>
    (files fs q = None \<longrightarrow> crcfile fuel fs [cmd, q] = Some (0, fs))"
  using assms crcfile_ok[OF assms(1)] by (auto simp: crcfile_def open_r_def)

definition demo_fs :: vfs where
  "demo_fs = \<lparr>files = [[47, 97] \<mapsto> [1, 2, 3]], dirs = (\<lambda>p. p = []), fds = Map.empty, room = 4096\<rparr>"

theorem crcfile_correct_witness:
  "crcfile 4 demo_fs [[], [47, 97]] = Some (crc32_ref [1, 2, 3], demo_fs) \<and>
    crcfile 4 demo_fs [[], [47]] = Some (0, demo_fs)"
  using crcfile_correct[of demo_fs "[47, 97]" "[1, 2, 3]" 4 "[]" "[47]"]
  by (simp add: demo_fs_def fd_alloc_def fd_list_def)

text \<open>
  C33. A file of which a single byte was corrupted, wherever it is and however long the file, never
  has the checksum of the original: an update whose transfer damaged one byte is always told apart.
\<close>

theorem crc32_detects_byte_error:
  assumes "b \<noteq> b'"
  shows "soft_crc32 (p @ b # s) (length (p @ b # s)) 0 \<noteq> soft_crc32 (p @ b' # s) (length (p @ b' # s)) 0"
  using crc32_ref_single[OF assms, of p s] by (simp add: soft_crc32_eq crc32_ref_def)

theorem crc32_detects_byte_error_witness:
  "soft_crc32 ([1, 2] @ 3 # [4]) (length ([1, 2] @ (3 :: u8) # [4])) 0 \<noteq>
   soft_crc32 ([1, 2] @ 131 # [4]) (length ([1, 2] @ (131 :: u8) # [4])) 0"
  by (rule crc32_detects_byte_error) simp

end
