(* ===== verification/Microtar.thy ===== *)
theory Microtar
  imports Vfs
begin

text \<open>
  The tar library (\<^verbatim>\<open>src/applications/microtar/microtar.c\<close>): header codec with the octal
  \<open>sscanf\<close> and \<open>sprintf\<close> it uses, and every operation on an archive. The callbacks of \<open>mtar_t\<close>
  are always the \<open>file_*\<close> functions that \<open>mtar_open\<close> installs. Field values that the C code would
  read uninitialised are \<open>None\<close>; an operation is \<open>None\<close> where the C code is undefined: an
  indeterminate value is used, an unterminated string is read or a buffer overflows.
\<close>

section \<open>Data\<close>

datatype mtar_err =
  MTAR_ESUCCESS | MTAR_EFAILURE | MTAR_EOPENFAIL | MTAR_EREADFAIL | MTAR_EWRITEFAIL |
  MTAR_ESEEKFAIL | MTAR_EBADCHKSUM | MTAR_ENULLRECORD | MTAR_ENOTFOUND

fun err_code :: "mtar_err \<Rightarrow> int" where
  "err_code MTAR_ESUCCESS = 0"
| "err_code MTAR_EFAILURE = -1"
| "err_code MTAR_EOPENFAIL = -2"
| "err_code MTAR_EREADFAIL = -3"
| "err_code MTAR_EWRITEFAIL = -4"
| "err_code MTAR_ESEEKFAIL = -5"
| "err_code MTAR_EBADCHKSUM = -6"
| "err_code MTAR_ENULLRECORD = -7"
| "err_code MTAR_ENOTFOUND = -8"

definition mtar_strerror :: "int \<Rightarrow> bytes" where
  "mtar_strerror err =
     (if err = 0 then bs ''success'' else if err = -1 then bs ''failure''
      else if err = -2 then bs ''could not open'' else if err = -3 then bs ''could not read''
      else if err = -4 then bs ''could not write'' else if err = -5 then bs ''could not seek''
      else if err = -6 then bs ''bad checksum'' else if err = -7 then bs ''null record''
      else if err = -8 then bs ''file not found'' else bs ''unknown error'')"

definition MTAR_TREG :: u32 where
  "MTAR_TREG = 48"

definition MTAR_TDIR :: u32 where
  "MTAR_TDIR = 53"

record mtar_raw_header_t =
  rh_name :: bytes
  rh_mode :: bytes
  rh_owner :: bytes
  rh_group :: bytes
  rh_size :: bytes
  rh_mtime :: bytes
  rh_checksum :: bytes
  rh_type :: u8
  rh_linkname :: bytes
  rh_padding :: bytes

text \<open>The memory image of the structure, its size, and the structure read from 512 bytes.\<close>

definition raw_bytes :: "mtar_raw_header_t \<Rightarrow> bytes" where
  "raw_bytes rh =
     rh_name rh @ rh_mode rh @ rh_owner rh @ rh_group rh @ rh_size rh @ rh_mtime rh @
     rh_checksum rh @ rh_type rh # rh_linkname rh @ rh_padding rh"

definition raw_size :: nat where
  "raw_size = 512"

definition field :: "nat \<Rightarrow> nat \<Rightarrow> bytes \<Rightarrow> bytes" where
  "field off n d = take n (drop off d)"

definition raw_of_bytes :: "bytes \<Rightarrow> mtar_raw_header_t" where
  "raw_of_bytes d =
     \<lparr>rh_name = field 0 100 d, rh_mode = field 100 8 d, rh_owner = field 108 8 d,
      rh_group = field 116 8 d, rh_size = field 124 12 d, rh_mtime = field 136 12 d,
      rh_checksum = field 148 8 d, rh_type = d ! 156, rh_linkname = field 157 100 d,
      rh_padding = field 257 255 d\<rparr>"

record mtar_header_t =
  h_mode :: "u32 option"
  h_owner :: "u32 option"
  h_size :: "u32 option"
  h_mtime :: "u32 option"
  h_type :: u32
  h_name :: bytes
  h_linkname :: bytes

definition mtar_header_uninit :: mtar_header_t where
  "mtar_header_uninit = \<lparr>h_mode = None, h_owner = None, h_size = None, h_mtime = None, h_type = 0,
     h_name = [], h_linkname = []\<rparr>"

record mtar_t =
  stream :: int
  pos :: u32
  remaining_data :: u32
  last_header :: u32

section \<open>Numbers in headers\<close>

definition isspace :: "u8 \<Rightarrow> bool" where
  "isspace b \<longleftrightarrow> b \<in> set [32, 9, 10, 11, 12, 13]"

definition is_oct :: "u8 \<Rightarrow> bool" where
  "is_oct b \<longleftrightarrow> 48 \<le> b \<and> b \<le> 55"

definition oct_val :: "bytes \<Rightarrow> nat" where
  "oct_val ds = foldl (\<lambda>v b. v * 8 + unat (b - 48)) 0 ds"

text \<open>
  \<open>sscanf (mem, "%o", &x)\<close>: \<open>None\<close> if the string has no end or the number does not fit,
  \<open>Some None\<close> if there is no number and \<open>x\<close> keeps its value.
\<close>

definition sscanf_o :: "bytes \<Rightarrow> u32 option option" where
  "sscanf_o mem =
     (if 0 \<notin> set mem then None
      else let s = dropWhile isspace (c_str mem);
               neg = (s \<noteq> [] \<and> hd s = 45);
               t = (if s \<noteq> [] \<and> (hd s = 45 \<or> hd s = 43) then tl s else s);
               ds = takeWhile is_oct t
           in if ds = [] then Some None
              else if oct_val ds < 2 ^ 32
              then Some (Some (if neg then - of_nat (oct_val ds) else of_nat (oct_val ds)))
              else None)"

text \<open>The output of \<open>sprintf\<close> with \<open>%o\<close> and \<open>%06o\<close>.\<close>

fun oct_digits :: "nat \<Rightarrow> bytes" where
  "oct_digits n = (if n < 8 then [48 + of_nat n] else oct_digits (n div 8) @ [48 + of_nat (n mod 8)])"

declare oct_digits.simps [simp del]

definition oct_digits6 :: "nat \<Rightarrow> bytes" where
  "oct_digits6 n = replicate (6 - length (oct_digits n)) 48 @ oct_digits n"

text \<open>A string written by \<open>sprintf\<close> or \<open>strcpy\<close> to a zeroed array of \<open>k\<close> bytes.\<close>

definition put_str :: "nat \<Rightarrow> bytes \<Rightarrow> bytes option" where
  "put_str k s = (if length s < k then Some (c_array k s) else None)"

section \<open>Header codec\<close>

definition round_up :: "u32 \<Rightarrow> u32 \<Rightarrow> u32" where
  "round_up n incr = n + (incr - n mod incr) mod incr"

definition checksum :: "mtar_raw_header_t \<Rightarrow> u32" where
  "checksum rh =
     foldl (\<lambda>res b. res + ucast b)
       (foldl (\<lambda>res b. res + ucast b) 256
         (rh_name rh @ rh_mode rh @ rh_owner rh @ rh_group rh @ rh_size rh @ rh_mtime rh))
       (rh_type rh # rh_linkname rh @ rh_padding rh)"

definition keep :: "'a option \<Rightarrow> 'a option \<Rightarrow> 'a option" where
  "keep old new = (case new of None \<Rightarrow> old | Some v \<Rightarrow> Some v)"

definition get_str :: "bytes \<Rightarrow> bytes option" where
  "get_str a = (if 0 \<in> set a then Some (c_str a) else None)"

definition raw_to_header ::
  "mtar_header_t \<Rightarrow> mtar_raw_header_t \<Rightarrow> (mtar_err \<times> mtar_header_t) option" where
  "raw_to_header h rh =
     (let raw = raw_bytes rh in
      do { b \<leftarrow> load (rh_checksum rh) 0;
           if b = 0 then Some (MTAR_ENULLRECORD, h)
           else do {
             s \<leftarrow> sscanf_o (drop 148 raw);
             chksum2 \<leftarrow> s;
             if checksum rh \<noteq> chksum2 then Some (MTAR_EBADCHKSUM, h)
             else do {
               md \<leftarrow> sscanf_o (drop 100 raw);
               ow \<leftarrow> sscanf_o (drop 108 raw);
               sz \<leftarrow> sscanf_o (drop 124 raw);
               mt \<leftarrow> sscanf_o (drop 136 raw);
               nm \<leftarrow> get_str (rh_name rh);
               ln \<leftarrow> get_str (rh_linkname rh);
               Some (MTAR_ESUCCESS,
                 \<lparr>h_mode = keep (h_mode h) md, h_owner = keep (h_owner h) ow,
                  h_size = keep (h_size h) sz, h_mtime = keep (h_mtime h) mt,
                  h_type = ucast (rh_type rh), h_name = nm, h_linkname = ln\<rparr>) } } })"

definition header_to_raw :: "mtar_header_t \<Rightarrow> mtar_raw_header_t option" where
  "header_to_raw h =
     do { md0 \<leftarrow> h_mode h; md \<leftarrow> put_str 8 (oct_digits (unat md0));
          ow0 \<leftarrow> h_owner h; ow \<leftarrow> put_str 8 (oct_digits (unat ow0));
          sz0 \<leftarrow> h_size h; sz \<leftarrow> put_str 12 (oct_digits (unat sz0));
          mt0 \<leftarrow> h_mtime h; mt \<leftarrow> put_str 12 (oct_digits (unat mt0));
          nm \<leftarrow> put_str 100 (h_name h);
          ln \<leftarrow> put_str 100 (h_linkname h);
          let rh = \<lparr>rh_name = nm, rh_mode = md, rh_owner = ow, rh_group = replicate 8 0,
                    rh_size = sz, rh_mtime = mt, rh_checksum = replicate 8 0,
                    rh_type = ucast (if h_type h \<noteq> 0 then h_type h else MTAR_TREG),
                    rh_linkname = ln, rh_padding = replicate 255 0\<rparr>;
          cs \<leftarrow> put_str 8 (oct_digits6 (unat (checksum rh)));
          Some (rh\<lparr>rh_checksum := cs[7 := 32]\<rparr>) }"

section \<open>Stream access\<close>

definition file_write :: "vfs \<Rightarrow> mtar_t \<Rightarrow> bytes \<Rightarrow> mtar_err \<times> vfs" where
  "file_write fs tar data =
     (case fwrite fs (stream tar) data of (res, fs1) \<Rightarrow>
        (if res = length data then MTAR_ESUCCESS else MTAR_EWRITEFAIL, fs1))"

definition file_read :: "vfs \<Rightarrow> mtar_t \<Rightarrow> nat \<Rightarrow> mtar_err \<times> bytes \<times> vfs" where
  "file_read fs tar size0 =
     (case fread fs (stream tar) size0 of (res, data, fs1) \<Rightarrow>
        (if res = size0 then MTAR_ESUCCESS else MTAR_EREADFAIL, data, fs1))"

definition file_seek :: "vfs \<Rightarrow> mtar_t \<Rightarrow> u32 \<Rightarrow> mtar_err \<times> vfs" where
  "file_seek fs tar offset =
     (case vseek fs (stream tar) (sint offset) of (res, fs1) \<Rightarrow>
        (if res = 0 then MTAR_ESUCCESS else MTAR_ESEEKFAIL, fs1))"

definition file_close :: "vfs \<Rightarrow> mtar_t \<Rightarrow> mtar_err \<times> vfs" where
  "file_close fs tar = (MTAR_ESUCCESS, vclose fs (stream tar))"

definition tread :: "vfs \<Rightarrow> mtar_t \<Rightarrow> nat \<Rightarrow> mtar_err \<times> bytes \<times> mtar_t \<times> vfs" where
  "tread fs tar size0 =
     (case file_read fs tar size0 of (err, data, fs1) \<Rightarrow>
        (err, data, tar\<lparr>pos := pos tar + of_nat size0\<rparr>, fs1))"

definition twrite :: "vfs \<Rightarrow> mtar_t \<Rightarrow> bytes \<Rightarrow> mtar_err \<times> mtar_t \<times> vfs" where
  "twrite fs tar data =
     (case file_write fs tar data of (err, fs1) \<Rightarrow>
        (err, tar\<lparr>pos := pos tar + of_nat (length data)\<rparr>, fs1))"

fun write_null_bytes :: "vfs \<Rightarrow> mtar_t \<Rightarrow> nat \<Rightarrow> mtar_err \<times> mtar_t \<times> vfs" where
  "write_null_bytes fs tar 0 = (MTAR_ESUCCESS, tar, fs)"
| "write_null_bytes fs tar (Suc n) =
     (case twrite fs tar [0] of (err, tar1, fs1) \<Rightarrow>
        if err \<noteq> MTAR_ESUCCESS then (err, tar1, fs1) else write_null_bytes fs1 tar1 n)"

definition mtar_close :: "vfs \<Rightarrow> mtar_t \<Rightarrow> mtar_err \<times> vfs" where
  "mtar_close fs tar = file_close fs tar"

definition mtar_seek :: "vfs \<Rightarrow> mtar_t \<Rightarrow> u32 \<Rightarrow> mtar_err \<times> mtar_t \<times> vfs" where
  "mtar_seek fs tar p =
     (case file_seek fs tar p of (err, fs1) \<Rightarrow> (err, tar\<lparr>pos := p\<rparr>, fs1))"

definition mtar_rewind :: "vfs \<Rightarrow> mtar_t \<Rightarrow> mtar_err \<times> mtar_t \<times> vfs" where
  "mtar_rewind fs tar = mtar_seek fs (tar\<lparr>remaining_data := 0, last_header := 0\<rparr>) 0"

section \<open>Reading\<close>

definition mtar_read_header ::
  "vfs \<Rightarrow> mtar_t \<Rightarrow> mtar_header_t \<Rightarrow> (mtar_err \<times> mtar_header_t \<times> mtar_t \<times> vfs) option" where
  "mtar_read_header fs tar h =
     (case tread fs (tar\<lparr>last_header := pos tar\<rparr>) raw_size of (err, rh, tar1, fs1) \<Rightarrow>
        if err \<noteq> MTAR_ESUCCESS then Some (err, h, tar1, fs1)
        else case mtar_seek fs1 tar1 (last_header tar1) of (err, tar2, fs2) \<Rightarrow>
          if err \<noteq> MTAR_ESUCCESS then Some (err, h, tar2, fs2)
          else do { (err, h1) \<leftarrow> raw_to_header h (raw_of_bytes rh); Some (err, h1, tar2, fs2) })"

definition mtar_open :: "vfs \<Rightarrow> bytes \<Rightarrow> bytes \<Rightarrow> (mtar_err \<times> mtar_t \<times> vfs) option" where
  "mtar_open fs filename mode0 =
     (let mode1 = (if 114 \<in> set mode0 then bs ''rb'' else mode0);
          mode2 = (if 119 \<in> set mode1 then bs ''wb'' else mode1);
          mode = (if 97 \<in> set mode2 then bs ''ab'' else mode2) in
      case fopen fs filename mode of (f, fs1) \<Rightarrow>
        let tar = \<lparr>stream = f, pos = 0, remaining_data = 0, last_header = 0\<rparr> in
        if f < 0 then Some (MTAR_EOPENFAIL, tar, fs1)
        else if mode \<noteq> [] \<and> hd mode = 114
        then do { (err, h, tar1, fs2) \<leftarrow> mtar_read_header fs1 tar mtar_header_uninit;
                  if err \<noteq> MTAR_ESUCCESS
                  then case mtar_close fs2 tar1 of (_, fs3) \<Rightarrow> Some (err, tar1, fs3)
                  else Some (MTAR_ESUCCESS, tar1, fs2) }
        else Some (MTAR_ESUCCESS, tar, fs1))"

definition mtar_next :: "vfs \<Rightarrow> mtar_t \<Rightarrow> (mtar_err \<times> mtar_t \<times> vfs) option" where
  "mtar_next fs tar =
     do { (err, h, tar1, fs1) \<leftarrow> mtar_read_header fs tar mtar_header_uninit;
          if err \<noteq> MTAR_ESUCCESS then Some (err, tar1, fs1)
          else do { sz \<leftarrow> h_size h;
                    let n = round_up sz 512 + of_nat raw_size;
                    Some (mtar_seek fs1 tar1 (pos tar1 + n)) } }"

text \<open>
  The loop of \<open>mtar_find\<close>: the result is the error code, the header found if any, and the
  archive.
\<close>

definition mtar_find_body ::
  "bytes \<Rightarrow> vfs \<times> mtar_t \<times> mtar_header_t \<Rightarrow>
   ((mtar_err \<times> mtar_header_t option \<times> mtar_t \<times> vfs) + (vfs \<times> mtar_t \<times> mtar_header_t)) option" where
  "mtar_find_body name = (\<lambda>(fs, tar, header).
     do { (err, header1, tar1, fs1) \<leftarrow> mtar_read_header fs tar header;
          if err = MTAR_ESUCCESS
          then if h_name header1 = name
               then Some (Inl (MTAR_ESUCCESS, Some header1, tar1, fs1))
               else do { (_, tar2, fs2) \<leftarrow> mtar_next fs1 tar1; Some (Inr (fs2, tar2, header1)) }
          else Some (Inl (if err = MTAR_ENULLRECORD then MTAR_ENOTFOUND else err, None, tar1, fs1)) })"

definition mtar_find ::
  "nat \<Rightarrow> vfs \<Rightarrow> mtar_t \<Rightarrow> bytes \<Rightarrow>
   ((mtar_err \<times> mtar_header_t option \<times> mtar_t \<times> vfs) + (vfs \<times> mtar_t \<times> mtar_header_t)) option" where
  "mtar_find fuel fs tar name =
     (case mtar_rewind fs tar of (err, tar1, fs1) \<Rightarrow>
        if err \<noteq> MTAR_ESUCCESS then Some (Inl (err, None, tar1, fs1))
        else run_loop fuel (mtar_find_body name) (fs1, tar1, mtar_header_uninit))"

definition mtar_read_data ::
  "vfs \<Rightarrow> mtar_t \<Rightarrow> nat \<Rightarrow> (mtar_err \<times> bytes \<times> mtar_t \<times> vfs) option" where
  "mtar_read_data fs tar size0 =
     do { (err, tar1, fs1) \<leftarrow>
            (if remaining_data tar = 0
             then do { (err, h, tar1, fs1) \<leftarrow> mtar_read_header fs tar mtar_header_uninit;
                       if err \<noteq> MTAR_ESUCCESS then Some (err, tar1, fs1)
                       else case mtar_seek fs1 tar1 (pos tar1 + of_nat raw_size) of (err, tar2, fs2) \<Rightarrow>
                         if err \<noteq> MTAR_ESUCCESS then Some (err, tar2, fs2)
                         else do { sz \<leftarrow> h_size h;
                                   Some (MTAR_ESUCCESS, tar2\<lparr>remaining_data := sz\<rparr>, fs2) } }
             else Some (MTAR_ESUCCESS, tar, fs));
          if err \<noteq> MTAR_ESUCCESS then Some (err, [], tar1, fs1)
          else case tread fs1 tar1 size0 of (err, data, tar2, fs2) \<Rightarrow>
            if err \<noteq> MTAR_ESUCCESS then Some (err, data, tar2, fs2)
            else let tar3 = tar2\<lparr>remaining_data := remaining_data tar2 - of_nat size0\<rparr> in
                 if remaining_data tar3 = 0
                 then case mtar_seek fs2 tar3 (last_header tar3) of (err, tar4, fs3) \<Rightarrow>
                        Some (err, data, tar4, fs3)
                 else Some (MTAR_ESUCCESS, data, tar3, fs2) }"

function skip_loop :: "vfs \<Rightarrow> mtar_t \<Rightarrow> nat \<Rightarrow> (mtar_err \<times> mtar_t \<times> vfs) option" where
  "skip_loop fs tar remaining =
     (if remaining = 0 then Some (MTAR_ESUCCESS, tar, fs)
      else let to_read = (if remaining > 512 then 512 else remaining) in
           case mtar_read_data fs tar to_read of
             None \<Rightarrow> None
           | Some (r, _, tar1, fs1) \<Rightarrow>
               if r \<noteq> MTAR_ESUCCESS then Some (r, tar1, fs1)
               else skip_loop fs1 tar1 (remaining - to_read))"
  by pat_completeness auto
termination by (relation "measure (\<lambda>(_, _, r). r)") auto

definition mtar_skip_data ::
  "vfs \<Rightarrow> mtar_t \<Rightarrow> mtar_header_t \<Rightarrow> (mtar_err \<times> mtar_t \<times> vfs) option" where
  "mtar_skip_data fs tar h = do { sz \<leftarrow> h_size h; skip_loop fs tar (unat sz) }"

section \<open>Writing\<close>

definition mtar_write_header ::
  "vfs \<Rightarrow> mtar_t \<Rightarrow> mtar_header_t \<Rightarrow> (mtar_err \<times> mtar_t \<times> vfs) option" where
  "mtar_write_header fs tar h =
     do { rh \<leftarrow> header_to_raw h;
          sz \<leftarrow> h_size h;
          Some (twrite fs (tar\<lparr>remaining_data := sz\<rparr>) (raw_bytes rh)) }"

definition mtar_write_file_header ::
  "vfs \<Rightarrow> mtar_t \<Rightarrow> bytes \<Rightarrow> u32 \<Rightarrow> (mtar_err \<times> mtar_t \<times> vfs) option" where
  "mtar_write_file_header fs tar name size0 =
     (if length name < 100
      then mtar_write_header fs tar
             \<lparr>h_mode = Some 436, h_owner = Some 0, h_size = Some size0, h_mtime = Some 0,
              h_type = MTAR_TREG, h_name = name, h_linkname = []\<rparr>
      else None)"

definition mtar_write_dir_header ::
  "vfs \<Rightarrow> mtar_t \<Rightarrow> bytes \<Rightarrow> (mtar_err \<times> mtar_t \<times> vfs) option" where
  "mtar_write_dir_header fs tar name =
     (if length name < 100
      then mtar_write_header fs tar
             \<lparr>h_mode = Some 509, h_owner = Some 0, h_size = Some 0, h_mtime = Some 0,
              h_type = MTAR_TDIR, h_name = name, h_linkname = []\<rparr>
      else None)"

definition mtar_write_data :: "vfs \<Rightarrow> mtar_t \<Rightarrow> bytes \<Rightarrow> mtar_err \<times> mtar_t \<times> vfs" where
  "mtar_write_data fs tar data =
     (case twrite fs tar data of (err, tar1, fs1) \<Rightarrow>
        if err \<noteq> MTAR_ESUCCESS then (err, tar1, fs1)
        else let tar2 = tar1\<lparr>remaining_data := remaining_data tar1 - of_nat (length data)\<rparr> in
             if remaining_data tar2 = 0
             then write_null_bytes fs1 tar2 (nat (sint (round_up (pos tar2) 512 - pos tar2)))
             else (MTAR_ESUCCESS, tar2, fs1))"

definition mtar_finalize :: "vfs \<Rightarrow> mtar_t \<Rightarrow> mtar_err \<times> mtar_t \<times> vfs" where
  "mtar_finalize fs tar = write_null_bytes fs tar (raw_size * 2)"

section \<open>Octal numbers\<close>

lemma oct_val_snoc: "oct_val (ds @ [b]) = oct_val ds * 8 + unat (b - 48)"
  by (simp add: oct_val_def)

lemma oct_digit_props:
  assumes "n < 8"
  shows "is_oct (48 + of_nat n)" "unat ((48 + of_nat n :: u8) - 48) = n" "unat (of_nat n :: u8) = n"
proof -
  from assms have "n \<in> {0, 1, 2, 3, 4, 5, 6, 7}" by auto
  then show "is_oct (48 + of_nat n)" "unat ((48 + of_nat n :: u8) - 48) = n" "unat (of_nat n :: u8) = n"
    by (auto simp: is_oct_def)
qed

lemma oct_digits_oct: "b \<in> set (oct_digits n) \<Longrightarrow> is_oct b"
proof (induction n rule: oct_digits.induct)
  case (1 n)
  then show ?case
    by (subst (asm) (2) oct_digits.simps) (auto split: if_splits intro: oct_digit_props)
qed

lemma oct_digits_val: "oct_val (oct_digits n) = n"
proof (induction n rule: oct_digits.induct)
  case (1 n)
  show ?case
  proof (cases "n < 8")
    case True
    then show ?thesis by (subst oct_digits.simps) (simp add: oct_val_def oct_digit_props)
  next
    case False
    then show ?thesis
      using 1 by (subst oct_digits.simps) (simp add: oct_val_snoc oct_digit_props)
  qed
qed

lemma oct_digits_ne: "oct_digits n \<noteq> []"
  by (subst oct_digits.simps) simp

lemma oct_digits_length: "n < 8 ^ k \<Longrightarrow> 0 < k \<Longrightarrow> length (oct_digits n) \<le> k"
proof (induction n arbitrary: k rule: oct_digits.induct)
  case (1 n)
  show ?case
  proof (cases "n < 8")
    case True
    then show ?thesis using 1(3) by (subst oct_digits.simps) simp
  next
    case False
    with 1(2,3) obtain j where j: "k = Suc j" "0 < j" by (cases k; cases "k - 1") auto
    then have "n div 8 < 8 ^ j" using 1(2) by (simp add: less_mult_imp_div_less mult.commute)
    then show ?thesis using 1(1)[OF False, of j] j False by (subst oct_digits.simps) simp
  qed
qed

lemma oct_val_zeros: "oct_val (replicate k 48 @ ds) = oct_val ds"
proof (induction k)
  case (Suc k)
  have "oct_val (48 # xs) = oct_val xs" for xs by (simp add: oct_val_def)
  with Suc show ?case by simp
qed simp

lemma oct_not_special: "is_oct b \<Longrightarrow> b \<noteq> 0 \<and> \<not> isspace b \<and> b \<noteq> 45 \<and> b \<noteq> 43"
  by (auto simp: is_oct_def isspace_def)

lemma sscanf_o_digits:
  assumes o: "\<And>b. b \<in> set ds \<Longrightarrow> is_oct b" and ne: "ds \<noteq> []" and v: "oct_val ds < 2 ^ 32"
  shows "sscanf_o (ds @ 0 # rest) = Some (Some (of_nat (oct_val ds)))"
proof -
  from ne obtain b r where ds: "ds = b # r" by (cases ds) auto
  note b = oct_not_special[OF o[of b]]
  have "0 \<notin> set ds" using o oct_not_special by blast
  then have c: "c_str (ds @ 0 # rest) = ds" by (rule c_str_append_zero)
  have t: "takeWhile is_oct ds = ds" using o by (simp add: takeWhile_eq_all_conv)
  have d: "dropWhile isspace ds = ds" using b by (simp add: ds)
  show ?thesis
    using ne v b by (simp add: sscanf_o_def c d t Let_def) (simp add: ds)
qed

lemma sscanf_o_field:
  assumes "n < 2 ^ 32" "length (oct_digits n) < k"
  shows "sscanf_o (c_array k (oct_digits n) @ rest) = Some (Some (of_nat n))"
proof -
  from assms(2) obtain j where "k - length (oct_digits n) = Suc j"
    by (cases "k - length (oct_digits n)") auto
  then have "c_array k (oct_digits n) @ rest = oct_digits n @ 0 # (replicate j 0 @ rest)"
    by (simp add: c_array_def)
  then show ?thesis
    using sscanf_o_digits[of "oct_digits n"] assms(1)
    by (simp add: oct_digits_oct oct_digits_ne oct_digits_val)
qed

section \<open>Header round trip\<close>

text \<open>Headers whose fields fit: what \<open>header_to_raw\<close> can encode and a reader gets back.\<close>

definition hdr_ok :: "mtar_header_t \<Rightarrow> bool" where
  "hdr_ok h \<longleftrightarrow>
     (case (h_mode h, h_owner h, h_size h, h_mtime h) of
        (Some m, Some w, Some s, Some t) \<Rightarrow> m < 8 ^ 7 \<and> w < 8 ^ 7
      | _ \<Rightarrow> False) \<and>
     0 < h_type h \<and> h_type h < 256 \<and>
     length (h_name h) < 100 \<and> 0 \<notin> set (h_name h) \<and>
     length (h_linkname h) < 100 \<and> 0 \<notin> set (h_linkname h)"

lemma checksum_fold: "foldl (\<lambda>res b. res + ucast b) (a :: u32) (xs :: bytes) = a + (\<Sum>b\<leftarrow>xs. ucast b)"
  by (induction xs arbitrary: a) (simp_all add: add.assoc)

lemma sum_ucast_bound: "(\<Sum>b\<leftarrow>(xs :: bytes). unat b) \<le> 255 * length xs"
proof (induction xs)
  case (Cons b xs)
  have "unat b < 256" using unsigned_less[of b] by simp
  with Cons show ?case by simp
qed simp

lemma sum_ucast_nat: "(\<Sum>b\<leftarrow>(xs :: bytes). ucast b) = (of_nat (\<Sum>b\<leftarrow>xs. unat b) :: u32)"
  by (induction xs) simp_all

definition raw_wf :: "mtar_raw_header_t \<Rightarrow> bool" where
  "raw_wf rh \<longleftrightarrow>
     length (rh_name rh) = 100 \<and> length (rh_mode rh) = 8 \<and> length (rh_owner rh) = 8 \<and>
     length (rh_group rh) = 8 \<and> length (rh_size rh) = 12 \<and> length (rh_mtime rh) = 12 \<and>
     length (rh_checksum rh) = 8 \<and> length (rh_linkname rh) = 100 \<and> length (rh_padding rh) = 255"

lemma checksum_bound:
  assumes "raw_wf rh"
  shows "unat (checksum rh) < 8 ^ 6"
proof -
  define xs where "xs = rh_name rh @ rh_mode rh @ rh_owner rh @ rh_group rh @ rh_size rh @ rh_mtime rh @
     rh_type rh # rh_linkname rh @ rh_padding rh"
  have l: "length xs = 504" using assms by (simp add: xs_def raw_wf_def)
  have "checksum rh = 256 + (\<Sum>b\<leftarrow>xs. ucast b)"
    by (simp add: checksum_def checksum_fold xs_def add.assoc)
  then have "checksum rh = of_nat (256 + (\<Sum>b\<leftarrow>xs. unat b))"
    by (simp add: sum_ucast_nat)
  moreover have "256 + (\<Sum>b\<leftarrow>xs. unat b) \<le> 128776" using sum_ucast_bound[of xs] l by simp
  ultimately show ?thesis
    by (simp only: unat_of_nat) (simp add: take_bit_nat_eq_self)
qed

lemma checksum_update: "checksum (rh\<lparr>rh_checksum := c\<rparr>) = checksum rh"
  by (simp add: checksum_def)

lemma raw_bytes_length: "raw_wf rh \<Longrightarrow> length (raw_bytes rh) = raw_size"
  by (simp add: raw_wf_def raw_bytes_def raw_size_def)

lemma raw_of_raw_bytes:
  assumes "raw_wf rh"
  shows "raw_of_bytes (raw_bytes rh @ rest) = rh"
  using assms
  by (cases rh) (simp add: raw_of_bytes_def raw_bytes_def raw_wf_def field_def nth_append)

lemma raw_drops:
  assumes "raw_wf rh"
  shows "drop 100 (raw_bytes rh) = rh_mode rh @ drop 108 (raw_bytes rh)"
    "drop 108 (raw_bytes rh) = rh_owner rh @ drop 116 (raw_bytes rh)"
    "drop 124 (raw_bytes rh) = rh_size rh @ drop 136 (raw_bytes rh)"
    "drop 136 (raw_bytes rh) = rh_mtime rh @ drop 148 (raw_bytes rh)"
    "drop 148 (raw_bytes rh) = rh_checksum rh @ drop 156 (raw_bytes rh)"
  using assms by (simp_all add: raw_bytes_def raw_wf_def)

lemma oct_digits6_props:
  assumes "n < 8 ^ 6"
  shows "length (oct_digits6 n) = 6" "oct_val (oct_digits6 n) = n" "oct_digits6 n \<noteq> []"
    "b \<in> set (oct_digits6 n) \<Longrightarrow> is_oct b"
proof -
  have "length (oct_digits n) \<le> 6" using assms by (intro oct_digits_length) auto
  then show "length (oct_digits6 n) = 6" by (simp add: oct_digits6_def)
  show "oct_val (oct_digits6 n) = n" by (simp add: oct_digits6_def oct_val_zeros oct_digits_val)
  show "oct_digits6 n \<noteq> []" by (simp add: oct_digits6_def oct_digits_ne)
  show "b \<in> set (oct_digits6 n) \<Longrightarrow> is_oct b"
    by (auto simp: oct_digits6_def oct_digits_oct) (simp add: is_oct_def)
qed

lemma get_str_c_array: "0 \<notin> set s \<Longrightarrow> length s < k \<Longrightarrow> get_str (c_array k s) = Some s"
  by (simp add: get_str_def c_str_c_array) (simp add: c_array_def)

lemma checksum_field:
  assumes "v < 8 ^ 6"
  shows "(c_array 8 (oct_digits6 v))[7 := 32] = oct_digits6 v @ [0, 32]"
  using oct_digits6_props(1)[OF assms] by (simp add: c_array_def list_update_append numeral_2_eq_2)

text \<open>The raw header before its checksum is filled in.\<close>

definition raw0 :: "mtar_header_t \<Rightarrow> u32 \<Rightarrow> u32 \<Rightarrow> u32 \<Rightarrow> u32 \<Rightarrow> mtar_raw_header_t" where
  "raw0 h m w s t =
     \<lparr>rh_name = c_array 100 (h_name h), rh_mode = c_array 8 (oct_digits (unat m)),
      rh_owner = c_array 8 (oct_digits (unat w)), rh_group = replicate 8 0,
      rh_size = c_array 12 (oct_digits (unat s)), rh_mtime = c_array 12 (oct_digits (unat t)),
      rh_checksum = replicate 8 0, rh_type = ucast (h_type h),
      rh_linkname = c_array 100 (h_linkname h), rh_padding = replicate 255 0\<rparr>"

lemma hdr_okE:
  assumes "hdr_ok h"
  obtains m w s t where "h_mode h = Some m" "h_owner h = Some w" "h_size h = Some s" "h_mtime h = Some t"
    "length (oct_digits (unat m)) < 8" "length (oct_digits (unat w)) < 8"
    "length (oct_digits (unat s)) < 12" "length (oct_digits (unat t)) < 12"
    "h_type h \<noteq> 0" "ucast (ucast (h_type h) :: u8) = h_type h"
    "length (h_name h) < 100" "0 \<notin> set (h_name h)"
    "length (h_linkname h) < 100" "0 \<notin> set (h_linkname h)"
proof -
  from assms obtain m w s t where f: "h_mode h = Some m" "h_owner h = Some w" "h_size h = Some s"
    "h_mtime h = Some t" and mw: "m < 8 ^ 7" "w < 8 ^ 7"
    by (auto simp: hdr_ok_def split: option.splits)
  have small: "length (oct_digits (unat x)) < 8" if "x < 8 ^ 7" for x :: u32
    using that oct_digits_length[of "unat x" 7] by (simp add: word_less_nat_alt)
  have big: "length (oct_digits (unat x)) < 12" for x :: u32
    using oct_digits_length[of "unat x" 11] unat_u32[of x] by simp
  have ty: "h_type h \<noteq> 0" "h_type h < 256" using assms by (auto simp: hdr_ok_def)
  then have "ucast (ucast (h_type h) :: u8) = h_type h"
    by (simp add: ucast_u32_u8)
  then show thesis
    using that[of m w s t] f mw small big ty assms by (auto simp: hdr_ok_def)
qed

lemma raw0_wf:
  assumes "hdr_ok h" "h_mode h = Some m" "h_owner h = Some w" "h_size h = Some s" "h_mtime h = Some t"
  shows "raw_wf (raw0 h m w s t)"
  using assms by (auto elim!: hdr_okE simp: raw_wf_def raw0_def length_c_array)

lemma header_to_raw_eq:
  assumes "hdr_ok h" "h_mode h = Some m" "h_owner h = Some w" "h_size h = Some s" "h_mtime h = Some t"
  defines "rh \<equiv> raw0 h m w s t"
  shows "header_to_raw h = Some (rh\<lparr>rh_checksum := oct_digits6 (unat (checksum rh)) @ [0, 32]\<rparr>)"
proof -
  have b: "unat (checksum rh) < 8 ^ 6"
    unfolding rh_def by (intro checksum_bound raw0_wf assms)
  have rh: "\<lparr>rh_name = c_array 100 (h_name h), rh_mode = c_array 8 (oct_digits (unat m)),
      rh_owner = c_array 8 (oct_digits (unat w)), rh_group = replicate 8 0,
      rh_size = c_array 12 (oct_digits (unat s)), rh_mtime = c_array 12 (oct_digits (unat t)),
      rh_checksum = replicate 8 0, rh_type = ucast (h_type h),
      rh_linkname = c_array 100 (h_linkname h), rh_padding = replicate 255 0\<rparr> = rh"
    by (simp add: rh_def raw0_def)
  show ?thesis
    using assms(1-5) oct_digits6_props(1)[OF b] checksum_field[OF b]
    by (auto elim!: hdr_okE simp: header_to_raw_def put_str_def rh Let_def) (simp add: rh_def raw0_def)
qed

lemma header_roundtrip:
  assumes ok: "hdr_ok h"
  shows "\<exists>rh. header_to_raw h = Some rh \<and> raw_wf rh \<and> raw_to_header h0 rh = Some (MTAR_ESUCCESS, h)"
proof -
  from ok obtain m w s t where f: "h_mode h = Some m" "h_owner h = Some w" "h_size h = Some s" "h_mtime h = Some t"
    and l: "length (oct_digits (unat m)) < 8" "length (oct_digits (unat w)) < 8"
    "length (oct_digits (unat s)) < 12" "length (oct_digits (unat t)) < 12"
    and ty: "h_type h \<noteq> 0" "ucast (ucast (h_type h) :: u8) = h_type h"
    and nm: "length (h_name h) < 100" "0 \<notin> set (h_name h)" "length (h_linkname h) < 100" "0 \<notin> set (h_linkname h)"
    by (rule hdr_okE) blast
  define r0 where "r0 = raw0 h m w s t"
  define v where "v = unat (checksum r0)"
  define rh where "rh = r0\<lparr>rh_checksum := oct_digits6 v @ [0, 32]\<rparr>"
  have v: "v < 8 ^ 6" unfolding v_def r0_def by (intro checksum_bound raw0_wf ok f)
  note o6 = oct_digits6_props[OF v]
  have wf: "raw_wf rh" using raw0_wf[OF ok f] o6(1) by (simp add: rh_def r0_def raw_wf_def)
  note dr = raw_drops[OF wf]
  have u: "unat (x :: u32) < 2 ^ 32" for x by (rule unat_u32)
  have "sscanf_o (oct_digits6 v @ 0 # 32 # drop 156 (raw_bytes rh)) = Some (Some (of_nat v))"
    using sscanf_o_digits[of "oct_digits6 v"] o6 v by simp
  then have cs: "sscanf_o (drop 148 (raw_bytes rh)) = Some (Some (checksum rh))"
    by (subst dr(5)) (simp add: rh_def checksum_update v_def)
  have fs: "sscanf_o (drop 100 (raw_bytes rh)) = Some (Some m)" "sscanf_o (drop 108 (raw_bytes rh)) = Some (Some w)"
    "sscanf_o (drop 124 (raw_bytes rh)) = Some (Some s)" "sscanf_o (drop 136 (raw_bytes rh)) = Some (Some t)"
    by (subst dr; simp add: rh_def r0_def raw0_def sscanf_o_field[OF u] l)+
  obtain b r where br: "oct_digits6 v = b # r" using o6(3) by (cases "oct_digits6 v") auto
  then have "load (rh_checksum rh) 0 = Some b" "b \<noteq> 0"
    using oct_not_special[OF o6(4)[of b]] by (simp_all add: rh_def load_def)
  then have "raw_to_header h0 rh = Some (MTAR_ESUCCESS, h)"
    using f ty nm by (simp add: raw_to_header_def Let_def cs fs keep_def) (simp add: rh_def r0_def raw0_def get_str_c_array)
  moreover have "header_to_raw h = Some rh"
    using header_to_raw_eq[OF ok f] by (simp add: rh_def r0_def v_def)
  ultimately show ?thesis using wf by blast
qed

section \<open>Reading an archive\<close>

text \<open>A raw header of zero bytes marks the end of the archive.\<close>

lemma null_header: "raw_to_header h0 (raw_of_bytes (replicate 512 0)) = Some (MTAR_ENULLRECORD, h0)"
  by (simp add: raw_to_header_def raw_of_bytes_def field_def load_def Let_def)

lemma mtar_seek_eq:
  assumes "fds fs (stream tar) = Some f" and "k < 2 ^ 31"
  shows "mtar_seek fs tar (of_nat k) = (MTAR_ESUCCESS, tar\<lparr>pos := of_nat k\<rparr>,
    fs\<lparr>fds := (fds fs)(stream tar \<mapsto> f\<lparr>of_pos := k\<rparr>)\<rparr>)"
  using assms by (simp add: mtar_seek_def file_seek_def vseek_def sint_of_nat_u32)

lemma tread_eq:
  assumes "fds fs (stream tar) = Some f" and "files fs (of_path f) = Some c" and "of_pos f + n \<le> length c"
  shows "tread fs tar n = (MTAR_ESUCCESS, take n (drop (of_pos f) c), tar\<lparr>pos := pos tar + of_nat n\<rparr>,
    fs\<lparr>fds := (fds fs)(stream tar \<mapsto> f\<lparr>of_pos := of_pos f + n\<rparr>)\<rparr>)"
proof -
  have "min n (length c - of_pos f) = n" using assms(3) by simp
  then show ?thesis
    using assms by (simp add: tread_def file_read_def fread_def vread_eq)
qed

lemma read_header_at:
  assumes f: "fds fs (stream tar) = Some f" and c: "files fs (of_path f) = Some c"
    and k: "of_pos f < 2 ^ 31" "pos tar = of_nat (of_pos f)" "of_pos f + raw_size \<le> length c"
    and r: "raw_to_header h0 (raw_of_bytes (take raw_size (drop (of_pos f) c))) = Some (e, h)"
  shows "mtar_read_header fs tar h0 = Some (e, h, tar\<lparr>last_header := pos tar\<rparr>, fs)"
proof -
  have t: "tread fs (tar\<lparr>last_header := pos tar\<rparr>) raw_size = (MTAR_ESUCCESS, take raw_size (drop (of_pos f) c),
      tar\<lparr>last_header := pos tar, pos := pos tar + of_nat raw_size\<rparr>,
      fs\<lparr>fds := (fds fs)(stream tar \<mapsto> f\<lparr>of_pos := of_pos f + raw_size\<rparr>)\<rparr>)"
    using tread_eq[of fs "tar\<lparr>last_header := pos tar\<rparr>" f c raw_size] f c k(3) by simp
  have fs: "fs\<lparr>fds := (fds fs)(stream tar \<mapsto> f)\<rparr> = fs"
    using f by (simp add: fun_upd_idem)
  show ?thesis
    unfolding mtar_read_header_def t
    using r k fs by (simp add: mtar_seek_eq)
qed

text \<open>
  The archive handle and the file system while \<open>m\<close> of the \<open>s\<close> data bytes of the entry at offset
  \<open>k\<close> have been read: in between the descriptor stands in the data, before and after at the header.
\<close>

definition mid_pos :: "nat \<Rightarrow> nat \<Rightarrow> nat \<Rightarrow> nat" where
  "mid_pos k s m = (if 0 < m \<and> m < s then k + raw_size + m else k)"

definition tar_mid :: "mtar_t \<Rightarrow> nat \<Rightarrow> nat \<Rightarrow> nat \<Rightarrow> mtar_t" where
  "tar_mid tar k s m = tar\<lparr>pos := of_nat (mid_pos k s m),
     remaining_data := of_nat (if 0 < m \<and> m < s then s - m else 0), last_header := of_nat k\<rparr>"

definition fs_mid :: "vfs \<Rightarrow> int \<Rightarrow> bytes \<Rightarrow> nat \<Rightarrow> nat \<Rightarrow> nat \<Rightarrow> vfs" where
  "fs_mid fs d p k s m = fs\<lparr>fds := (fds fs)(d \<mapsto> \<lparr>of_path = p, of_pos = mid_pos k s m\<rparr>)\<rparr>"

text \<open>An entry with \<open>s\<close> bytes of data starts at offset \<open>k\<close> of the archive \<open>c\<close>.\<close>

definition entry_at :: "bytes \<Rightarrow> nat \<Rightarrow> mtar_header_t \<Rightarrow> bytes \<Rightarrow> bool" where
  "entry_at c k h d \<longleftrightarrow>
     k + raw_size + length d \<le> length c \<and> length c < 2 ^ 31 \<and>
     (\<forall>h0. raw_to_header h0 (raw_of_bytes (take raw_size (drop k c))) = Some (MTAR_ESUCCESS, h)) \<and>
     h_size h = Some (of_nat (length d)) \<and> take (length d) (drop (k + raw_size) c) = d"

lemma entry_read_header:
  assumes "entry_at c k h d" and "fds fs (stream tar) = Some \<lparr>of_path = p, of_pos = k\<rparr>"
    and "files fs p = Some c" and "pos tar = of_nat k"
  shows "mtar_read_header fs tar h0 = Some (MTAR_ESUCCESS, h, tar\<lparr>last_header := of_nat k\<rparr>, fs)"
  using read_header_at[of fs tar "\<lparr>of_path = p, of_pos = k\<rparr>" c h0 MTAR_ESUCCESS h] assms
  by (simp add: entry_at_def)

lemma read_data_mid:
  assumes e: "entry_at c k h d" and c: "files fs p = Some c"
    and m: "m < length d" "0 < n" "m + n \<le> length d"
    and t: "stream tar = fd"
  shows "mtar_read_data (fs_mid fs fd p k (length d) m) (tar_mid tar k (length d) m) n =
    Some (MTAR_ESUCCESS, take n (drop m d), tar_mid tar k (length d) (m + n), fs_mid fs fd p k (length d) (m + n))"
proof -
  define s where "s = length d"
  define fm where "fm j = fs\<lparr>fds := (fds fs)(fd \<mapsto> \<lparr>of_path = p, of_pos = j\<rparr>)\<rparr>" for j
  define tm where "tm j r = tar\<lparr>pos := of_nat j, remaining_data := of_nat r, last_header := of_nat k\<rparr>" for j r
  from e have b: "k + raw_size + s \<le> length c" "length c < 2 ^ 31" "h_size h = Some (of_nat s)"
    "take s (drop (k + raw_size) c) = d" by (simp_all add: entry_at_def s_def)
  have d: "take n (drop (k + raw_size + m) c) = take n (drop m d)"
    using b(4) m(3) by (auto simp: s_def[symmetric] drop_take min_def add.commute)
  have ne0: "of_nat j \<noteq> (0 :: u32)" if "0 < j" "j \<le> s" for j
    using that b unat_of_nat_u32[of j] by force
  have rd: "(if remaining_data (tar_mid tar k s m) = 0
      then do { (err, h, tar1, fs1) \<leftarrow> mtar_read_header (fs_mid fs fd p k s m) (tar_mid tar k s m) mtar_header_uninit;
                if err \<noteq> MTAR_ESUCCESS then Some (err, tar1, fs1)
                else case mtar_seek fs1 tar1 (pos tar1 + of_nat raw_size) of (err, tar2, fs2) \<Rightarrow>
                  if err \<noteq> MTAR_ESUCCESS then Some (err, tar2, fs2)
                  else do { sz \<leftarrow> h_size h; Some (MTAR_ESUCCESS, tar2\<lparr>remaining_data := sz\<rparr>, fs2) } }
      else Some (MTAR_ESUCCESS, tar_mid tar k s m, fs_mid fs fd p k s m)) =
     Some (MTAR_ESUCCESS, tm (k + raw_size + m) (s - m), fm (k + raw_size + m))"
  proof (cases "m = 0")
    case True
    have "mtar_read_header (fm k) (tm k 0) mtar_header_uninit = Some (MTAR_ESUCCESS, h, tm k 0, fm k)"
      using entry_read_header[OF e, of "fm k" "tm k 0" p mtar_header_uninit] c t by (simp add: fm_def tm_def)
    moreover have "mtar_seek (fm k) (tm k 0) (of_nat (k + raw_size)) =
        (MTAR_ESUCCESS, tm (k + raw_size) 0, fm (k + raw_size))"
      using mtar_seek_eq[of "fm k" "tm k 0" "\<lparr>of_path = p, of_pos = k\<rparr>" "k + raw_size"] b t
      by (simp add: fm_def tm_def)
    ultimately show ?thesis
      using True b(3) by (simp add: tar_mid_def fs_mid_def mid_pos_def tm_def fm_def)
  next
    case False
    then show ?thesis
      using m ne0[of "s - m"] by (simp add: tar_mid_def fs_mid_def mid_pos_def tm_def fm_def s_def)
  qed
  have tr: "tread (fm (k + raw_size + m)) (tm (k + raw_size + m) (s - m)) n =
     (MTAR_ESUCCESS, take n (drop m d), tm (k + raw_size + m + n) (s - m), fm (k + raw_size + m + n))"
    using tread_eq[of "fm (k + raw_size + m)" "tm (k + raw_size + m) (s - m)" "\<lparr>of_path = p, of_pos = k + raw_size + m\<rparr>" c n]
      b m c t d by (simp add: fm_def tm_def s_def add.assoc)
  define q where "q = s - (m + n)"
  have sub: "of_nat (s - m) - of_nat n = (of_nat q :: u32)"
    using m by (simp add: s_def q_def of_nat_diff)
  have up: "tm j r\<lparr>remaining_data := of_nat q\<rparr> = tm j q" for j r
    by (simp add: tm_def)
  have q0: "of_nat q = (0 :: u32) \<longleftrightarrow> q = 0" using ne0[of q] q_def by fastforce
  have up0: "tm j r\<lparr>remaining_data := 0\<rparr> = tm j 0" for j r by (simp add: tm_def)
  have eq0: "of_nat (s - m) = (of_nat n :: u32) \<longleftrightarrow> q = 0"
    using q0 sub by (metis eq_iff_diff_eq_0)
  have sk: "mtar_seek (fm j) (tm i 0) (of_nat k) = (MTAR_ESUCCESS, tm k 0, fm k)" for i j
    using mtar_seek_eq[of "fm j" "tm i 0" "\<lparr>of_path = p, of_pos = j\<rparr>" k] b t by (simp add: fm_def tm_def)
  have res: "remaining_data (tm j r) = of_nat r" "last_header (tm j r) = of_nat k" for j r by (simp_all add: tm_def)
  have fin: "mtar_read_data (fs_mid fs fd p k s m) (tar_mid tar k s m) n =
      (if q = 0 then Some (MTAR_ESUCCESS, take n (drop m d), tm k 0, fm k)
       else Some (MTAR_ESUCCESS, take n (drop m d), tm (k + raw_size + m + n) q, fm (k + raw_size + m + n)))"
    unfolding mtar_read_data_def rd
    using sk by (simp add: tr res sub up up0 q0 eq0 Let_def del: of_nat_diff of_nat_add)
  have "q = 0 \<longleftrightarrow> m + n = s" using m(3) by (auto simp: q_def s_def)
  then show ?thesis
    unfolding s_def[symmetric] fin
    using m by (simp add: tar_mid_def fs_mid_def mid_pos_def tm_def fm_def q_def s_def add.assoc)
qed

section \<open>Archive layout\<close>

definition pad :: "nat \<Rightarrow> nat" where
  "pad s = (512 - s mod 512) mod 512"

lemma round_up_of_nat:
  assumes "s < 2 ^ 31"
  shows "round_up (of_nat s) 512 = of_nat (s + pad s)"
proof -
  have u: "unat (of_nat j :: u32) = j" if "j < 2 ^ 31" for j using that by (intro unat_of_nat_u32) simp
  have m: "(of_nat s :: u32) mod 512 = of_nat (s mod 512)"
    using assms by (simp add: word_unat_eq_iff unat_mod_distrib u)
  have d: "(512 :: u32) - of_nat (s mod 512) = of_nat (512 - s mod 512)"
    by (simp add: of_nat_diff less_imp_le)
  have "(of_nat (512 - s mod 512) :: u32) mod 512 = of_nat ((512 - s mod 512) mod 512)"
    by (simp add: word_unat_eq_iff unat_mod_distrib u del: of_nat_diff)
  then show ?thesis by (simp only: round_up_def m d pad_def of_nat_add)
qed

lemma next_at:
  assumes e: "entry_at c k h d" and f: "fds fs (stream tar) = Some \<lparr>of_path = p, of_pos = k\<rparr>"
    and c: "files fs p = Some c" and t: "pos tar = of_nat k"
    and b: "k + raw_size + length d + pad (length d) < 2 ^ 31"
  shows "mtar_next fs tar = Some (MTAR_ESUCCESS,
    tar\<lparr>last_header := of_nat k, pos := of_nat (k + raw_size + length d + pad (length d))\<rparr>,
    fs\<lparr>fds := (fds fs)(stream tar \<mapsto> \<lparr>of_path = p, of_pos = k + raw_size + length d + pad (length d)\<rparr>)\<rparr>)"
proof -
  have "h_size h = Some (of_nat (length d))" using e by (simp add: entry_at_def)
  moreover have "of_nat k + (round_up (of_nat (length d)) 512 + of_nat raw_size) =
      (of_nat (k + raw_size + length d + pad (length d)) :: u32)"
    using b by (simp add: round_up_of_nat)
  ultimately show ?thesis
    using mtar_seek_eq[of fs "tar\<lparr>last_header := of_nat k\<rparr>" "\<lparr>of_path = p, of_pos = k\<rparr>"
        "k + raw_size + length d + pad (length d)"] f b t
    unfolding mtar_next_def entry_read_header[OF e f c t] by (simp del: of_nat_add)
qed

text \<open>The bytes of an archive that holds the given files.\<close>

definition file_hdr :: "bytes \<Rightarrow> nat \<Rightarrow> mtar_header_t" where
  "file_hdr name n = \<lparr>h_mode = Some 436, h_owner = Some 0, h_size = Some (of_nat n), h_mtime = Some 0,
     h_type = MTAR_TREG, h_name = name, h_linkname = []\<rparr>"

definition entry_bytes :: "bytes \<times> bytes \<Rightarrow> bytes" where
  "entry_bytes e =
     (case header_to_raw (file_hdr (fst e) (length (snd e))) of None \<Rightarrow> [] | Some rh \<Rightarrow> raw_bytes rh) @
     snd e @ replicate (pad (length (snd e))) 0"

definition archive :: "(bytes \<times> bytes) list \<Rightarrow> bytes" where
  "archive es = concat (map entry_bytes es) @ replicate (raw_size * 2) 0"

definition entry_ok :: "bytes \<times> bytes \<Rightarrow> bool" where
  "entry_ok e \<longleftrightarrow> length (fst e) < 100 \<and> 0 \<notin> set (fst e)"

lemma file_hdr_ok: "entry_ok (n, d) \<Longrightarrow> hdr_ok (file_hdr n k)"
  by (simp add: hdr_ok_def file_hdr_def entry_ok_def MTAR_TREG_def)

lemma entry_bytes_eq:
  assumes "entry_ok (n, d)"
  obtains rh where "header_to_raw (file_hdr n (length d)) = Some rh" "length (raw_bytes rh) = raw_size"
    "\<And>h0 rest. raw_to_header h0 (raw_of_bytes (raw_bytes rh @ rest)) = Some (MTAR_ESUCCESS, file_hdr n (length d))"
    "entry_bytes (n, d) = raw_bytes rh @ d @ replicate (pad (length d)) 0"
proof -
  from header_roundtrip[OF file_hdr_ok[OF assms, of "length d"]] obtain rh where
    "header_to_raw (file_hdr n (length d)) = Some rh" "raw_wf rh"
    by blast
  moreover from this header_roundtrip[OF file_hdr_ok[OF assms, of "length d"]]
  have "raw_to_header h0 rh = Some (MTAR_ESUCCESS, file_hdr n (length d))" for h0 by auto
  ultimately show thesis
    by (intro that[of rh]) (simp_all add: raw_bytes_length raw_of_raw_bytes entry_bytes_def)
qed

lemma entry_bytes_length: "entry_ok (n, d) \<Longrightarrow> length (entry_bytes (n, d)) = raw_size + length d + pad (length d)"
  by (erule entry_bytes_eq) simp

lemma entry_at_bytes:
  assumes ok: "entry_ok (n, d)" and l: "length (pre @ entry_bytes (n, d) @ post) < 2 ^ 31"
  shows "entry_at (pre @ entry_bytes (n, d) @ post) (length pre) (file_hdr n (length d)) d"
  using ok
proof (rule entry_bytes_eq)
  fix rh assume rh: "length (raw_bytes rh) = raw_size"
    "\<And>h0 rest. raw_to_header h0 (raw_of_bytes (raw_bytes rh @ rest)) = Some (MTAR_ESUCCESS, file_hdr n (length d))"
    "entry_bytes (n, d) = raw_bytes rh @ d @ replicate (pad (length d)) 0"
  show ?thesis
    using l rh(2)[of _ "[]"] by (simp add: entry_at_def rh(1,3) file_hdr_def)
qed

lemma end_at:
  "drop (length pre) (pre @ replicate (raw_size * 2) 0) = replicate (raw_size * 2) 0"
  by simp

section \<open>Finding a file\<close>

lemma find_loop:
  assumes "\<And>e. e \<in> set es \<Longrightarrow> entry_ok e" and "length (pre @ archive es) < 2 ^ 31"
    and "files fs p = Some (pre @ archive es)"
    and "fds fs (stream tar) = Some \<lparr>of_path = p, of_pos = length pre\<rparr>" and "pos tar = of_nat (length pre)"
    and "length es < fuel"
  shows "\<exists>tar' fs'. run_loop fuel (mtar_find_body name) (fs, tar, h0) =
      Some (Inl (case List.find (\<lambda>e. fst e = name) es of
                   None \<Rightarrow> MTAR_ENOTFOUND | Some _ \<Rightarrow> MTAR_ESUCCESS,
                 map_option (\<lambda>e. file_hdr (fst e) (length (snd e))) (List.find (\<lambda>e. fst e = name) es),
                 tar', fs')) \<and> files fs' = files fs"
  using assms
proof (induction es arbitrary: pre fs tar h0 fuel)
  case Nil
  then obtain k where fuel: "fuel = Suc k" by (cases fuel) auto
  have "mtar_read_header fs tar h0 = Some (MTAR_ENULLRECORD, h0, tar\<lparr>last_header := pos tar\<rparr>, fs)"
    using Nil.prems
    by (intro read_header_at[of fs tar "\<lparr>of_path = p, of_pos = length pre\<rparr>" "pre @ archive []"])
       (simp_all add: archive_def raw_size_def null_header)
  then show ?case by (simp add: fuel mtar_find_body_def)
next
  case (Cons e es)
  obtain n d where e: "e = (n, d)" by (cases e)
  from Cons.prems(6) obtain k where fuel: "fuel = Suc k" "length es < k" by (cases fuel) auto
  have ok: "entry_ok (n, d)" using Cons.prems(1)[of e] by (simp add: e)
  define pre' where "pre' = pre @ entry_bytes (n, d)"
  have c: "pre @ archive (e # es) = pre' @ archive es" by (simp add: pre'_def archive_def e)
  have at: "entry_at (pre @ archive (e # es)) (length pre) (file_hdr n (length d)) d"
    using entry_at_bytes[OF ok, of pre "archive es"] Cons.prems(2) by (simp add: archive_def e)
  have len: "length pre + raw_size + length d + pad (length d) = length pre'"
    by (simp add: pre'_def entry_bytes_length[OF ok])
  note rh = entry_read_header[OF at Cons.prems(4,3,5)]
  show ?case
  proof (cases "n = name")
    case True
    then show ?thesis by (simp add: fuel mtar_find_body_def rh e file_hdr_def)
  next
    case False
    define tar1 where "tar1 = tar\<lparr>last_header := of_nat (length pre)\<rparr>"
    define tar2 where "tar2 = tar1\<lparr>last_header := of_nat (length pre), pos := of_nat (length pre')\<rparr>"
    define fs2 where "fs2 = fs\<lparr>fds := (fds fs)(stream tar \<mapsto> \<lparr>of_path = p, of_pos = length pre'\<rparr>)\<rparr>"
    have nx: "mtar_next fs tar1 = Some (MTAR_ESUCCESS, tar2, fs2)"
      using next_at[OF at, of fs tar1 p] Cons.prems c len by (simp add: tar1_def tar2_def fs2_def)
    have "mtar_find_body name (fs, tar, h0) = Some (Inr (fs2, tar2, file_hdr n (length d)))"
      using False nx by (simp add: mtar_find_body_def rh tar1_def) (simp add: file_hdr_def)
    moreover have "\<exists>tar' fs'. run_loop k (mtar_find_body name) (fs2, tar2, file_hdr n (length d)) =
      Some (Inl (case List.find (\<lambda>e. fst e = name) es of
                   None \<Rightarrow> MTAR_ENOTFOUND | Some _ \<Rightarrow> MTAR_ESUCCESS,
                 map_option (\<lambda>e. file_hdr (fst e) (length (snd e))) (List.find (\<lambda>e. fst e = name) es),
                 tar', fs')) \<and> files fs' = files fs2"
      by (rule Cons.IH[where pre = pre'])
         (use Cons.prems c fuel(2) in \<open>simp_all add: tar2_def tar1_def fs2_def\<close>)
    ultimately show ?thesis using False by (simp add: fuel e fs2_def)
  qed
qed

section \<open>Writing an archive\<close>

text \<open>The file system while the file behind descriptor \<open>d\<close> holds \<open>c\<close> and is being appended to.\<close>

definition fs_wr :: "vfs \<Rightarrow> int \<Rightarrow> bytes \<Rightarrow> bytes \<Rightarrow> nat \<Rightarrow> vfs" where
  "fs_wr fs d p c r = fs\<lparr>files := (files fs)(p \<mapsto> c),
     fds := (fds fs)(d \<mapsto> \<lparr>of_path = p, of_pos = length c\<rparr>), room := r\<rparr>"

lemma twrite_eq:
  assumes "stream tar = d" and "length x \<le> r"
  shows "twrite (fs_wr fs d p c r) tar x =
    (MTAR_ESUCCESS, tar\<lparr>pos := pos tar + of_nat (length x)\<rparr>, fs_wr fs d p (c @ x) (r - length x))"
proof -
  have "vwrite (fs_wr fs d p c r) d x = (int (length x), fs_wr fs d p (c @ x) (r - length x))"
    using vwrite_append[of "fs_wr fs d p c r" d "\<lparr>of_path = p, of_pos = length c\<rparr>" c x] assms(2)
    by (simp add: fs_wr_def)
  with assms(1) show ?thesis by (simp add: twrite_def file_write_def fwrite_def)
qed

lemma write_null_bytes_eq:
  "stream tar = d \<Longrightarrow> n \<le> r \<Longrightarrow> write_null_bytes (fs_wr fs d p c r) tar n =
    (MTAR_ESUCCESS, tar\<lparr>pos := pos tar + of_nat n\<rparr>, fs_wr fs d p (c @ replicate n 0) (r - n))"
proof (induction n arbitrary: tar c r)
  case (Suc n)
  have t: "twrite (fs_wr fs d p c r) tar [0] =
      (MTAR_ESUCCESS, tar\<lparr>pos := pos tar + 1\<rparr>, fs_wr fs d p (c @ [0]) (r - 1))"
    using twrite_eq[of tar d "[0]" r] Suc.prems by simp
  show ?case
    using Suc.IH[of "tar\<lparr>pos := pos tar + 1\<rparr>" "r - 1" "c @ [0]"] Suc.prems
    by (simp add: t add.assoc)
qed simp

lemma pad_lt: "pad s < 512"
  by (simp add: pad_def)

lemma pad_aligned: "512 dvd k \<Longrightarrow> pad (k + s) = pad s"
  by (auto simp: pad_def elim!: dvdE)

lemma aligned_pad: "512 dvd s + pad s"
proof (cases "s mod 512 = 0")
  case True
  then show ?thesis by (simp add: pad_def dvd_eq_mod_eq_0)
next
  case False
  then have "pad s = 512 - s mod 512" by (simp add: pad_def)
  moreover have "s = 512 * (s div 512) + s mod 512" "s mod 512 < 512" by simp_all
  ultimately have "s + pad s = 512 * (s div 512) + 512" by linarith
  then show ?thesis by simp
qed

text \<open>Adding a file: its header, then its contents in one piece.\<close>

definition mtar_add_file ::
  "vfs \<Rightarrow> mtar_t \<Rightarrow> bytes \<times> bytes \<Rightarrow> (mtar_err \<times> mtar_t \<times> vfs) option" where
  "mtar_add_file fs tar e =
     do { (err, tar1, fs1) \<leftarrow> mtar_write_file_header fs tar (fst e) (of_nat (length (snd e)));
          if err \<noteq> MTAR_ESUCCESS then Some (err, tar1, fs1)
          else Some (mtar_write_data fs1 tar1 (snd e)) }"

fun mtar_add_files ::
  "vfs \<Rightarrow> mtar_t \<Rightarrow> (bytes \<times> bytes) list \<Rightarrow> (mtar_err \<times> mtar_t \<times> vfs) option" where
  "mtar_add_files fs tar [] = Some (mtar_finalize fs tar)"
| "mtar_add_files fs tar (e # es) =
     do { (err, tar1, fs1) \<leftarrow> mtar_add_file fs tar e;
          if err \<noteq> MTAR_ESUCCESS then Some (err, tar1, fs1) else mtar_add_files fs1 tar1 es }"

lemma add_file_eq:
  assumes ok: "entry_ok (n, x)" and st: "stream tar = d" "pos tar = of_nat (length c)" "512 dvd length c"
    and b: "length c + length (entry_bytes (n, x)) < 2 ^ 31" "length (entry_bytes (n, x)) \<le> r"
  shows "mtar_add_file (fs_wr fs d p c r) tar (n, x) =
    Some (MTAR_ESUCCESS, tar\<lparr>pos := of_nat (length c + length (entry_bytes (n, x))), remaining_data := 0\<rparr>,
      fs_wr fs d p (c @ entry_bytes (n, x)) (r - length (entry_bytes (n, x))))"
  using ok
proof (rule entry_bytes_eq)
  fix rh assume rh: "header_to_raw (file_hdr n (length x)) = Some rh" "length (raw_bytes rh) = raw_size"
    and eb: "entry_bytes (n, x) = raw_bytes rh @ x @ replicate (pad (length x)) 0"
  note el = entry_bytes_length[OF ok]
  define tar1 where "tar1 = tar\<lparr>remaining_data := of_nat (length x), pos := of_nat (length c + raw_size)\<rparr>"
  define tar2 where "tar2 = tar1\<lparr>pos := of_nat (length c + raw_size + length x), remaining_data := 0\<rparr>"
  define j where "j = length c + raw_size + length x"
  have nl: "length n < 100" using ok by (simp add: entry_ok_def)
  have w1: "mtar_write_file_header (fs_wr fs d p c r) tar n (of_nat (length x)) =
      Some (MTAR_ESUCCESS, tar1, fs_wr fs d p (c @ raw_bytes rh) (r - raw_size))"
    using nl rh b(2) st el
    by (simp add: mtar_write_file_header_def mtar_write_header_def file_hdr_def[symmetric] twrite_eq tar1_def)
       (simp add: file_hdr_def twrite_eq)
  have w2: "twrite (fs_wr fs d p (c @ raw_bytes rh) (r - raw_size)) tar1 x =
      (MTAR_ESUCCESS, tar1\<lparr>pos := of_nat j\<rparr>, fs_wr fs d p (c @ raw_bytes rh @ x) (r - raw_size - length x))"
    using twrite_eq[of tar1 d x "r - raw_size"] st b(2) el by (simp add: tar1_def j_def)
  have jb: "j < 2 ^ 31" using b(1) el by (simp add: j_def)
  have "512 dvd length c + raw_size" using st(3) by (simp add: raw_size_def)
  then have pj: "pad j = pad (length x)" unfolding j_def by (rule pad_aligned)
  have "round_up (of_nat j) 512 - of_nat j = (of_nat (pad (length x)) :: u32)"
    using round_up_of_nat[OF jb] pj by simp
  moreover have "nat (sint (of_nat (pad (length x)) :: u32)) = pad (length x)"
    using pad_lt[of "length x"] by (simp add: sint_of_nat_u32)
  ultimately have n: "nat (sint (round_up (of_nat j) 512 - of_nat j :: u32)) = pad (length x)" by simp
  have w3: "mtar_write_data (fs_wr fs d p (c @ raw_bytes rh) (r - raw_size)) tar1 x =
      (MTAR_ESUCCESS, tar1\<lparr>pos := of_nat j + of_nat (pad (length x)), remaining_data := 0\<rparr>,
       fs_wr fs d p (c @ entry_bytes (n, x)) (r - length (entry_bytes (n, x))))"
    using write_null_bytes_eq[of "tar1\<lparr>pos := of_nat j, remaining_data := 0\<rparr>" d "pad (length x)"
        "r - raw_size - length x" fs p "c @ raw_bytes rh @ x"] st b(2) el eb
    unfolding mtar_write_data_def w2
    by (simp add: n Let_def tar1_def add.assoc)
  show ?thesis
    using w3 el by (simp add: mtar_add_file_def w1 tar1_def j_def add.assoc)
qed

lemma entry_bytes_aligned: "entry_ok (n, x) \<Longrightarrow> 512 dvd length (entry_bytes (n, x))"
  using aligned_pad[of "length x"] by (simp add: entry_bytes_length raw_size_def add.assoc)

lemma add_files_eq:
  assumes "\<And>e. e \<in> set es \<Longrightarrow> entry_ok e"
    and "stream tar = d" "pos tar = of_nat (length c)" "512 dvd length c"
    and "length (c @ archive es) < 2 ^ 31" "length (archive es) \<le> r"
  shows "\<exists>tar'. mtar_add_files (fs_wr fs d p c r) tar es =
    Some (MTAR_ESUCCESS, tar', fs_wr fs d p (c @ archive es) (r - length (archive es))) \<and> stream tar' = d"
  using assms
proof (induction es arbitrary: tar c r)
  case Nil
  then show ?case by (simp add: mtar_finalize_def write_null_bytes_eq archive_def)
next
  case (Cons e es)
  obtain n x where e: "e = (n, x)" by (cases e)
  have ok: "entry_ok (n, x)" using Cons.prems(1)[of e] by (simp add: e)
  have ar: "archive (e # es) = entry_bytes (n, x) @ archive es" by (simp add: archive_def e)
  define tar1 where "tar1 = tar\<lparr>pos := of_nat (length c + length (entry_bytes (n, x))), remaining_data := 0\<rparr>"
  have a: "mtar_add_file (fs_wr fs d p c r) tar e =
      Some (MTAR_ESUCCESS, tar1, fs_wr fs d p (c @ entry_bytes (n, x)) (r - length (entry_bytes (n, x))))"
    unfolding e tar1_def
    by (rule add_file_eq[OF ok Cons.prems(2-4)]) (use Cons.prems(5,6) ar in auto)
  have "\<exists>tar'. mtar_add_files (fs_wr fs d p (c @ entry_bytes (n, x)) (r - length (entry_bytes (n, x)))) tar1 es =
      Some (MTAR_ESUCCESS, tar', fs_wr fs d p ((c @ entry_bytes (n, x)) @ archive es)
        (r - length (entry_bytes (n, x)) - length (archive es))) \<and> stream tar' = d"
    by (rule Cons.IH) (use Cons.prems ok in \<open>simp_all add: ar tar1_def entry_bytes_aligned\<close>)
  then show ?case by (simp add: a ar)
qed

section \<open>Opening an archive\<close>

lemma modes: "114 \<in> set (bs ''r'')" "119 \<notin> set (bs ''rb'')" "97 \<notin> set (bs ''rb'')"
  "114 \<notin> set (bs ''w'')" "119 \<in> set (bs ''w'')" "97 \<notin> set (bs ''wb'')" "bs ''rb'' \<noteq> bs ''wb''"
  "bs ''wb'' \<noteq> bs ''rb''" "bs ''rb'' \<noteq> []" "bs ''wb'' \<noteq> []" "hd (bs ''rb'') = 114" "hd (bs ''wb'') \<noteq> 114"
  by (simp_all add: bs_def of_char_def)

lemma open_archive:
  assumes es: "es \<noteq> []" "\<And>e. e \<in> set es \<Longrightarrow> entry_ok e" and l: "length (archive es) < 2 ^ 31"
    and c: "files fs p = Some (archive es)" and d: "fd_alloc fs = Some d"
  shows "mtar_open fs p (bs ''r'') = Some (MTAR_ESUCCESS,
     \<lparr>stream = d, pos = 0, remaining_data = 0, last_header = 0\<rparr>,
     fs\<lparr>fds := (fds fs)(d \<mapsto> \<lparr>of_path = p, of_pos = 0\<rparr>)\<rparr>)"
proof -
  from es(1) obtain n x es' where e: "es = (n, x) # es'" by (cases es) auto
  then have ok: "entry_ok (n, x)" using es(2) by simp
  have at: "entry_at (archive es) 0 (file_hdr n (length x)) x"
    using entry_at_bytes[OF ok, of "[]" "archive es'"] l by (simp add: e archive_def)
  define tar where "tar = \<lparr>stream = d, pos = 0, remaining_data = 0, last_header = 0\<rparr>"
  define fs1 where "fs1 = fs\<lparr>fds := (fds fs)(d \<mapsto> \<lparr>of_path = p, of_pos = 0\<rparr>)\<rparr>"
  have o: "fopen fs p (bs ''rb'') = (d, fs1)"
    by (simp add: fopen_def open_r_ok[OF c d] fs1_def)
  have "mtar_read_header fs1 tar mtar_header_uninit = Some (MTAR_ESUCCESS, file_hdr n (length x), tar, fs1)"
    using entry_read_header[OF at, of fs1 tar p mtar_header_uninit] c by (simp add: fs1_def tar_def)
  then show ?thesis
    using fd_alloc_SomeD[OF d] unfolding mtar_open_def
    by (simp add: modes o tar_def[symmetric] fs1_def[symmetric] Let_def)
qed

lemma create_archive:
  assumes "dirs fs (parent p)" "\<not> dirs fs p" "fd_alloc fs = Some d"
  shows "mtar_open fs p (bs ''w'') = Some (MTAR_ESUCCESS,
     \<lparr>stream = d, pos = 0, remaining_data = 0, last_header = 0\<rparr>, fs_wr fs d p [] (room fs + file_size fs p))"
  using fd_alloc_SomeD[OF assms(3)]
  by (simp add: mtar_open_def modes fopen_def open_w_ok[OF assms] fs_wr_def Let_def)

section \<open>Properties\<close>

text \<open>
  The header codec loses nothing: every header whose mode and owner fit in seven octal digits
  and whose names fit in their arrays is encoded without overflow, and decoding the encoding
  succeeds, checksum included, and gives back every field, whatever the decoder's header held
  before.
\<close>

theorem tar_header_roundtrip:
  assumes "hdr_ok h"
  shows "\<exists>rh. header_to_raw h = Some rh \<and> length (raw_bytes rh) = 512 \<and>
    raw_to_header h0 (raw_of_bytes (raw_bytes rh)) = Some (MTAR_ESUCCESS, h)"
proof -
  from header_roundtrip[OF assms] obtain rh where "header_to_raw h = Some rh" "raw_wf rh"
    "raw_to_header h0 rh = Some (MTAR_ESUCCESS, h)" by blast
  then show ?thesis
    using raw_of_raw_bytes[of rh "[]"] raw_bytes_length[of rh] by (auto simp: raw_size_def)
qed

definition demo_hdr :: mtar_header_t where
  "demo_hdr = file_hdr [97, 46, 116, 120, 116] 70000"

theorem tar_header_roundtrip_witness:
  "\<exists>rh. header_to_raw demo_hdr = Some rh \<and> length (raw_bytes rh) = 512 \<and>
    raw_to_header mtar_header_uninit (raw_of_bytes (raw_bytes rh)) = Some (MTAR_ESUCCESS, demo_hdr)"
  by (rule tar_header_roundtrip) (simp add: demo_hdr_def file_hdr_def hdr_ok_def MTAR_TREG_def)

text \<open>
  C8. Writing and searching fit together: an archive created with \<open>mtar_open\<close>, filled with any
  list of files and finalised holds exactly the headers, contents and padding of these files, and
  \<open>mtar_find\<close> on the reopened archive comes back after at most one round per file with the header
  of the first file of that name, or with \<open>MTAR_ENOTFOUND\<close> if there is none.
\<close>

theorem tar_write_find:
  assumes es: "es \<noteq> []" "\<forall>e \<in> set es. entry_ok e" "length (archive es) < 2 ^ 31"
    and fs: "dirs fs (parent p)" "\<not> dirs fs p" "fd_alloc fs = Some d"
    and rm: "length (archive es) \<le> room fs + file_size fs p" and fuel: "length es < fuel"
  shows "\<exists>tar1 fs1 tar2 fs2 tar3 fs3 tar4 fs4.
    mtar_open fs p (bs ''w'') = Some (MTAR_ESUCCESS, tar1, fs1) \<and>
    mtar_add_files fs1 tar1 es = Some (MTAR_ESUCCESS, tar2, fs2) \<and>
    files fs2 p = Some (archive es) \<and>
    mtar_open (snd (mtar_close fs2 tar2)) p (bs ''r'') = Some (MTAR_ESUCCESS, tar3, fs3) \<and>
    mtar_find fuel fs3 tar3 name =
      Some (Inl (case List.find (\<lambda>e. fst e = name) es of
                   None \<Rightarrow> MTAR_ENOTFOUND | Some _ \<Rightarrow> MTAR_ESUCCESS,
                 map_option (\<lambda>e. file_hdr (fst e) (length (snd e))) (List.find (\<lambda>e. fst e = name) es),
                 tar4, fs4))"
proof -
  define tar1 where "tar1 = \<lparr>stream = d, pos = 0, remaining_data = 0, last_header = 0 :: u32\<rparr>"
  define r where "r = room fs + file_size fs p - length (archive es)"
  define fs2 where "fs2 = fs_wr fs d p (archive es) r"
  have ok: "\<And>e. e \<in> set es \<Longrightarrow> entry_ok e" using es(2) by blast
  obtain tar2 where w: "mtar_add_files (fs_wr fs d p [] (room fs + file_size fs p)) tar1 es =
      Some (MTAR_ESUCCESS, tar2, fs2)" and t2: "stream tar2 = d"
    using add_files_eq[of es tar1 d "[]" "room fs + file_size fs p" fs p] ok es(3) rm
    by (auto simp: tar1_def fs2_def r_def)
  define fs2' where "fs2' = snd (mtar_close fs2 tar2)"
  have "fds fs2' = fds fs"
    using fd_alloc_SomeD[OF fs(3)] t2
    by (simp add: fs2'_def fs2_def mtar_close_def file_close_def vclose_def fs_wr_def fun_upd_idem)
  then have d2: "fd_alloc fs2' = Some d" using fs(3) by (simp add: fd_alloc_def)
  have c2: "files fs2' p = Some (archive es)"
    by (simp add: fs2'_def fs2_def mtar_close_def file_close_def vclose_def fs_wr_def)
  define fs3 where "fs3 = fs2'\<lparr>fds := (fds fs2')(d \<mapsto> \<lparr>of_path = p, of_pos = 0\<rparr>)\<rparr>"
  have o: "mtar_open fs2' p (bs ''r'') = Some (MTAR_ESUCCESS, tar1, fs3)"
    using open_archive[OF es(1) ok es(3) c2 d2] by (simp add: tar1_def fs3_def)
  have "mtar_rewind fs3 tar1 = (MTAR_ESUCCESS, tar1, fs3)"
    using mtar_seek_eq[of fs3 tar1 "\<lparr>of_path = p, of_pos = 0\<rparr>" 0]
    by (simp add: mtar_rewind_def tar1_def fs3_def)
  moreover have "\<exists>tar' fs'. run_loop fuel (mtar_find_body name) (fs3, tar1, mtar_header_uninit) =
      Some (Inl (case List.find (\<lambda>e. fst e = name) es of
                   None \<Rightarrow> MTAR_ENOTFOUND | Some _ \<Rightarrow> MTAR_ESUCCESS,
                 map_option (\<lambda>e. file_hdr (fst e) (length (snd e))) (List.find (\<lambda>e. fst e = name) es),
                 tar', fs')) \<and> files fs' = files fs3"
    by (rule find_loop[of es "[]" fs3 p]) (use ok es(3) c2 fuel in \<open>simp_all add: fs3_def tar1_def\<close>)
  ultimately have f: "\<exists>tar4 fs4. mtar_find fuel fs3 tar1 name =
      Some (Inl (case List.find (\<lambda>e. fst e = name) es of
                   None \<Rightarrow> MTAR_ENOTFOUND | Some _ \<Rightarrow> MTAR_ESUCCESS,
                 map_option (\<lambda>e. file_hdr (fst e) (length (snd e))) (List.find (\<lambda>e. fst e = name) es),
                 tar4, fs4))"
    by (auto simp: mtar_find_def)
  have "files fs2 p = Some (archive es)" by (simp add: fs2_def fs_wr_def)
  with create_archive[OF fs] w o f show ?thesis
    unfolding fs2'_def tar1_def[symmetric] by blast
qed

definition tar_fs :: vfs where
  "tar_fs = \<lparr>files = Map.empty, dirs = (\<lambda>p. p = []), fds = Map.empty, room = 65536\<rparr>"

lemma archive_one_length: "length (archive [([97], [1, 2, 3])]) = 2048"
  by (simp add: archive_def entry_bytes_length entry_ok_def pad_def raw_size_def)

theorem tar_write_find_witness:
  "\<exists>tar1 fs1 tar2 fs2 tar3 fs3 tar4 fs4.
    mtar_open tar_fs [47, 116] (bs ''w'') = Some (MTAR_ESUCCESS, tar1, fs1) \<and>
    mtar_add_files fs1 tar1 [([97], [1, 2, 3])] = Some (MTAR_ESUCCESS, tar2, fs2) \<and>
    files fs2 [47, 116] = Some (archive [([97], [1, 2, 3])]) \<and>
    mtar_open (snd (mtar_close fs2 tar2)) [47, 116] (bs ''r'') = Some (MTAR_ESUCCESS, tar3, fs3) \<and>
    mtar_find 2 fs3 tar3 [97] =
      Some (Inl (case List.find (\<lambda>e. fst e = [97]) [([97 :: u8], [1, 2, 3 :: u8])] of
                   None \<Rightarrow> MTAR_ENOTFOUND | Some _ \<Rightarrow> MTAR_ESUCCESS,
                 map_option (\<lambda>e. file_hdr (fst e) (length (snd e)))
                   (List.find (\<lambda>e. fst e = [97]) [([97 :: u8], [1, 2, 3 :: u8])]),
                 tar4, fs4))"
  by (rule tar_write_find[where d = 3])
     (simp_all add: archive_one_length entry_ok_def tar_fs_def parent_def slash_def fd_alloc_def fd_list_def)

end
