(* ===== verification/Common.thy ===== *)
theory Common
  imports Microtar
begin

text \<open>
  The helpers of \<^verbatim>\<open>src/applications/common/common.c\<close>: recursive directory creation, unpacking of a tar
  file, the test for JSON text, the search for the start of a JSON text and the hexadecimal dump.
\<close>

section \<open>Code\<close>

definition MAX_PATH :: nat where
  "MAX_PATH = 256"

text \<open>\<open>snprintf\<close> into an array of \<open>k\<close> bytes keeps the first \<open>k - 1\<close> characters.\<close>

definition snprintf :: "nat \<Rightarrow> bytes \<Rightarrow> bytes" where
  "snprintf k s = take (k - 1) s"

text \<open>
  \<open>None\<close> for the empty path, where the code reads and writes before the start of its buffer. The
  loop runs over the characters from the second one on.
\<close>

definition mkdir_recursive :: "vfs \<Rightarrow> bytes \<Rightarrow> vfs option" where
  "mkdir_recursive fs dir =
     (let tmp0 = snprintf MAX_PATH dir in
      if tmp0 = [] then None
      else let tmp = (if last tmp0 = slash then butlast tmp0 else tmp0);
               fs1 = foldl (\<lambda>fs i. if tmp ! i = slash then snd (vmkdir fs (take i tmp)) else fs)
                       fs [1..<length tmp]
           in Some (snd (vmkdir fs1 tmp)))"

function extract_loop ::
  "vfs \<Rightarrow> mtar_t \<Rightarrow> int \<Rightarrow> nat \<Rightarrow> (mtar_err \<times> mtar_t \<times> vfs) option" where
  "extract_loop fs tar f remaining =
     (if remaining = 0 then Some (MTAR_ESUCCESS, tar, fs)
      else let to_read = (if remaining > 512 then 512 else remaining) in
           case mtar_read_data fs tar to_read of
             None \<Rightarrow> None
           | Some (err, buffer, tar1, fs1) \<Rightarrow>
               if err \<noteq> MTAR_ESUCCESS then Some (err, tar1, fs1)
               else extract_loop (snd (fwrite fs1 f buffer)) tar1 f (remaining - to_read))"
  by pat_completeness auto
termination by (relation "measure (\<lambda>(_, _, _, r). r)") auto

declare extract_loop.simps [simp del]
declare skip_loop.simps [simp del]

text \<open>
  One round of the loop of \<open>untar\<close>. Leaving the loop is \<open>Inl\<close> with the value that \<open>untar\<close>
  returns.
\<close>

definition untar_body ::
  "bytes \<Rightarrow> vfs \<times> mtar_t \<times> mtar_header_t \<Rightarrow> ((int \<times> vfs) + (vfs \<times> mtar_t \<times> mtar_header_t)) option" where
  "untar_body dst_dir = (\<lambda>(fs, tar, h0).
     do { (err, h, tar1, fs1) \<leftarrow> mtar_read_header fs tar h0;
          if err \<noteq> MTAR_ESUCCESS then Some (Inl (0, snd (mtar_close fs1 tar1)))
          else
            let full_path = snprintf MAX_PATH (dst_dir @ slash # h_name h) in
            if h_type h = MTAR_TREG
            then do {
              fs2 \<leftarrow> (if slash \<in> set full_path then mkdir_recursive fs1 (parent full_path) else Some fs1);
              case fopen fs2 full_path (bs ''wb'') of (f, fs3) \<Rightarrow>
                if f < 0 then Some (Inl (-1, fs3))
                else do {
                  sz \<leftarrow> h_size h;
                  (err, tar2, fs4) \<leftarrow> extract_loop fs3 tar1 f (nat (sint sz));
                  if err \<noteq> MTAR_ESUCCESS then Some (Inl (err_code err, vclose fs4 f))
                  else do { (_, tar3, fs5) \<leftarrow> mtar_next (vclose fs4 f) tar2;
                            Some (Inr (fs5, tar3, h)) } } }
            else do {
              sz \<leftarrow> h_size h;
              (err, tar2, fs2) \<leftarrow> skip_loop fs1 tar1 (nat (sint sz));
              if err \<noteq> MTAR_ESUCCESS then Some (Inl (err_code err, fs2))
              else do { (_, tar3, fs3) \<leftarrow> mtar_next fs2 tar2; Some (Inr (fs3, tar3, h)) } } })"

definition untar ::
  "nat \<Rightarrow> vfs \<Rightarrow> bytes \<Rightarrow> bytes \<Rightarrow> ((int \<times> vfs) + (vfs \<times> mtar_t \<times> mtar_header_t)) option" where
  "untar fuel fs tar_path dst_dir =
     do { (err, tar, fs1) \<leftarrow> mtar_open fs tar_path (bs ''r'');
          if err \<noteq> MTAR_ESUCCESS then Some (Inl (err_code err, fs1))
          else run_loop fuel (untar_body dst_dir) (fs1, tar, mtar_header_uninit) }"

text \<open>The shell command; the second component is the line it prints at the end.\<close>

definition untar_cmd :: "nat \<Rightarrow> vfs \<Rightarrow> bytes list \<Rightarrow> (vfs \<times> bytes) option" where
  "untar_cmd fuel fs argv =
     (if length argv \<noteq> 3 then Some (fs, bs ''Usage: untar <tar_path> <dst_dir>'')
      else case untar fuel fs (argv ! 1) (argv ! 2) of
             Some (Inl (r, fs1)) \<Rightarrow>
               Some (fs1, if r = 0 then bs ''Untar completed successfully.'' else bs ''Untar failed.'')
           | _ \<Rightarrow> None)"

definition hex_digit :: "u8 \<Rightarrow> u8" where
  "hex_digit n = (if n < 10 then 48 + n else 87 + n)"

text \<open>\<open>%x\<close> of a byte\<close>

definition print_x :: "u8 \<Rightarrow> bytes" where
  "print_x b = (if b < 16 then [hex_digit b] else [hex_digit (b div 16), hex_digit (b mod 16)])"

definition print_array_with_prefix :: "bytes option \<Rightarrow> bytes option \<Rightarrow> nat \<Rightarrow> bytes option" where
  "print_array_with_prefix prefix array size0 =
     (case (prefix, array) of
        (Some pre, Some a) \<Rightarrow>
          if size0 = 0 then Some (bs ''Invalid input.'')
          else do { body \<leftarrow> foldl (\<lambda>acc i. do { out \<leftarrow> acc; x \<leftarrow> load a i;
                              Some (out @ print_x x @ (if i < size0 - 1 then bs '', '' else [])) })
                            (Some []) [0..<size0];
                    Some (pre @ bs '': ['' @ body @ bs '']'') }
      | _ \<Rightarrow> Some (bs ''Invalid input.''))"

text \<open>A null pointer is \<open>None\<close>; the result is \<open>None\<close> if a byte out of range would be read.\<close>

definition is_json :: "bytes option \<Rightarrow> nat \<Rightarrow> bool option" where
  "is_json data len =
     (case data of
        None \<Rightarrow> Some False
      | Some d \<Rightarrow>
          if len < 2 then Some False
          else do { a \<leftarrow> load d 0; z \<leftarrow> load d (len - 1);
                    Some ((a = 123 \<and> z = 125) \<or> (a = 91 \<and> z = 93)) })"

fun find_json_loop :: "bytes \<Rightarrow> nat \<Rightarrow> nat \<Rightarrow> nat option option" where
  "find_json_loop buffer i 0 = Some None"
| "find_json_loop buffer i (Suc n) =
     do { b \<leftarrow> load buffer i;
          if b = 123 then Some (Some i) else find_json_loop buffer (Suc i) n }"

text \<open>The index of the first brace within \<open>len\<close> bytes, \<open>Some None\<close> for the null pointer.\<close>

definition find_json_start :: "bytes \<Rightarrow> int \<Rightarrow> nat option option" where
  "find_json_start buffer len = find_json_loop buffer 0 (nat len)"

section \<open>Creating directories\<close>

definition mkdirs :: "vfs \<Rightarrow> bytes \<Rightarrow> nat list \<Rightarrow> vfs" where
  "mkdirs fs tmp is = foldl (\<lambda>fs i. if tmp ! i = slash then snd (vmkdir fs (take i tmp)) else fs) fs is"

lemma vmkdir_frame: "files (snd (vmkdir fs p)) = files fs" "fds (snd (vmkdir fs p)) = fds fs"
  "room (snd (vmkdir fs p)) = room fs"
  by (auto simp: vmkdir_def)

lemma vmkdir_dirs:
  "dirs (snd (vmkdir fs p)) q \<longleftrightarrow> dirs fs q \<or> q = p \<and> dirs fs (parent p) \<and> files fs p = None"
  by (auto simp: vmkdir_def split: if_splits)

lemma mkdirs_snoc: "mkdirs fs tmp (is @ [i]) =
  (if tmp ! i = slash then snd (vmkdir (mkdirs fs tmp is) (take i tmp)) else mkdirs fs tmp is)"
  by (simp add: mkdirs_def)

lemma mkdirs_frame: "files (mkdirs fs tmp is) = files fs \<and> fds (mkdirs fs tmp is) = fds fs \<and>
  room (mkdirs fs tmp is) = room fs \<and> (dirs fs q \<longrightarrow> dirs (mkdirs fs tmp is) q) \<and>
  (dirs (mkdirs fs tmp is) q \<longrightarrow> dirs fs q \<or> (\<exists>i. q = take i tmp))"
proof (induction "is" rule: rev_induct)
  case Nil
  then show ?case by (simp add: mkdirs_def)
next
  case (snoc i "is")
  then show ?case
    by (auto simp: mkdirs_snoc vmkdir_frame vmkdir_dirs)
qed

text \<open>The parent of a path is what precedes its last slash.\<close>

lemma parent_append: "slash \<notin> set b \<Longrightarrow> parent (a @ slash # b) = a"
  by (auto simp: parent_def dropWhile_append)

lemma parent_none: "slash \<notin> set b \<Longrightarrow> parent b = []"
  by (simp add: parent_def) (metis (mono_tags, lifting) dropWhile_eq_Nil_conv list.size(3) set_rev zero_le)

lemma parent_take:
  assumes "k \<le> length tmp"
  shows "parent (take k tmp) = [] \<or> (\<exists>j<k. tmp ! j = slash \<and> parent (take k tmp) = take j tmp)"
proof (cases "slash \<in> set (take k tmp)")
  case True
  then obtain a b where ab: "take k tmp = a @ slash # b" "slash \<notin> set b"
    by (meson split_list_last)
  from assms have "k = length (take k tmp)" by simp
  also have "\<dots> = length a + 1 + length b" by (simp only: ab(1)) simp
  finally have l: "length a < k" by simp
  have "tmp ! length a = take k tmp ! length a" using l by simp
  also have "\<dots> = slash" by (simp add: ab(1))
  finally have "tmp ! length a = slash" .
  moreover have "take (length a) tmp = a"
    using arg_cong[OF ab(1), of "take (length a)"] l by simp
  ultimately show ?thesis using ab l parent_append[OF ab(2)] by auto
qed (simp add: parent_none)

lemma mkdirs_creates:
  assumes root: "dirs fs []" and nf: "\<And>i. files fs (take i tmp) = None"
  shows "n \<le> length tmp \<Longrightarrow> 0 < j \<Longrightarrow> j < n \<Longrightarrow> tmp ! j = slash \<Longrightarrow> dirs (mkdirs fs tmp [1..<n]) (take j tmp)"
proof (induction n arbitrary: j)
  case (Suc n)
  have up: "[1..<Suc n] = [1..<n] @ [n]" using Suc.prems by (intro upt_Suc_append) simp
  show ?case
  proof (cases "j = n")
    case True
    have "dirs (mkdirs fs tmp [1..<n]) (parent (take n tmp))"
      using parent_take[of n tmp] Suc mkdirs_frame[of fs tmp "[1..<n]" "[]"] root
      by (metis Suc_leD take_0 gr0I)
    moreover have "files (mkdirs fs tmp [1..<n]) (take n tmp) = None"
      using mkdirs_frame nf by simp
    ultimately show ?thesis unfolding up mkdirs_snoc using Suc.prems(4) True by (simp add: vmkdir_dirs)
  next
    case False
    then have "dirs (mkdirs fs tmp [1..<n]) (take j tmp)" using Suc by simp
    then show ?thesis unfolding up mkdirs_snoc by (simp add: vmkdir_dirs)
  qed
qed simp

lemma mkdir_recursive_spec:
  assumes root: "dirs fs []" and nf: "\<And>i. files fs (take i dir) = None"
    and d: "dir \<noteq> []" "last dir \<noteq> slash" "length dir < MAX_PATH"
  shows "\<exists>fs'. mkdir_recursive fs dir = Some fs' \<and> dirs fs' dir \<and> files fs' = files fs \<and>
    fds fs' = fds fs \<and> room fs' = room fs \<and> (\<forall>q. dirs fs q \<longrightarrow> dirs fs' q) \<and>
    (\<forall>q. dirs fs' q \<longrightarrow> dirs fs q \<or> (\<exists>i. q = take i dir))"
proof -
  define fs1 where "fs1 = mkdirs fs dir [1..<length dir]"
  have e: "mkdir_recursive fs dir = Some (snd (vmkdir fs1 dir))"
    using d by (simp add: mkdir_recursive_def snprintf_def fs1_def mkdirs_def Let_def)
  note fr = mkdirs_frame[of fs dir "[1..<length dir]", folded fs1_def]
  have "dirs fs1 (parent dir)"
    using parent_take[of "length dir" dir] mkdirs_creates[OF root nf, of "length dir"] root fr[of "[]"]
    by (auto simp: fs1_def) (metis gr0I take_0)
  moreover have "files fs1 dir = None" using fr nf[of "length dir"] by simp
  ultimately have "dirs (snd (vmkdir fs1 dir)) dir" by (simp add: vmkdir_dirs)
  moreover have self: "\<exists>i. dir = take i dir" by (rule exI[of _ "length dir"]) simp
  then have "dirs fs q \<or> (\<exists>i. q = take i dir)" if "dirs (snd (vmkdir fs1 dir)) q" for q
    using that fr[of q] self by (auto simp: vmkdir_dirs)
  ultimately show ?thesis
    using fr by (simp add: e vmkdir_frame) (simp add: vmkdir_dirs)
qed

section \<open>Unpacking one file\<close>

lemma fwrite_mid:
  assumes ne: "d \<noteq> f" "tp \<noteq> q" and x: "length x \<le> r"
  shows "snd (fwrite (fs_mid (fs_wr G f q w r) d tp k s m) f x) =
    fs_mid (fs_wr G f q (w @ x) (r - length x)) d tp k s m"
proof -
  let ?F = "fs_mid (fs_wr G f q w r) d tp k s m"
  have v: "vwrite ?F f x = (int (length x), ?F\<lparr>files := (files ?F)(q \<mapsto> w @ x),
      fds := (fds ?F)(f \<mapsto> \<lparr>of_path = q, of_pos = length w + length x\<rparr>), room := room ?F - length x\<rparr>)"
    using vwrite_append[of ?F f "\<lparr>of_path = q, of_pos = length w\<rparr>" w x] ne x
    by (simp add: fs_mid_def fs_wr_def)
  then show ?thesis
    using ne by (simp add: fwrite_def v fs_mid_def fs_wr_def fun_upd_twist)
qed

lemma extract_loop_eq:
  assumes e: "entry_at c k h x" and G: "files G tp = Some c" and ne: "d \<noteq> f" "tp \<noteq> q" and t: "stream tar = d"
  shows "m \<le> length x \<Longrightarrow> length x - m \<le> r \<Longrightarrow>
    extract_loop (fs_mid (fs_wr G f q w r) d tp k (length x) m) (tar_mid tar k (length x) m) f (length x - m) =
    Some (MTAR_ESUCCESS, tar_mid tar k (length x) (length x),
      fs_mid (fs_wr G f q (w @ drop m x) (r - (length x - m))) d tp k (length x) (length x))"
proof (induction "length x - m" arbitrary: m w r rule: less_induct)
  case less
  show ?case
  proof (cases "m = length x")
    case True
    then show ?thesis by (simp add: extract_loop.simps)
  next
    case False
    define n where "n = (if length x - m > 512 then 512 else length x - m)"
    have n: "0 < n" "m + n \<le> length x" "m < length x" using False less.prems by (auto simp: n_def)
    have r: "mtar_read_data (fs_mid (fs_wr G f q w r) d tp k (length x) m) (tar_mid tar k (length x) m) n =
        Some (MTAR_ESUCCESS, take n (drop m x), tar_mid tar k (length x) (m + n),
          fs_mid (fs_wr G f q w r) d tp k (length x) (m + n))"
      by (rule read_data_mid[OF e _ n(3,1,2) t]) (use G ne in \<open>simp add: fs_wr_def\<close>)
    have l: "length (take n (drop m x)) = n" using n by simp
    have w: "snd (fwrite (fs_mid (fs_wr G f q w r) d tp k (length x) (m + n)) f (take n (drop m x))) =
        fs_mid (fs_wr G f q (w @ take n (drop m x)) (r - n)) d tp k (length x) (m + n)"
      using fwrite_mid[OF ne, of "take n (drop m x)" r] n less.prems l by (simp only:)
    have d: "(w @ take n (drop m x)) @ drop (m + n) x = w @ drop m x"
      by (metis append.assoc append_take_drop_id drop_drop add.commute)
    have "extract_loop (fs_mid (fs_wr G f q w r) d tp k (length x) m) (tar_mid tar k (length x) m) f (length x - m) =
        extract_loop (fs_mid (fs_wr G f q (w @ take n (drop m x)) (r - n)) d tp k (length x) (m + n))
          (tar_mid tar k (length x) (m + n)) f (length x - (m + n))"
      using n by (subst extract_loop.simps) (simp add: n_def[symmetric] r w)
    also have "\<dots> = Some (MTAR_ESUCCESS, tar_mid tar k (length x) (length x),
      fs_mid (fs_wr G f q ((w @ take n (drop m x)) @ drop (m + n) x) (r - n - (length x - (m + n)))) d tp k
        (length x) (length x))"
      by (rule less.hyps) (use n less.prems in auto)
    finally show ?thesis using n d by simp
  qed
qed

definition target :: "bytes \<Rightarrow> bytes \<Rightarrow> bytes" where
  "target dst n = dst @ slash # n"

text \<open>The name of an entry is usable as a path below \<open>dst\<close> in the file system \<open>fs\<close>.\<close>

definition path_ok :: "vfs \<Rightarrow> bytes \<Rightarrow> bytes \<Rightarrow> bytes \<Rightarrow> bool" where
  "path_ok fs tp dst n \<longleftrightarrow>
     length (target dst n) < MAX_PATH \<and> target dst n \<noteq> tp \<and> parent (target dst n) \<noteq> [] \<and>
     last (parent (target dst n)) \<noteq> slash \<and> \<not> dirs fs (target dst n) \<and>
     (\<forall>i. files fs (take i (parent (target dst n))) = None)"

lemma mid_idem:
  assumes "fds fs (stream tar) = Some \<lparr>of_path = tp, of_pos = k\<rparr>"
    and "pos tar = of_nat k" "remaining_data tar = 0"
  shows "fs_mid fs (stream tar) tp k s 0 = fs" "tar_mid tar k s 0 = tar\<lparr>last_header := of_nat k\<rparr>"
  using assms by (simp_all add: fs_mid_def tar_mid_def mid_pos_def fun_upd_idem)

lemma parent_length: "length (parent p) \<le> length p"
  by (simp add: parent_def) (metis diff_le_self length_dropWhile_le length_rev order_trans)

text \<open>The directories of a target are made and the target itself opened, empty.\<close>

lemma target_opened:
  assumes root: "dirs fs []" and p: "path_ok fs tp dst n" and f: "fd_alloc fs = Some f"
  defines "q \<equiv> target dst n"
  shows "\<exists>fs2. mkdir_recursive fs (parent q) = Some fs2 \<and> fopen fs2 q (bs ''wb'') = (f, fs_wr fs2 f q [] (room fs + file_size fs q)) \<and>
    files fs2 = files fs \<and> fds fs2 = fds fs \<and> room fs2 = room fs \<and>
    (\<forall>d. dirs fs d \<longrightarrow> dirs fs2 d) \<and> (\<forall>d. dirs fs2 d \<longrightarrow> dirs fs d \<or> (\<exists>i. d = take i (parent q)))"
proof -
  have sl: "slash \<in> set q" by (simp add: q_def target_def)
  from mkdir_recursive_spec[OF root, of "parent q"] p parent_length[of q] obtain fs2 where
    mk: "mkdir_recursive fs (parent q) = Some fs2" "dirs fs2 (parent q)" and
    fr: "files fs2 = files fs" "fds fs2 = fds fs" "room fs2 = room fs"
      "\<forall>d. dirs fs d \<longrightarrow> dirs fs2 d" "\<forall>d. dirs fs2 d \<longrightarrow> dirs fs d \<or> (\<exists>i. d = take i (parent q))"
    by (auto simp: path_ok_def q_def)
  have qd: "\<not> dirs fs2 q"
  proof
    assume "dirs fs2 q"
    with fr(5) p obtain i where "q = take i (parent q)" by (auto simp: path_ok_def q_def)
    then have "length q \<le> length (parent q)" by (metis length_take min.cobounded1)
    moreover have "length (parent q) < length q"
      using parent_take[of "length q" q] sl by (auto simp: q_def target_def)
    ultimately show False by simp
  qed
  have f2: "fd_alloc fs2 = Some f" using f fr(2) by (simp add: fd_alloc_def)
  have "fopen fs2 q (bs ''wb'') = (f, fs_wr fs2 f q [] (room fs + file_size fs q))"
    using open_w_ok[OF mk(2) qd f2] fr by (simp add: fopen_def modes fs_wr_def file_size_def)
  then show ?thesis using mk fr by blast
qed

lemma untar_one:
  assumes e: "entry_at c k h x" and h: "h_type h = MTAR_TREG" "h_name h = n"
    and tar: "fds fs (stream tar) = Some \<lparr>of_path = tp, of_pos = k\<rparr>" "pos tar = of_nat k" "remaining_data tar = 0"
    and c: "files fs tp = Some c" and root: "dirs fs []" and p: "path_ok fs tp dst n"
    and f: "fd_alloc fs = Some f" and rm: "length x \<le> room fs"
    and b: "k + raw_size + length x + pad (length x) < 2 ^ 31"
  defines "q \<equiv> target dst n"
  shows "\<exists>fs' tar'. untar_body dst (fs, tar, h0) = Some (Inr (fs', tar', h)) \<and>
     files fs' = (files fs)(q \<mapsto> x) \<and>
     (\<forall>d. dirs fs' d \<longrightarrow> dirs fs d \<or> (\<exists>i. d = take i (parent q))) \<and> (\<forall>d. dirs fs d \<longrightarrow> dirs fs' d) \<and>
     fds fs' = (fds fs)(stream tar \<mapsto> \<lparr>of_path = tp, of_pos = k + raw_size + length x + pad (length x)\<rparr>) \<and>
     room fs \<le> room fs' + length x \<and> stream tar' = stream tar \<and>
     pos tar' = of_nat (k + raw_size + length x + pad (length x)) \<and> remaining_data tar' = 0"
proof -
  note rh = entry_read_header[OF e tar(1) c tar(2), of h0]
  from p have full: "snprintf MAX_PATH (dst @ slash # n) = q"
    by (auto simp: snprintf_def path_ok_def q_def target_def MAX_PATH_def)
  have sl: "slash \<in> set q" by (simp add: q_def target_def)
  note fd = fd_alloc_SomeD[OF f]
  define r where "r = room fs + file_size fs q"
  obtain fs2 where mk: "mkdir_recursive fs (parent q) = Some fs2" and op: "fopen fs2 q (bs ''wb'') = (f, fs_wr fs2 f q [] r)" and
    fr: "files fs2 = files fs" "fds fs2 = fds fs" "room fs2 = room fs"
      "\<forall>d. dirs fs d \<longrightarrow> dirs fs2 d" "\<forall>d. dirs fs2 d \<longrightarrow> dirs fs d \<or> (\<exists>i. d = take i (parent q))"
    using target_opened[OF root p f] unfolding q_def r_def by blast
  define d where "d = stream tar"
  have ne: "d \<noteq> f" "tp \<noteq> q" using tar(1) fd p by (auto simp: d_def path_ok_def q_def)
  have sz: "h_size h = Some (of_nat (length x))" using e by (simp add: entry_at_def)
  have ns: "nat (sint (of_nat (length x) :: u32)) = length x" using b by (simp add: sint_of_nat_u32)
  define G where "G = fs_wr fs2 f q [] r"
  have Gd: "fds G (stream tar) = Some \<lparr>of_path = tp, of_pos = k\<rparr>"
    using tar(1) ne fr by (simp add: G_def fs_wr_def d_def)
  define tar1 where "tar1 = tar\<lparr>last_header := of_nat k\<rparr>"
  define tar2 where "tar2 = tar_mid tar k (length x) (length x)"
  define F where "F = fs_mid (fs_wr fs2 f q x (r - length x)) d tp k (length x) (length x)"
  have ex: "extract_loop G tar1 f (length x) = Some (MTAR_ESUCCESS, tar2, F)"
  proof -
    have "files fs2 tp = Some c" using c fr(1) by simp
    moreover have "length x - 0 \<le> r" using rm by (simp add: r_def)
    ultimately have "extract_loop (fs_mid G d tp k (length x) 0) (tar_mid tar k (length x) 0) f (length x - 0) =
        Some (MTAR_ESUCCESS, tar2, F)"
      using extract_loop_eq[OF e _ ne d_def[symmetric], of fs2 0 r "[]"]
      by (simp only: G_def tar2_def F_def le0 append_Nil drop_0 diff_zero)
    then show ?thesis by (simp only: mid_idem[OF Gd tar(2,3)] tar1_def d_def diff_zero)
  qed
  define F2 where "F2 = vclose F f"
  have st2: "stream tar2 = d" "pos tar2 = of_nat k" "remaining_data tar2 = 0"
    by (simp_all add: tar2_def tar_mid_def mid_pos_def d_def)
  have F2: "fds F2 = fds fs" "files F2 = (files fs)(q \<mapsto> x)" "dirs F2 = dirs fs2" "room F2 = r - length x"
  proof -
    show "fds F2 = fds fs"
      by (rule ext) (use fd fr(2) ne(1) tar(1) in
        \<open>simp add: F2_def F_def vclose_def fs_mid_def fs_wr_def mid_pos_def d_def\<close>)
  qed (simp_all add: F2_def F_def vclose_def fs_mid_def fs_wr_def fr(1))
  have nx: "mtar_next F2 tar2 = Some (MTAR_ESUCCESS,
      tar2\<lparr>last_header := of_nat k, pos := of_nat (k + raw_size + length x + pad (length x))\<rparr>,
      F2\<lparr>fds := (fds F2)(stream tar2 \<mapsto> \<lparr>of_path = tp, of_pos = k + raw_size + length x + pad (length x)\<rparr>)\<rparr>)"
    by (rule next_at[OF e]) (use F2 st2 tar(1) c ne b in \<open>simp_all add: d_def\<close>)
  have "untar_body dst (fs, tar, h0) = Some (Inr
      (F2\<lparr>fds := (fds F2)(stream tar2 \<mapsto> \<lparr>of_path = tp, of_pos = k + raw_size + length x + pad (length x)\<rparr>)\<rparr>,
       tar2\<lparr>last_header := of_nat k, pos := of_nat (k + raw_size + length x + pad (length x))\<rparr>, h))"
    using fd nx
    by (simp add: untar_body_def rh h full sl mk op sz ns ex G_def[symmetric] tar1_def[symmetric]
        F2_def[symmetric] Let_def del: of_nat_add)
  then show ?thesis
    using F2 st2 fr(4,5) by (auto simp: d_def r_def)
qed

section \<open>Unpacking an archive\<close>

definition paths_ok :: "vfs \<Rightarrow> bytes \<Rightarrow> bytes \<Rightarrow> (bytes \<times> bytes) list \<Rightarrow> bool" where
  "paths_ok fs tp dst es \<longleftrightarrow>
     (\<forall>e \<in> set es. entry_ok e \<and> path_ok fs tp dst (fst e)) \<and>
     (\<forall>e \<in> set es. \<forall>e' \<in> set es. \<forall>i. target dst (fst e) \<noteq> take i (parent (target dst (fst e'))))"

definition extracted :: "bytes \<Rightarrow> (bytes \<times> bytes) list \<Rightarrow> bytes \<rightharpoonup> bytes" where
  "extracted dst es = map_of (rev (map (\<lambda>e. (target dst (fst e), snd e)) es))"

lemma extracted_Cons: "m ++ extracted dst (e # es) = m(target dst (fst e) \<mapsto> snd e) ++ extracted dst es"
  by (simp add: extracted_def)

lemma fd_alloc_cong: "(\<And>d. fds fs d = None \<longleftrightarrow> fds fs' d = None) \<Longrightarrow> fd_alloc fs = fd_alloc fs'"
  by (simp add: fd_alloc_def)

lemma paths_ok_step:
  assumes p: "paths_ok fs tp dst (e # es)"
    and f: "files fs' = (files fs)(target dst (fst e) \<mapsto> x)"
    and d: "\<forall>d. dirs fs' d \<longrightarrow> dirs fs d \<or> (\<exists>i. d = take i (parent (target dst (fst e))))"
  shows "paths_ok fs' tp dst es"
proof -
  have ne: "target dst (fst a) \<noteq> take i (parent (target dst (fst b)))" if "a \<in> set (e # es)" "b \<in> set (e # es)" for a b i
    using p that unfolding paths_ok_def by blast
  have "path_ok fs' tp dst (fst b)" if "b \<in> set es" for b
  proof -
    have b: "path_ok fs tp dst (fst b)" using p that by (simp add: paths_ok_def)
    have "\<not> dirs fs' (target dst (fst b))"
      using d b ne[of b e] that by (auto simp: path_ok_def)
    moreover have "files fs' (take i (parent (target dst (fst b)))) = None" for i
      using b ne[of e b i] that by (auto simp: path_ok_def f)
    ultimately show ?thesis using b by (simp add: path_ok_def)
  qed
  then show ?thesis using p unfolding paths_ok_def by auto
qed

lemma untar_loop:
  assumes "paths_ok fs tp dst es" and "length (pre @ archive es) < 2 ^ 31"
    and "files fs tp = Some (pre @ archive es)" and "dirs fs []"
    and "fds fs (stream tar) = Some \<lparr>of_path = tp, of_pos = length pre\<rparr>" and "pos tar = of_nat (length pre)"
    and "remaining_data tar = 0" and "fd_alloc fs = Some f"
    and "sum_list (map (\<lambda>e. length (snd e)) es) \<le> room fs" and "length es < fuel"
  shows "\<exists>fs'. run_loop fuel (untar_body dst) (fs, tar, h0) = Some (Inl (0, fs')) \<and>
    files fs' = files fs ++ extracted dst es \<and> fds fs' = (fds fs)(stream tar := None)"
  using assms
proof (induction es arbitrary: pre fs tar h0 fuel)
  case Nil
  then obtain k where fuel: "fuel = Suc k" by (cases fuel) auto
  have "mtar_read_header fs tar h0 = Some (MTAR_ENULLRECORD, h0, tar\<lparr>last_header := pos tar\<rparr>, fs)"
    using Nil.prems
    by (intro read_header_at[of fs tar "\<lparr>of_path = tp, of_pos = length pre\<rparr>" "pre @ archive []"])
       (simp_all add: archive_def raw_size_def null_header)
  then show ?case
    by (simp add: fuel untar_body_def mtar_close_def file_close_def vclose_def extracted_def fun_upd_def)
next
  case (Cons e es)
  obtain n x where e: "e = (n, x)" by (cases e)
  from Cons.prems(10) obtain k where fuel: "fuel = Suc k" "length es < k" by (cases fuel) auto
  have ok: "entry_ok (n, x)" and pk: "path_ok fs tp dst n"
    using Cons.prems(1) by (simp_all add: paths_ok_def e)
  define pre' where "pre' = pre @ entry_bytes (n, x)"
  have c: "pre @ archive (e # es) = pre' @ archive es" by (simp add: pre'_def archive_def e)
  have at: "entry_at (pre @ archive (e # es)) (length pre) (file_hdr n (length x)) x"
    using entry_at_bytes[OF ok, of pre "archive es"] Cons.prems(2) by (simp add: archive_def e)
  have len: "length pre + raw_size + length x + pad (length x) = length pre'"
    by (simp add: pre'_def entry_bytes_length[OF ok])
  have b: "length pre + raw_size + length x + pad (length x) < 2 ^ 31"
    using Cons.prems(2) unfolding len c by simp
  have rm: "length x \<le> room fs" using Cons.prems(9) by (simp add: e)
  from untar_one[OF at _ _ Cons.prems(5-7,3,4) pk Cons.prems(8) rm b, of h0] obtain fs' tar' where
    st: "untar_body dst (fs, tar, h0) = Some (Inr (fs', tar', file_hdr n (length x)))"
    and fl: "files fs' = (files fs)(target dst n \<mapsto> x)"
    and dr: "\<forall>d. dirs fs' d \<longrightarrow> dirs fs d \<or> (\<exists>i. d = take i (parent (target dst n)))" "\<forall>d. dirs fs d \<longrightarrow> dirs fs' d"
    and fd: "fds fs' = (fds fs)(stream tar \<mapsto> \<lparr>of_path = tp, of_pos = length pre'\<rparr>)"
    and rr: "room fs \<le> room fs' + length x"
    and t': "stream tar' = stream tar" "pos tar' = of_nat (length pre')" "remaining_data tar' = 0"
    unfolding len by (auto simp: file_hdr_def)
  have "paths_ok fs' tp dst es" using paths_ok_step[OF Cons.prems(1), of fs' x] fl dr(1) by (simp add: e)
  moreover have "length (pre' @ archive es) < 2 ^ 31" using Cons.prems(2) by (simp only: c)
  moreover have "files fs' tp = Some (pre' @ archive es)"
    using Cons.prems(3) c pk by (auto simp: fl path_ok_def)
  moreover have "dirs fs' []" using dr(2) Cons.prems(4) by blast
  moreover have "fd_alloc fs' = Some f"
    using Cons.prems(5,8) fd_alloc_cong[of fs' fs] by (simp add: fd)
  moreover have "sum_list (map (\<lambda>e. length (snd e)) es) \<le> room fs'"
    using Cons.prems(9) rr by (simp add: e)
  ultimately have "\<exists>fs''. run_loop k (untar_body dst) (fs', tar', file_hdr n (length x)) = Some (Inl (0, fs'')) \<and>
    files fs'' = files fs' ++ extracted dst es \<and> fds fs'' = (fds fs')(stream tar' := None)"
    using t' fuel(2) by (intro Cons.IH) (simp_all add: fd)
  then show ?case
    using fl fd t' by (auto simp: fuel st e extracted_Cons)
qed

text \<open>
  The archive whose header announces a size just below \<open>2 ^ 32\<close>: stepping over it wraps around to
  the header itself.
\<close>

definition stuck_hdr :: mtar_header_t where
  "stuck_hdr = file_hdr [97] 0\<lparr>h_type := MTAR_TDIR, h_size := Some 0xFFFFFE00\<rparr>"

definition stuck_raw :: bytes where
  "stuck_raw = (case header_to_raw stuck_hdr of None \<Rightarrow> [] | Some rh \<Rightarrow> raw_bytes rh)"

lemma stuck_raw_props:
  "length stuck_raw = raw_size" "raw_to_header h0 (raw_of_bytes stuck_raw) = Some (MTAR_ESUCCESS, stuck_hdr)"
proof -
  have ok: "hdr_ok stuck_hdr" by (simp add: hdr_ok_def stuck_hdr_def file_hdr_def MTAR_TDIR_def)
  from header_roundtrip[OF ok] obtain rh where
    rh: "header_to_raw stuck_hdr = Some rh" "raw_wf rh" by blast
  from header_roundtrip[OF ok, of h0] rh have "raw_to_header h0 rh = Some (MTAR_ESUCCESS, stuck_hdr)" by auto
  with rh show "length stuck_raw = raw_size"
    "raw_to_header h0 (raw_of_bytes stuck_raw) = Some (MTAR_ESUCCESS, stuck_hdr)"
    using raw_bytes_length[of rh] raw_of_raw_bytes[of rh "[]"] by (simp_all add: stuck_raw_def)
qed

definition stuck_inv :: "bytes \<Rightarrow> int \<Rightarrow> vfs \<times> mtar_t \<times> mtar_header_t \<Rightarrow> bool" where
  "stuck_inv tp d s \<longleftrightarrow> (case s of (fs, tar, h) \<Rightarrow>
     stream tar = d \<and> pos tar = 0 \<and> fds fs d = Some \<lparr>of_path = tp, of_pos = 0\<rparr> \<and> files fs tp = Some stuck_raw)"

lemma stuck_step:
  assumes "stuck_inv tp d s"
  shows "\<exists>s'. untar_body dst s = Some (Inr s') \<and> stuck_inv tp d s'"
proof -
  obtain fs tar h0 where s: "s = (fs, tar, h0)" by (cases s)
  from assms have i: "stream tar = d" "pos tar = 0" "fds fs d = Some \<lparr>of_path = tp, of_pos = 0\<rparr>"
    "files fs tp = Some stuck_raw" by (simp_all add: stuck_inv_def s)
  have rh: "mtar_read_header fs t h = Some (MTAR_ESUCCESS, stuck_hdr, t\<lparr>last_header := 0\<rparr>, fs)"
    if "stream t = d" "pos t = 0" for t h
    using read_header_at[of fs t "\<lparr>of_path = tp, of_pos = 0\<rparr>" stuck_raw h] that i stuck_raw_props by simp
  have ru: "round_up 0xFFFFFE00 512 + of_nat raw_size = (0 :: u32)"
    by (simp add: round_up_def raw_size_def)
  have sg: "nat (sint (0xFFFFFE00 :: u32)) = 0" by simp
  define tar1 where "tar1 = tar\<lparr>last_header := 0\<rparr>"
  have "mtar_next fs tar1 = Some (MTAR_ESUCCESS, tar1, fs)"
    using rh[of tar1] ru mtar_seek_eq[of fs tar1 "\<lparr>of_path = tp, of_pos = 0\<rparr>" 0] i
    by (simp add: mtar_next_def tar1_def stuck_hdr_def fun_upd_idem)
  then have "untar_body dst s = Some (Inr (fs, tar1, stuck_hdr))"
    using rh[OF i(1,2)] sg
    by (simp add: untar_body_def s tar1_def[symmetric] stuck_hdr_def skip_loop.simps MTAR_TREG_def MTAR_TDIR_def Let_def)
  then show ?thesis using i by (simp add: stuck_inv_def tar1_def)
qed

section \<open>JSON text\<close>

lemma find_json_loop_spec:
  "i + n \<le> length buffer \<Longrightarrow> find_json_loop buffer i n =
   Some (if 123 \<in> set (take n (drop i buffer))
         then Some (i + length (takeWhile (\<lambda>b. b \<noteq> 123) (take n (drop i buffer)))) else None)"
proof (induction n arbitrary: i)
  case (Suc n)
  from Suc.prems have d: "drop i buffer = buffer ! i # drop (Suc i) buffer"
    by (intro Cons_nth_drop_Suc[symmetric]) simp
  show ?case
    using Suc.IH[of "Suc i"] Suc.prems by (auto simp: load_def d)
qed simp

lemma untar_archive:
  assumes "es \<noteq> []" and "paths_ok fs tp dst es" and "length (archive es) < 2 ^ 31"
    and "files fs tp = Some (archive es)" and "dirs fs []"
    and "fd_alloc fs = Some d" and "fd_alloc (fs\<lparr>fds := (fds fs)(d \<mapsto> \<lparr>of_path = tp, of_pos = 0\<rparr>)\<rparr>) = Some f"
    and "sum_list (map (\<lambda>e. length (snd e)) es) \<le> room fs" and "length es < fuel"
  shows "\<exists>fs'. untar fuel fs tp dst = Some (Inl (0, fs')) \<and>
    files fs' = files fs ++ extracted dst es \<and> fds fs' = fds fs"
proof -
  define fs1 where "fs1 = fs\<lparr>fds := (fds fs)(d \<mapsto> \<lparr>of_path = tp, of_pos = 0\<rparr>)\<rparr>"
  define tar where "tar = \<lparr>stream = d, pos = 0, remaining_data = 0, last_header = 0 :: u32\<rparr>"
  have ok: "\<And>e. e \<in> set es \<Longrightarrow> entry_ok e" using assms(2) by (simp add: paths_ok_def)
  have o: "mtar_open fs tp (bs ''r'') = Some (MTAR_ESUCCESS, tar, fs1)"
    using open_archive[OF assms(1) ok assms(3,4,6)] by (simp add: tar_def fs1_def)
  have "paths_ok fs1 tp dst es" using assms(2) by (simp add: paths_ok_def path_ok_def fs1_def)
  then have "\<exists>fs'. run_loop fuel (untar_body dst) (fs1, tar, mtar_header_uninit) = Some (Inl (0, fs')) \<and>
      files fs' = files fs1 ++ extracted dst es \<and> fds fs' = (fds fs1)(stream tar := None)"
    using untar_loop[of fs1 tp dst es "[]" tar f fuel mtar_header_uninit] assms(3-5,7-9)
    by (simp add: fs1_def[symmetric]) (simp add: fs1_def tar_def)
  moreover have "(fds fs1)(stream tar := None) = fds fs"
    using fd_alloc_SomeD[OF assms(6)] by (simp add: fs1_def tar_def fun_upd_idem)
  ultimately show ?thesis by (simp add: untar_def o) (simp add: fs1_def)
qed

section \<open>Properties\<close>


definition un_fs :: vfs where
  "un_fs = \<lparr>files = [[47, 116] \<mapsto> archive [([97], [1, 2, 3])]], dirs = (\<lambda>p. p = []), fds = Map.empty,
     room = 65536\<rparr>"

lemma un_fs_paths: "paths_ok un_fs [47, 116] [47, 100] [([97], [1, 2, 3])]"
proof -
  have p: "parent (target [47, 100] [97]) = [47, 100]" by (simp add: target_def parent_def slash_def)
  have t: "take i [47, 100 :: u8] \<noteq> [47, 116]" "take i [47, 100 :: u8] \<noteq> [47, 100, 47, 97]" for i
    by (cases i; cases "i - 1"; simp)+
  then show ?thesis
    using p by (simp add: paths_ok_def path_ok_def entry_ok_def un_fs_def target_def slash_def MAX_PATH_def)
       (metis t(2))
qed


text \<open>
  C25. \<open>untar\<close> is not total: on the 512-byte archive whose only header announces \<open>0xFFFFFE00\<close> bytes,
  the size is taken as negative, so nothing is skipped, and stepping over it wraps around to the
  same header; however many rounds it is given, it is still in its loop.
\<close>

theorem untar_hangs:
  assumes "files fs tp = Some stuck_raw" and "fd_alloc fs \<noteq> None"
  shows "\<exists>s. untar fuel fs tp dst = Some (Inr s)"
proof -
  from assms(2) obtain d where d: "fd_alloc fs = Some d" by blast
  define fs1 where "fs1 = fs\<lparr>fds := (fds fs)(d \<mapsto> \<lparr>of_path = tp, of_pos = 0\<rparr>)\<rparr>"
  define tar where "tar = \<lparr>stream = d, pos = 0, remaining_data = 0, last_header = 0 :: u32\<rparr>"
  have f: "fopen fs tp (bs ''rb'') = (d, fs1)"
    by (simp add: fopen_def open_r_ok[OF assms(1) d] fs1_def)
  have "mtar_read_header fs1 tar mtar_header_uninit = Some (MTAR_ESUCCESS, stuck_hdr, tar, fs1)"
    using read_header_at[of fs1 tar "\<lparr>of_path = tp, of_pos = 0\<rparr>" stuck_raw mtar_header_uninit] assms(1)
      stuck_raw_props by (simp add: fs1_def tar_def)
  then have o: "mtar_open fs tp (bs ''r'') = Some (MTAR_ESUCCESS, tar, fs1)"
    using fd_alloc_SomeD[OF d] by (simp add: mtar_open_def modes f tar_def[symmetric] Let_def)
  have "stuck_inv tp d (fs1, tar, mtar_header_uninit)"
    using assms(1) by (simp add: stuck_inv_def tar_def fs1_def)
  from run_loop_forever[of "stuck_inv tp d" "untar_body dst", OF stuck_step this]
  show ?thesis by (fastforce simp: untar_def o)
qed

theorem untar_hangs_witness:
  "\<exists>s. untar 1000 (tar_fs\<lparr>files := [[47, 116] \<mapsto> stuck_raw]\<rparr>) [47, 116] [47] = Some (Inr s)"
  by (rule untar_hangs) (simp_all add: tar_fs_def fd_alloc_def fd_list_def)

text \<open>
  The two JSON helpers read only the bytes they are given. \<open>is_json\<close> holds exactly for texts of
  at least two bytes in matching braces or brackets, and \<open>find_json_start\<close> finds the first opening
  brace.
\<close>

theorem json_text_helpers:
  assumes "len \<le> length d"
  shows "is_json (Some d) len = Some (2 \<le> len \<and>
      ((d ! 0 = 123 \<and> d ! (len - 1) = 125) \<or> (d ! 0 = 91 \<and> d ! (len - 1) = 93))) \<and>
    find_json_start d (int len) = Some (if 123 \<in> set (take len d)
      then Some (length (takeWhile (\<lambda>b. b \<noteq> 123) (take len d))) else None)"
  using assms find_json_loop_spec[of 0 len d]
  by (auto simp: is_json_def load_def find_json_start_def)

theorem json_text_helpers_witness:
  "is_json (Some [32, 123, 125]) 3 = Some (2 \<le> (3 :: nat) \<and>
      (([32, 123, 125 :: u8] ! 0 = 123 \<and> [32, 123, 125 :: u8] ! (3 - 1) = 125) \<or>
       ([32, 123, 125 :: u8] ! 0 = 91 \<and> [32, 123, 125 :: u8] ! (3 - 1) = 93))) \<and>
    find_json_start [32, 123, 125] (int 3) = Some (if 123 \<in> set (take 3 [32, 123, 125 :: u8])
      then Some (length (takeWhile (\<lambda>b. b \<noteq> 123) (take 3 [32, 123, 125 :: u8]))) else None)"
  by (rule json_text_helpers) simp

end
