(* ===== verification/Json.thy ===== *)
theory Json
  imports Prelude Complex_Main
begin

text \<open>
  The JSON trees of cJSON as far as the firmware builds and reads them. Numbers are rationals
  (every finite double is one). Printing and parsing are left to cJSON: the functions that use them
  take them as arguments.
\<close>

datatype cjson =
    JNull
  | JBool bool
  | JNum rat
  | JStr bytes
  | JArr "cjson list"
  | JObj "(bytes \<times> cjson) list"

definition to_lower :: "u8 \<Rightarrow> u8" where
  "to_lower b = (if 65 \<le> b \<and> b \<le> 90 then b + 32 else b)"

definition same_name :: "bytes \<Rightarrow> bytes \<Rightarrow> bool" where
  "same_name a b \<longleftrightarrow> map to_lower a = map to_lower b"

text \<open>\<open>cJSON_GetObjectItem\<close> compares names without regard to case; \<open>None\<close> is the null pointer.\<close>

fun cJSON_GetObjectItem :: "cjson \<Rightarrow> bytes \<Rightarrow> cjson option" where
  "cJSON_GetObjectItem (JObj ms) name =
     map_option snd (List.find (\<lambda>(n, _). same_name name n) ms)"
| "cJSON_GetObjectItem _ name = None"

text \<open>The member \<open>valueint\<close>: the number truncated and limited to the range of \<open>int\<close>.\<close>

definition trunc :: "rat \<Rightarrow> int" where
  "trunc q = (if 0 \<le> q then \<lfloor>q\<rfloor> else \<lceil>q\<rceil>)"

fun valueint :: "cjson \<Rightarrow> int" where
  "valueint (JNum q) =
     (if q \<ge> 2147483647 then 2147483647 else if q \<le> -2147483648 then -2147483648 else trunc q)"
| "valueint (JBool b) = (if b then 1 else 0)"
| "valueint _ = 0"

text \<open>The members \<open>valuedouble\<close> and \<open>valuestring\<close>; the latter is null except in strings.\<close>

fun valuedouble :: "cjson \<Rightarrow> rat" where
  "valuedouble (JNum q) = q"
| "valuedouble _ = 0"

fun valuestring :: "cjson \<Rightarrow> bytes option" where
  "valuestring (JStr s) = Some s"
| "valuestring _ = None"

fun children :: "cjson \<Rightarrow> cjson list" where
  "children (JArr xs) = xs"
| "children (JObj ms) = map snd ms"
| "children _ = []"

text \<open>The array functions accept the null pointer.\<close>

definition cJSON_GetArraySize :: "cjson option \<Rightarrow> nat" where
  "cJSON_GetArraySize a = (case a of None \<Rightarrow> 0 | Some j \<Rightarrow> length (children j))"

definition cJSON_GetArrayItem :: "cjson option \<Rightarrow> nat \<Rightarrow> cjson option" where
  "cJSON_GetArrayItem a i =
     (case a of None \<Rightarrow> None | Some j \<Rightarrow> if i < length (children j) then Some (children j ! i) else None)"

text \<open>Dereferencing the result of \<open>cJSON_GetObjectItem\<close>: \<open>None\<close> if it is the null pointer.\<close>

definition get_int :: "cjson \<Rightarrow> bytes \<Rightarrow> int option" where
  "get_int j name = map_option valueint (cJSON_GetObjectItem j name)"

definition get_string :: "cjson \<Rightarrow> bytes \<Rightarrow> bytes option" where
  "get_string j name = do { x \<leftarrow> cJSON_GetObjectItem j name; valuestring x }"

definition num :: "int \<Rightarrow> cjson" where
  "num i = JNum (of_int i)"

lemma valueint_num: "- (2 ^ 31) < i \<Longrightarrow> i < 2 ^ 31 \<Longrightarrow> valueint (num i) = i"
proof -
  assume i: "- (2 ^ 31) < i" "i < 2 ^ 31"
  have "(2147483647 \<le> (of_int i :: rat)) = (2147483647 \<le> i)"
    using of_int_le_iff[of 2147483647 i, where 'a = rat] by simp
  moreover have "((of_int i :: rat) \<le> -2147483648) = (i \<le> -2147483648)"
    using of_int_le_iff[of i "-2147483648", where 'a = rat] by simp
  ultimately show "valueint (num i) = i"
    using i by (auto simp: num_def trunc_def)
qed

lemma get_object_item_Cons: "cJSON_GetObjectItem (JObj ((n, j) # ms)) name =
  (if same_name name n then Some j else cJSON_GetObjectItem (JObj ms) name)"
  by simp

end
