(* ===== verification/Weather.thy ===== *)
theory Weather
  imports Prelude
begin

text \<open>
  Weather codes (\<^verbatim>\<open>src/applications/weather\<close>), the icon chosen for a code
  (\<open>get_weather_icon_suffix\<close> of \<^verbatim>\<open>src/applications/lvgl/lv_port_indev.c\<close>), and the memory layout of the
  seven-day forecast, which the network code fills as raw bytes.
\<close>

section \<open>Codes and icons\<close>

datatype weather_type_t =
  WEATHER_QING | WEATHER_DUOYUN | WEATHER_YIN | WEATHER_ZHENYU | WEATHER_XIAOYU | WEATHER_ZHONGYU |
  WEATHER_DAYU | WEATHER_BAOYU | WEATHER_LEIYU | WEATHER_LEIBAO | WEATHER_YUJIAXUE |
  WEATHER_BINGJING | WEATHER_XIAOXUE | WEATHER_ZHONGXUE | WEATHER_DAXUE | WEATHER_BAOXUE |
  WEATHER_ZHENXUE | WEATHER_XUEMI | WEATHER_QINGWU | WEATHER_ZHONGWU | WEATHER_DAWU | WEATHER_MAI |
  WEATHER_YANGSHA | WEATHER_FUCHEN | WEATHER_SHACHENBAO | WEATHER_RE | WEATHER_LENG | WEATHER_UNKNOWN

definition weather_enum :: "weather_type_t list" where
  "weather_enum =
    [WEATHER_QING, WEATHER_DUOYUN, WEATHER_YIN, WEATHER_ZHENYU, WEATHER_XIAOYU,
     WEATHER_ZHONGYU, WEATHER_DAYU, WEATHER_BAOYU, WEATHER_LEIYU, WEATHER_LEIBAO,
     WEATHER_YUJIAXUE, WEATHER_BINGJING, WEATHER_XIAOXUE, WEATHER_ZHONGXUE, WEATHER_DAXUE,
     WEATHER_BAOXUE, WEATHER_ZHENXUE, WEATHER_XUEMI, WEATHER_QINGWU, WEATHER_ZHONGWU,
     WEATHER_DAWU, WEATHER_MAI, WEATHER_YANGSHA, WEATHER_FUCHEN, WEATHER_SHACHENBAO,
     WEATHER_RE, WEATHER_LENG, WEATHER_UNKNOWN]"

definition WEATHER_TYPE_COUNT :: nat where
  "WEATHER_TYPE_COUNT = 28"

definition weather_map :: "(u32 \<times> weather_type_t) list" where
  "weather_map =
    [(100, WEATHER_QING), (101, WEATHER_DUOYUN), (102, WEATHER_DUOYUN), (103, WEATHER_DUOYUN),
     (104, WEATHER_YIN), (150, WEATHER_QING), (153, WEATHER_DUOYUN), (154, WEATHER_YIN),
     (300, WEATHER_ZHENYU), (301, WEATHER_ZHENYU), (302, WEATHER_LEIYU), (303, WEATHER_LEIBAO),
     (304, WEATHER_BAOYU), (305, WEATHER_XIAOYU), (306, WEATHER_ZHONGYU), (307, WEATHER_DAYU),
     (308, WEATHER_BAOYU), (309, WEATHER_XIAOYU), (310, WEATHER_BAOYU), (311, WEATHER_BAOYU),
     (312, WEATHER_BAOYU), (313, WEATHER_BINGJING), (314, WEATHER_XIAOYU),
     (315, WEATHER_ZHONGYU), (316, WEATHER_DAYU), (317, WEATHER_BAOYU), (318, WEATHER_BAOYU),
     (399, WEATHER_XIAOYU), (350, WEATHER_ZHENYU), (351, WEATHER_ZHENYU),
     (400, WEATHER_XIAOXUE), (401, WEATHER_ZHONGXUE), (402, WEATHER_DAXUE),
     (403, WEATHER_BAOXUE), (404, WEATHER_YUJIAXUE), (405, WEATHER_YUJIAXUE),
     (406, WEATHER_YUJIAXUE), (407, WEATHER_XIAOXUE), (408, WEATHER_XIAOXUE),
     (409, WEATHER_ZHONGXUE), (410, WEATHER_DAXUE), (499, WEATHER_XIAOXUE),
     (456, WEATHER_YUJIAXUE), (457, WEATHER_XIAOXUE), (500, WEATHER_QINGWU),
     (501, WEATHER_ZHONGWU), (502, WEATHER_MAI), (503, WEATHER_YANGSHA), (504, WEATHER_FUCHEN),
     (507, WEATHER_SHACHENBAO), (508, WEATHER_SHACHENBAO), (509, WEATHER_DAWU),
     (510, WEATHER_DAWU), (511, WEATHER_MAI), (512, WEATHER_MAI), (513, WEATHER_MAI),
     (514, WEATHER_DAWU), (515, WEATHER_DAWU), (900, WEATHER_RE), (901, WEATHER_LENG),
     (999, WEATHER_UNKNOWN)]"

fun get_weather_type_loop :: "(u32 \<times> weather_type_t) list \<Rightarrow> u32 \<Rightarrow> weather_type_t" where
  "get_weather_type_loop [] code = WEATHER_UNKNOWN"
| "get_weather_type_loop ((c, t) # m) code = (if c = code then t else get_weather_type_loop m code)"

definition get_weather_type :: "u32 \<Rightarrow> weather_type_t" where
  "get_weather_type code = get_weather_type_loop weather_map code"

text \<open>The number of an enumeration constant.\<close>

definition weather_ord :: "weather_type_t \<Rightarrow> nat" where
  "weather_ord t = length (takeWhile (\<lambda>x. x \<noteq> t) weather_enum)"

definition weather_icons :: "string list" where
  "weather_icons =
    [''qing'', ''duoyun'', ''yin'', ''zhenyu'', ''xiaoyu'', ''zhongyu'', ''dayu'', ''baoyu'',
     ''leiyu'', ''leibao'', ''yujiayue'', ''bingjing'', ''xiaoxue'', ''zhongxue'', ''daxue'',
     ''baoxue'', ''zhenxue'', ''xuemi'', ''qingwu'', ''zhongwu'', ''dawu'', ''mai'',
     ''yangsha'', ''fuchen'', ''shachenbao'', ''re'', ''leng'', ''qing'']"

text \<open>\<open>None\<close> would be a read past the end of the icon table.\<close>

definition get_weather_icon_suffix :: "u32 \<Rightarrow> string option" where
  "get_weather_icon_suffix icon_code =
     (let curweather = weather_ord (get_weather_type icon_code) in
      if curweather < WEATHER_TYPE_COUNT then load weather_icons curweather else Some ''qing'')"

section \<open>The forecast in memory\<close>

text \<open>
  Offsets within \<open>weather_info_t\<close> with the natural alignment of its members; the structure has
  168 bytes and the configuration holds seven of them.
\<close>

definition sizeof_weather_info :: nat where
  "sizeof_weather_info = 168"

definition off_tempMax :: nat where
  "off_tempMax = 55"

definition off_tempMin :: nat where
  "off_tempMin = 56"

definition off_iconDay :: nat where
  "off_iconDay = 57"

definition off_textDay :: nat where
  "off_textDay = 61"

text \<open>A string read from memory: \<open>None\<close> if it does not end within the block.\<close>

definition str_at :: "bytes \<Rightarrow> nat \<Rightarrow> bytes option" where
  "str_at m off = (let s = drop off m in if 0 \<in> set s then Some (c_str s) else None)"

text \<open>\<open>strcpy\<close> into an array of \<open>k\<close> bytes at \<open>off\<close>.\<close>

definition strcpy_at :: "bytes \<Rightarrow> nat \<Rightarrow> nat \<Rightarrow> bytes \<Rightarrow> bytes option" where
  "strcpy_at m off k s = (if length s < k then memcpy m off (s @ [0]) 0 (length s + 1) else None)"

lemma str_at_strcpy:
  assumes "strcpy_at m off k s = Some m'" and "0 \<notin> set s"
  shows "str_at m' off = Some s"
proof -
  from assms(1) have b: "off + length s + 1 \<le> length m"
    and m': "m' = take off m @ s @ 0 # drop (off + length s + 1) m"
    by (auto simp: strcpy_at_def memcpy_def split: if_splits)
  then have "drop off m' = s @ 0 # drop (off + length s + 1) m" by simp
  with assms(2) show ?thesis by (simp add: str_at_def c_str_append_zero)
qed

section \<open>Properties\<close>

lemma weather_ord_lt: "weather_ord t < WEATHER_TYPE_COUNT"
  by (cases t) (simp_all add: weather_ord_def weather_enum_def WEATHER_TYPE_COUNT_def)

lemma lookup_map_of: "get_weather_type_loop m c = (case map_of m c of None \<Rightarrow> WEATHER_UNKNOWN | Some t \<Rightarrow> t)"
  by (induction m c rule: get_weather_type_loop.induct) auto

lemma weather_map_distinct: "distinct (map fst weather_map)"
  by (simp add: weather_map_def)

text \<open>
  Every code of the table is looked up to its own type, every other code to
  \<open>WEATHER_UNKNOWN\<close>, and the icon table covers all types: the icon of any code is an entry of the
  table, the one at the position of the code's type, and an unknown code gets the icon of clear
  weather.
\<close>

theorem weather_lookup:
  "((c, t) \<in> set weather_map \<longrightarrow> get_weather_type c = t) \<and>
   (c \<notin> fst ` set weather_map \<longrightarrow>
      get_weather_type c = WEATHER_UNKNOWN \<and> get_weather_icon_suffix c = Some ''qing'') \<and>
   weather_ord (get_weather_type c) < length weather_icons \<and>
   get_weather_icon_suffix c = Some (weather_icons ! weather_ord (get_weather_type c))"
proof -
  have l: "length weather_icons = WEATHER_TYPE_COUNT"
    by (simp add: weather_icons_def WEATHER_TYPE_COUNT_def)
  have s: "get_weather_icon_suffix c = Some (weather_icons ! weather_ord (get_weather_type c))"
    using weather_ord_lt by (simp add: get_weather_icon_suffix_def load_def l)
  have "get_weather_type c = t" if "(c, t) \<in> set weather_map"
    using that map_of_is_SomeI[OF weather_map_distinct] by (simp add: get_weather_type_def lookup_map_of)
  moreover have u: "get_weather_type c = WEATHER_UNKNOWN" if "c \<notin> fst ` set weather_map"
    using that by (simp add: get_weather_type_def lookup_map_of map_of_eq_None_iff[THEN iffD2])
  moreover have "weather_icons ! weather_ord WEATHER_UNKNOWN = ''qing''"
    by (simp add: weather_icons_def weather_ord_def weather_enum_def)
  ultimately show ?thesis using s weather_ord_lt l by simp
qed

theorem weather_lookup_witness:
  "get_weather_type 302 = WEATHER_LEIYU \<and> get_weather_type 1 = WEATHER_UNKNOWN \<and>
   get_weather_icon_suffix 1 = Some ''qing''"
  using weather_lookup[of 302 WEATHER_LEIYU] weather_lookup[of 1 WEATHER_QING]
  by (simp add: weather_map_def)

end
