(* ===== verification/Config.thy ===== *)
theory Config
  imports Json Weather Vfs
begin

text \<open>
  The device configuration and its file (\<^verbatim>\<open>src/applications/dfs/dfscfg.c\<close>): defaults, conversion to and
  from JSON, reading and writing, and the mounting of the file system. Character arrays are held as
  the strings in them, of which the array sizes bound the length; the forecast is the raw memory of
  seven \<open>weather_info_t\<close>. Functions return \<open>None\<close> where the C code would dereference a null pointer
  or write past the end of an array.
\<close>

section \<open>Data\<close>

record ele_client_cfg_t =
  username :: bytes
  passwd :: bytes
  cityname :: bytes
  cityid :: u32
  cntserver_interval :: u16
  version :: u32
  battery :: u8

record ele_ds_cfg_t =
  clientcfg :: ele_client_cfg_t
  wifi_ssid :: bytes
  wifi_passwd :: bytes
  server_addr :: bytes
  server_port :: u16
  curweather :: nat
  weather_info :: bytes
  memo :: bytes
  tcp_timeout :: u32
  alarm_enable :: bool
  alarm_time :: int
  check :: u32

definition USER_NAME_SIZE :: nat where
  "USER_NAME_SIZE = 21"

definition USER_PASSWD_SIZE :: nat where
  "USER_PASSWD_SIZE = 21"

definition CITY_NAME_SIZE :: nat where
  "CITY_NAME_SIZE = 21"

definition CLIENT_CHEAT_CONTENT_SIZE :: nat where
  "CLIENT_CHEAT_CONTENT_SIZE = 256"

definition sizeof_weather_infos :: nat where
  "sizeof_weather_infos = 7 * sizeof_weather_info"

definition CFGFILE_CHECK :: u32 where
  "CFGFILE_CHECK = 0xA5A5A5A5"

definition SOFT_VERSION :: u32 where
  "SOFT_VERSION = 0x25052801"

definition DEFATLT_CITYID :: u32 where
  "DEFATLT_CITYID = 101010100"

definition SYSFILE_PATH :: bytes where
  "SYSFILE_PATH = bs ''/sysfile''"

definition CONFIG_FILE_PATH :: bytes where
  "CONFIG_FILE_PATH = bs ''/sysfile/config''"

section \<open>Defaults\<close>

definition zero_cfg :: ele_ds_cfg_t where
  "zero_cfg =
     \<lparr>clientcfg = \<lparr>username = [], passwd = [], cityname = [], cityid = 0, cntserver_interval = 0,
        version = 0, battery = 0\<rparr>,
      wifi_ssid = [], wifi_passwd = [], server_addr = [], server_port = 0, curweather = 0,
      weather_info = replicate sizeof_weather_infos 0, memo = [], tcp_timeout = 0,
      alarm_enable = False, alarm_time = 0, check = 0\<rparr>"

definition strncpy :: "nat \<Rightarrow> bytes \<Rightarrow> bytes" where
  "strncpy n s = take n s"

definition init_ele_ds_cfg :: "ele_ds_cfg_t \<Rightarrow> ele_ds_cfg_t" where
  "init_ele_ds_cfg cfg =
     zero_cfg\<lparr>check := CFGFILE_CHECK, server_port := 12675, tcp_timeout := 3 * 1000,
       alarm_enable := False, alarm_time := 0,
       clientcfg := (clientcfg zero_cfg)\<lparr>cityid := DEFATLT_CITYID, version := SOFT_VERSION\<rparr>,
       wifi_ssid := strncpy (32 - 1) (bs ''esp32-2.4G''),
       wifi_passwd := strncpy (32 - 1) (bs ''12345678..''),
       server_addr := strncpy (64 - 1) (bs ''60.215.128.73'')\<rparr>"

section \<open>JSON\<close>

definition weather_item_json :: "bytes \<Rightarrow> nat \<Rightarrow> cjson option" where
  "weather_item_json w i =
     (let o_i = i * sizeof_weather_info in
      do { icon \<leftarrow> str_at w (o_i + off_iconDay);
           text_s \<leftarrow> str_at w (o_i + off_textDay);
           tmax \<leftarrow> load w (o_i + off_tempMax);
           tmin \<leftarrow> load w (o_i + off_tempMin);
           Some (JObj [(bs ''iconDay'', JStr icon), (bs ''textDay'', JStr text_s),
                       (bs ''tempMax'', num (sint tmax)), (bs ''tempMin'', num (sint tmin))]) })"

fun weather_array_json :: "bytes \<Rightarrow> nat \<Rightarrow> nat \<Rightarrow> cjson list option" where
  "weather_array_json w i 0 = Some []"
| "weather_array_json w i (Suc n) =
     do { x \<leftarrow> weather_item_json w i; xs \<leftarrow> weather_array_json w (Suc i) n; Some (x # xs) }"

definition client_json :: "ele_client_cfg_t \<Rightarrow> cjson" where
  "client_json c = JObj
     [(bs ''username'', JStr (username c)), (bs ''passwd'', JStr (passwd c)),
      (bs ''cityname'', JStr (cityname c)), (bs ''cityid'', num (uint (cityid c))),
      (bs ''cntserver_interval'', num (uint (cntserver_interval c))),
      (bs ''version'', num (uint (version c))), (bs ''battery'', num (uint (battery c)))]"

definition cfg_members :: "ele_ds_cfg_t \<Rightarrow> cjson list \<Rightarrow> (bytes \<times> cjson) list" where
  "cfg_members cfg days =
     [(bs ''clientcfg'', client_json (clientcfg cfg)),
      (bs ''wifi_ssid'', JStr (wifi_ssid cfg)), (bs ''wifi_passwd'', JStr (wifi_passwd cfg)),
      (bs ''server_addr'', JStr (server_addr cfg)), (bs ''server_port'', num (uint (server_port cfg))),
      (bs ''tcp_timeout'', num (uint (tcp_timeout cfg))),
      (bs ''alarm_enable'', num (if alarm_enable cfg then 1 else 0)),
      (bs ''alarm_time'', num (alarm_time cfg)), (bs ''memo'', JStr (memo cfg)),
      (bs ''weather_info'', JArr days)]"

definition ele_ds_cfg_to_json :: "ele_ds_cfg_t \<Rightarrow> cjson option" where
  "ele_ds_cfg_to_json cfg =
     do { days \<leftarrow> weather_array_json (weather_info cfg) 0 7; Some (JObj (cfg_members cfg days)) }"

text \<open>\<open>strcpy\<close> of a member's string into a zeroed array of \<open>k\<close> bytes.\<close>

definition copy_string :: "cjson \<Rightarrow> bytes \<Rightarrow> nat \<Rightarrow> bytes option" where
  "copy_string j name k =
     do { s \<leftarrow> get_string j name; if length s < k then Some s else None }"

definition weather_item_load :: "bytes \<Rightarrow> nat \<Rightarrow> cjson \<Rightarrow> bytes option" where
  "weather_item_load w i item =
     (let o_i = i * sizeof_weather_info in
      do { text_s \<leftarrow> get_string item (bs ''textDay'');
           w1 \<leftarrow> strcpy_at w (o_i + off_textDay) 16 text_s;
           icon \<leftarrow> get_string item (bs ''iconDay'');
           w2 \<leftarrow> strcpy_at w1 (o_i + off_iconDay) 4 icon;
           tmax \<leftarrow> get_int item (bs ''tempMax'');
           w3 \<leftarrow> store w2 (o_i + off_tempMax) (of_int tmax);
           tmin \<leftarrow> get_int item (bs ''tempMin'');
           store w3 (o_i + off_tempMin) (of_int tmin) })"

fun weather_array_load :: "bytes \<Rightarrow> nat \<Rightarrow> cjson list \<Rightarrow> bytes option" where
  "weather_array_load w i [] = Some w"
| "weather_array_load w i (item # items) =
     (if i < 7 then do { w1 \<leftarrow> weather_item_load w i item; weather_array_load w1 (Suc i) items }
      else Some w)"

definition json_to_ele_ds_cfg :: "cjson \<Rightarrow> ele_ds_cfg_t option" where
  "json_to_ele_ds_cfg json =
     (case cJSON_GetObjectItem json (bs ''clientcfg'') of
        None \<Rightarrow> Some zero_cfg
      | Some c \<Rightarrow>
          do { un \<leftarrow> copy_string c (bs ''username'') USER_NAME_SIZE;
               pw \<leftarrow> copy_string c (bs ''passwd'') USER_PASSWD_SIZE;
               cn \<leftarrow> copy_string c (bs ''cityname'') CITY_NAME_SIZE;
               ci \<leftarrow> get_int c (bs ''cityid'');
               iv \<leftarrow> get_int c (bs ''cntserver_interval'');
               v0 \<leftarrow> get_int c (bs ''version'');
               ba \<leftarrow> get_int c (bs ''battery'');
               ss \<leftarrow> copy_string json (bs ''wifi_ssid'') 32;
               wp \<leftarrow> copy_string json (bs ''wifi_passwd'') 32;
               sa \<leftarrow> copy_string json (bs ''server_addr'') 64;
               sp \<leftarrow> get_int json (bs ''server_port'');
               tt \<leftarrow> get_int json (bs ''tcp_timeout'');
               ae \<leftarrow> get_int json (bs ''alarm_enable'');
               ti \<leftarrow> get_int json (bs ''alarm_time'');
               v1 \<leftarrow> get_int json (bs ''version'');
               mm \<leftarrow> copy_string json (bs ''memo'') CLIENT_CHEAT_CONTENT_SIZE;
               w \<leftarrow> weather_array_load (weather_info zero_cfg) 0
                     (case cJSON_GetObjectItem json (bs ''weather_info'') of
                        None \<Rightarrow> [] | Some a \<Rightarrow> children a);
               Some (zero_cfg\<lparr>
                 clientcfg := \<lparr>username = un, passwd = pw, cityname = cn, cityid = of_int ci,
                   cntserver_interval = of_int iv, version = of_int v1, battery = of_int ba\<rparr>,
                 wifi_ssid := ss, wifi_passwd := wp, server_addr := sa, server_port := of_int sp,
                 tcp_timeout := of_int tt, alarm_enable := (ae \<noteq> 0), alarm_time := ti,
                 memo := mm, weather_info := w, check := CFGFILE_CHECK\<rparr>) })"

section \<open>The configuration file\<close>

text \<open>
  \<open>print\<close> stands for \<open>cJSON_Print\<close> (\<open>None\<close> is the null pointer) and \<open>parse\<close> for \<open>cJSON_Parse\<close>.
\<close>

definition write_ele_ds_cfg ::
  "(cjson \<Rightarrow> bytes option) \<Rightarrow> vfs \<Rightarrow> ele_ds_cfg_t \<Rightarrow> (int \<times> vfs) option" where
  "write_ele_ds_cfg print fs cfg =
     do { json \<leftarrow> ele_ds_cfg_to_json cfg;
          let json_str = print json;
          case open_w fs CONFIG_FILE_PATH of (fd, fs1) \<Rightarrow>
            if fd < 0 then Some (-1, fs1)
            else do { s \<leftarrow> json_str;
                      case vwrite fs1 fd s of (_, fs2) \<Rightarrow> Some (0, vclose fs2 fd) } }"

definition read_ele_ds_cfg ::
  "(bytes \<Rightarrow> cjson option) \<Rightarrow> vfs \<Rightarrow> ele_ds_cfg_t \<Rightarrow> (int \<times> ele_ds_cfg_t \<times> vfs) option" where
  "read_ele_ds_cfg parse fs cfg =
     (case open_r fs CONFIG_FILE_PATH of (fd, fs1) \<Rightarrow>
        if fd < 0 then Some (-1, cfg, fs1)
        else case vread (snd (vseek fs1 fd 0)) fd (nat (vsize fs1 fd)) of (len, buf, fs2) \<Rightarrow>
          if len \<le> 0 then Some (-2, cfg, vclose fs2 fd)
          else case parse (c_str (buf @ [0])) of
                 None \<Rightarrow> Some (-3, cfg, vclose fs2 fd)
               | Some json \<Rightarrow> do { cfg1 \<leftarrow> json_to_ele_ds_cfg json; Some (0, cfg1, vclose fs2 fd) })"

definition init_cfgfile ::
  "(cjson \<Rightarrow> bytes option) \<Rightarrow> vfs \<Rightarrow> ele_ds_cfg_t \<Rightarrow> (int \<times> ele_ds_cfg_t \<times> vfs) option" where
  "init_cfgfile print fs cfg =
     (let cfg1 = init_ele_ds_cfg cfg in
      do { (r, fs1) \<leftarrow> write_ele_ds_cfg print fs cfg1;
           Some (if r \<noteq> 0 then -1 else 0, cfg1, fs1) })"

definition sysfile_init ::
  "(cjson \<Rightarrow> bytes option) \<Rightarrow> (bytes \<Rightarrow> cjson option) \<Rightarrow> vfs \<Rightarrow> ele_ds_cfg_t \<Rightarrow>
   (int \<times> ele_ds_cfg_t \<times> vfs) option" where
  "sysfile_init print parse fs cfg =
     (if \<not> vaccess fs CONFIG_FILE_PATH
      then do { (_, cfg1, fs1) \<leftarrow> init_cfgfile print (snd (vmkdir fs SYSFILE_PATH)) cfg;
                Some (0, cfg1, fs1) }
      else do { (_, cfg1, fs1) \<leftarrow> read_ele_ds_cfg parse fs cfg; Some (0, cfg1, fs1) })"

text \<open>
  \<open>disk\<close> is what mounting the flash finds: \<open>None\<close> if it holds no file system. \<open>mkfs\<close> is the
  result of formatting it, \<open>unmounted\<close> the file system calls see without a mount.
\<close>

definition mnt_init ::
  "(cjson \<Rightarrow> bytes option) \<Rightarrow> (bytes \<Rightarrow> cjson option) \<Rightarrow> vfs option \<Rightarrow> vfs option \<Rightarrow> vfs \<Rightarrow> ele_ds_cfg_t \<Rightarrow>
   (int \<times> ele_ds_cfg_t \<times> vfs) option" where
  "mnt_init print parse disk mkfs unmounted cfg =
     (let fs = (case disk of Some fs \<Rightarrow> fs
                | None \<Rightarrow> (case mkfs of Some fs \<Rightarrow> fs | None \<Rightarrow> unmounted)) in
      do { (_, cfg1, fs1) \<leftarrow> sysfile_init print parse fs cfg; Some (0, cfg1, fs1) })"

text \<open>
  The speed test writes 1024 blocks of 1024 zero bytes; \<open>start_time\<close> and \<open>end_time\<close> are the clock
  readings around the loop. The result is the speed in kilobytes per second.
\<close>

definition cmd_test_write_speed :: "vfs \<Rightarrow> u32 \<Rightarrow> u32 \<Rightarrow> u32 option \<times> vfs" where
  "cmd_test_write_speed fs start_time end_time =
     (case open_rw fs (bs ''/sysfile/testspeed'') of (fd, fs1) \<Rightarrow>
        if fd < 0 then (None, fs1)
        else let fs2 = ((\<lambda>fs. snd (vwrite fs fd (replicate 1024 0))) ^^ 1024) fs1;
                 elapsed = end_time - start_time;
                 elapsed_ms = (if elapsed = 0 then 1 else elapsed)
             in (Some ((1024 * 1024) div 1024 * 1000 div elapsed_ms), vclose fs2 fd))"

section \<open>Looking up members\<close>

lemma same_name_bs: "same_name (bs a) (bs b) \<longleftrightarrow>
  map (\<lambda>c. to_lower (of_char c)) a = map (\<lambda>c. to_lower (of_char c)) b"
  by (simp add: same_name_def bs_def comp_def)

lemma cfg_member_lookup:
  "cJSON_GetObjectItem (JObj (cfg_members cfg days @ r)) (bs ''clientcfg'') = Some (client_json (clientcfg cfg))"
  "cJSON_GetObjectItem (JObj (cfg_members cfg days @ r)) (bs ''wifi_ssid'') = Some (JStr (wifi_ssid cfg))"
  "cJSON_GetObjectItem (JObj (cfg_members cfg days @ r)) (bs ''wifi_passwd'') = Some (JStr (wifi_passwd cfg))"
  "cJSON_GetObjectItem (JObj (cfg_members cfg days @ r)) (bs ''server_addr'') = Some (JStr (server_addr cfg))"
  "cJSON_GetObjectItem (JObj (cfg_members cfg days @ r)) (bs ''server_port'') = Some (num (uint (server_port cfg)))"
  "cJSON_GetObjectItem (JObj (cfg_members cfg days @ r)) (bs ''tcp_timeout'') = Some (num (uint (tcp_timeout cfg)))"
  "cJSON_GetObjectItem (JObj (cfg_members cfg days @ r)) (bs ''alarm_enable'') =
     Some (num (if alarm_enable cfg then 1 else 0))"
  "cJSON_GetObjectItem (JObj (cfg_members cfg days @ r)) (bs ''alarm_time'') = Some (num (alarm_time cfg))"
  "cJSON_GetObjectItem (JObj (cfg_members cfg days @ r)) (bs ''memo'') = Some (JStr (memo cfg))"
  "cJSON_GetObjectItem (JObj (cfg_members cfg days @ r)) (bs ''weather_info'') = Some (JArr days)"
  "cJSON_GetObjectItem (JObj (cfg_members cfg days @ r)) (bs ''version'') = cJSON_GetObjectItem (JObj r) (bs ''version'')"
  by (simp_all add: cfg_members_def same_name_bs to_lower_def)

lemma client_lookup:
  "cJSON_GetObjectItem (client_json c) (bs ''username'') = Some (JStr (username c))"
  "cJSON_GetObjectItem (client_json c) (bs ''passwd'') = Some (JStr (passwd c))"
  "cJSON_GetObjectItem (client_json c) (bs ''cityname'') = Some (JStr (cityname c))"
  "cJSON_GetObjectItem (client_json c) (bs ''cityid'') = Some (num (uint (cityid c)))"
  "cJSON_GetObjectItem (client_json c) (bs ''cntserver_interval'') = Some (num (uint (cntserver_interval c)))"
  "cJSON_GetObjectItem (client_json c) (bs ''version'') = Some (num (uint (version c)))"
  "cJSON_GetObjectItem (client_json c) (bs ''battery'') = Some (num (uint (battery c)))"
  by (simp_all add: client_json_def same_name_bs to_lower_def)

lemmas json_access = get_int_def get_string_def copy_string_def

section \<open>The forecast\<close>

text \<open>The four members of day \<open>i\<close> that are saved, as bytes in memory.\<close>

definition day_at :: "bytes \<Rightarrow> nat \<Rightarrow> bytes \<Rightarrow> bytes \<Rightarrow> u8 \<Rightarrow> u8 \<Rightarrow> bool" where
  "day_at w i icon text_s tmax tmin \<longleftrightarrow>
     length icon < 4 \<and> length text_s < 16 \<and> 0 \<notin> set icon \<and> 0 \<notin> set text_s \<and>
     Suc i * sizeof_weather_info \<le> length w \<and>
     (\<forall>k<length icon. w ! (i * sizeof_weather_info + off_iconDay + k) = icon ! k) \<and>
     w ! (i * sizeof_weather_info + off_iconDay + length icon) = 0 \<and>
     (\<forall>k<length text_s. w ! (i * sizeof_weather_info + off_textDay + k) = text_s ! k) \<and>
     w ! (i * sizeof_weather_info + off_textDay + length text_s) = 0 \<and>
     w ! (i * sizeof_weather_info + off_tempMax) = tmax \<and> w ! (i * sizeof_weather_info + off_tempMin) = tmin"

definition day_json :: "bytes \<Rightarrow> bytes \<Rightarrow> u8 \<Rightarrow> u8 \<Rightarrow> cjson" where
  "day_json icon text_s tmax tmin =
     JObj [(bs ''iconDay'', JStr icon), (bs ''textDay'', JStr text_s),
           (bs ''tempMax'', num (sint tmax)), (bs ''tempMin'', num (sint tmin))]"

lemma day_lookup:
  "cJSON_GetObjectItem (day_json ic tx a b) (bs ''iconDay'') = Some (JStr ic)"
  "cJSON_GetObjectItem (day_json ic tx a b) (bs ''textDay'') = Some (JStr tx)"
  "cJSON_GetObjectItem (day_json ic tx a b) (bs ''tempMax'') = Some (num (sint a))"
  "cJSON_GetObjectItem (day_json ic tx a b) (bs ''tempMin'') = Some (num (sint b))"
  by (simp_all add: day_json_def same_name_bs to_lower_def)

lemma str_at_nth:
  assumes "0 \<notin> set s" "off + length s < length m" "\<forall>k<length s. m ! (off + k) = s ! k" "m ! (off + length s) = 0"
  shows "str_at m off = Some s"
proof -
  have "take (length s) (drop off m) = s"
    using assms(2,3) by (intro nth_equalityI) auto
  moreover have "drop (length s) (drop off m) = 0 # drop (Suc (off + length s)) m"
    using assms(2,4) Cons_nth_drop_Suc[of "off + length s" m] by (simp add: add.commute)
  ultimately have "drop off m = s @ 0 # drop (Suc (off + length s)) m"
    by (metis append_take_drop_id)
  with assms(1) show ?thesis by (simp add: str_at_def c_str_append_zero)
qed

lemmas weather_offsets = sizeof_weather_info_def off_iconDay_def off_textDay_def off_tempMax_def off_tempMin_def

lemma day_at_json:
  assumes "day_at w i icon text_s tmax tmin"
  shows "weather_item_json w i = Some (day_json icon text_s tmax tmin)"
proof -
  have "str_at w (i * sizeof_weather_info + off_iconDay) = Some icon"
    using assms by (intro str_at_nth) (auto simp: day_at_def weather_offsets)
  moreover have "str_at w (i * sizeof_weather_info + off_textDay) = Some text_s"
    using assms by (intro str_at_nth) (auto simp: day_at_def weather_offsets)
  moreover have "load w (i * sizeof_weather_info + off_tempMax) = Some tmax"
    "load w (i * sizeof_weather_info + off_tempMin) = Some tmin"
    using assms by (auto simp: day_at_def weather_offsets load_def)
  ultimately show ?thesis by (simp add: weather_item_json_def day_json_def Let_def)
qed

lemma strcpy_at_nth:
  assumes "length s < k" "off + length s < length m"
  shows "\<exists>m'. strcpy_at m off k s = Some m' \<and> length m' = length m \<and>
    (\<forall>j<length m. m' ! j = (if off \<le> j \<and> j < off + length s then s ! (j - off)
                            else if j = off + length s then 0 else m ! j))"
proof -
  obtain m' where m': "memcpy m off (s @ [0]) 0 (length s + 1) = Some m'"
    using assms(2) by (simp add: memcpy_defined)
  then show ?thesis
    using assms memcpy_nth[OF m'] memcpy_length[OF m']
    by (auto simp: strcpy_at_def nth_append)
qed

lemma load_day:
  assumes "length icon < 4" "length text_s < 16" "0 \<notin> set icon" "0 \<notin> set text_s"
    and l: "Suc i * sizeof_weather_info \<le> length w"
  shows "\<exists>w'. weather_item_load w i (day_json icon text_s tmax tmin) = Some w' \<and>
    day_at w' i icon text_s tmax tmin \<and> length w' = length w \<and>
    (\<forall>j<length w. j < i * sizeof_weather_info \<or> Suc i * sizeof_weather_info \<le> j \<longrightarrow> w' ! j = w ! j)"
proof -
  define p where "p = i * sizeof_weather_info"
  have l': "p + 168 \<le> length w" using l by (simp add: p_def weather_offsets)
  obtain w1 where w1: "strcpy_at w (p + off_textDay) 16 text_s = Some w1" "length w1 = length w"
    "\<forall>j<length w. w1 ! j = (if p + off_textDay \<le> j \<and> j < p + off_textDay + length text_s
       then text_s ! (j - (p + off_textDay)) else if j = p + off_textDay + length text_s then 0 else w ! j)"
    using strcpy_at_nth[of text_s 16 "p + off_textDay" w] assms(2) l' by (auto simp: weather_offsets)
  obtain w2 where w2: "strcpy_at w1 (p + off_iconDay) 4 icon = Some w2" "length w2 = length w"
    "\<forall>j<length w. w2 ! j = (if p + off_iconDay \<le> j \<and> j < p + off_iconDay + length icon
       then icon ! (j - (p + off_iconDay)) else if j = p + off_iconDay + length icon then 0 else w1 ! j)"
    using strcpy_at_nth[of icon 4 "p + off_iconDay" w1] assms(1) l' w1(2) by (auto simp: weather_offsets)
  define w3 where "w3 = (w2[p + off_tempMax := tmax])[p + off_tempMin := tmin]"
  have s8: "valueint (num (sint x)) = sint x" "(of_int (sint x) :: u8) = x" for x :: u8
    using sint_range_size[of x] by (simp_all add: valueint_num word_size)
  have p: "i * 168 = p" by (simp add: p_def weather_offsets)
  have ld: "weather_item_load w i (day_json icon text_s tmax tmin) = Some w3"
    using w1(1,2) w2(1,2) l' s8
    by (simp add: weather_item_load_def Let_def p json_access day_lookup store_def w3_def weather_offsets)
  have n: "w3 ! j = (if j = p + 55 then tmax else if j = p + 56 then tmin
      else if p + 57 \<le> j \<and> j < p + 57 + length icon then icon ! (j - (p + 57))
      else if j = p + 57 + length icon then 0
      else if p + 61 \<le> j \<and> j < p + 61 + length text_s then text_s ! (j - (p + 61))
      else if j = p + 61 + length text_s then 0 else w ! j)" if "j < length w" for j
    using that w1(2,3) w2(2,3) by (auto simp: w3_def nth_list_update weather_offsets)
  have l3: "length w3 = length w" by (simp add: w3_def w2(2))
  have "day_at w3 i icon text_s tmax tmin"
    unfolding day_at_def weather_offsets p using assms l' l3 p by (auto simp: n)
  moreover have "\<forall>j<length w. j < p \<or> p + 168 \<le> j \<longrightarrow> w3 ! j = w ! j"
    using n assms(1,2) by auto
  ultimately show ?thesis
    using ld l3 p by (auto simp: weather_offsets)
qed

text \<open>Loading the days one after the other gives back all of them.\<close>

definition day_fits :: "bytes \<times> bytes \<times> u8 \<times> u8 \<Rightarrow> bool" where
  "day_fits d = (case d of (icon, text_s, _, _) \<Rightarrow>
     length icon < 4 \<and> length text_s < 16 \<and> 0 \<notin> set icon \<and> 0 \<notin> set text_s)"

definition to_day :: "bytes \<times> bytes \<times> u8 \<times> u8 \<Rightarrow> cjson" where
  "to_day d = (case d of (icon, text_s, tmax, tmin) \<Rightarrow> day_json icon text_s tmax tmin)"

definition day_is :: "bytes \<Rightarrow> nat \<Rightarrow> bytes \<times> bytes \<times> u8 \<times> u8 \<Rightarrow> bool" where
  "day_is w i d = (case d of (icon, text_s, tmax, tmin) \<Rightarrow> day_at w i icon text_s tmax tmin)"

lemma day_is_frame:
  assumes "day_is w i d" and "length w' = length w"
    and "\<forall>j<length w. j < Suc i * sizeof_weather_info \<longrightarrow> w' ! j = w ! j"
  shows "day_is w' i d"
  using assms unfolding day_is_def day_at_def weather_offsets by (auto split: prod.splits)

lemma load_days:
  assumes "list_all day_fits ds" and "(i + length ds) * sizeof_weather_info \<le> length w" and "i + length ds \<le> 7"
  shows "\<exists>w'. weather_array_load w i (map to_day ds) = Some w' \<and> length w' = length w \<and>
    (\<forall>k<length ds. day_is w' (i + k) (ds ! k)) \<and>
    (\<forall>j<length w. j < i * sizeof_weather_info \<longrightarrow> w' ! j = w ! j)"
  using assms
proof (induction ds arbitrary: w i)
  case (Cons d ds)
  obtain icon text_s tmax tmin where d: "d = (icon, text_s, tmax, tmin)" by (cases d) auto
  have f: "length icon < 4" "length text_s < 16" "0 \<notin> set icon" "0 \<notin> set text_s"
    using Cons.prems(1) by (simp_all add: day_fits_def d)
  have "Suc i * sizeof_weather_info \<le> length w"
    using Cons.prems(2) by (rule order_trans[rotated]) simp
  from load_day[OF f this, of tmax tmin] obtain w1 where
    w1: "weather_item_load w i (to_day d) = Some w1" "day_is w1 i d" "length w1 = length w"
      "\<forall>j<length w. j < i * sizeof_weather_info \<or> Suc i * sizeof_weather_info \<le> j \<longrightarrow> w1 ! j = w ! j"
    by (auto simp: d to_day_def day_is_def)
  from Cons.IH[of "Suc i" w1] Cons.prems w1(3) obtain w' where
    w': "weather_array_load w1 (Suc i) (map to_day ds) = Some w'" "length w' = length w1"
      "\<forall>k<length ds. day_is w' (Suc i + k) (ds ! k)"
      "\<forall>j<length w1. j < Suc i * sizeof_weather_info \<longrightarrow> w' ! j = w1 ! j" by auto
  have "day_is w' i d" using day_is_frame[OF w1(2) w'(2,4)] .
  with w'(3) have "\<forall>k<length (d # ds). day_is w' (i + k) ((d # ds) ! k)"
    by (auto simp: less_Suc_eq_0_disj)
  moreover have "\<forall>j<length w. j < i * sizeof_weather_info \<longrightarrow> w' ! j = w ! j"
    using w1(3,4) w'(4) by simp
  ultimately show ?case
    using Cons.prems(3) w1 w' by (intro exI[of _ w']) simp
qed simp

lemma days_json:
  "\<forall>k<n. day_is w (i + k) (ds ! k) \<Longrightarrow> length ds = n \<Longrightarrow> weather_array_json w i n = Some (map to_day ds)"
proof (induction n arbitrary: i ds)
  case (Suc n)
  then obtain d ds' where ds: "ds = d # ds'" by (cases ds) auto
  have "day_is w i d" using Suc.prems(1) ds by force
  then have "weather_item_json w i = Some (to_day d)"
    by (auto simp: day_is_def to_day_def day_at_json split: prod.splits)
  moreover have "weather_array_json w (Suc i) n = Some (map to_day ds')"
    by (rule Suc.IH) (use Suc.prems ds in force)+
  ultimately show ?case by (simp add: ds)
qed simp

section \<open>Reading back what was written\<close>

text \<open>
  A configuration as the firmware can hold it: the strings fit their arrays, the numbers the range
  of \<open>valueint\<close>, and the forecast is seven days of proper strings.
\<close>

definition cfg_ok :: "ele_ds_cfg_t \<Rightarrow> (bytes \<times> bytes \<times> u8 \<times> u8) list \<Rightarrow> bool" where
  "cfg_ok cfg ds \<longleftrightarrow>
     length (username (clientcfg cfg)) < USER_NAME_SIZE \<and> length (passwd (clientcfg cfg)) < USER_PASSWD_SIZE \<and>
     length (cityname (clientcfg cfg)) < CITY_NAME_SIZE \<and> length (wifi_ssid cfg) < 32 \<and>
     length (wifi_passwd cfg) < 32 \<and> length (server_addr cfg) < 64 \<and>
     length (memo cfg) < CLIENT_CHEAT_CONTENT_SIZE \<and>
     uint (cityid (clientcfg cfg)) < 2 ^ 31 \<and> uint (version (clientcfg cfg)) < 2 ^ 31 \<and>
     uint (tcp_timeout cfg) < 2 ^ 31 \<and> - (2 ^ 31) < alarm_time cfg \<and> alarm_time cfg < 2 ^ 31 \<and>
     length (weather_info cfg) = sizeof_weather_infos \<and> length ds = 7 \<and>
     list_all day_fits ds \<and> (\<forall>i<7. day_is (weather_info cfg) i (ds ! i))"

lemma cfg_to_json_eq: "cfg_ok cfg ds \<Longrightarrow> ele_ds_cfg_to_json cfg = Some (JObj (cfg_members cfg (map to_day ds)))"
  using days_json[of 7 "weather_info cfg" 0 ds] by (simp add: ele_ds_cfg_to_json_def cfg_ok_def)

lemma json_to_cfg_null_version:
  assumes "ele_ds_cfg_to_json cfg = Some j"
  shows "json_to_ele_ds_cfg j = None"
proof -
  from assms obtain days where "j = JObj (cfg_members cfg days)"
    by (auto simp: ele_ds_cfg_to_json_def bind_Some_iff)
  then have l: "cJSON_GetObjectItem j (bs ''clientcfg'') = Some (client_json (clientcfg cfg))"
    "cJSON_GetObjectItem j (bs ''version'') = None"
    using cfg_member_lookup(1,11)[of cfg days "[]"] by simp_all
  have "get_int j (bs ''version'') \<noteq> None" if "json_to_ele_ds_cfg j = Some r" for r
    using that unfolding json_to_ele_ds_cfg_def l option.case bind_Some_iff by blast
  then show ?thesis using l(2) by (cases "json_to_ele_ds_cfg j") (auto simp: get_int_def)
qed

lemma valueint_uint: "uint x < 2 ^ 31 \<Longrightarrow> valueint (num (uint x)) = uint x"
  by (rule valueint_num) (simp_all add: order_less_le_trans[of _ 0])

lemma uint_small: "uint (x :: u16) < 2 ^ 31" "uint (y :: u8) < 2 ^ 31"
  using uint_bounded[of x] uint_bounded[of y] by simp_all

lemma cfg_json_back:
  assumes ok: "cfg_ok cfg ds"
  defines "j \<equiv> JObj (cfg_members cfg (map to_day ds) @ [(bs ''version'', num (uint (version (clientcfg cfg))))])"
  shows "\<exists>w. json_to_ele_ds_cfg j = Some (cfg\<lparr>curweather := 0, weather_info := w, check := CFGFILE_CHECK\<rparr>) \<and>
    length w = sizeof_weather_infos \<and> (\<forall>i<7. day_is w i (ds ! i))"
proof -
  have ds: "list_all day_fits ds" "length ds = 7" using ok by (simp_all add: cfg_ok_def)
  have "length (weather_info zero_cfg) = sizeof_weather_infos" by (simp add: zero_cfg_def)
  then obtain w where w: "weather_array_load (weather_info zero_cfg) 0 (map to_day ds) = Some w"
    "length w = sizeof_weather_infos" "\<forall>i<7. day_is w i (ds ! i)"
    using load_days[of ds 0 "weather_info zero_cfg"] ds by (auto simp: sizeof_weather_infos_def)
  have v: "cJSON_GetObjectItem (JObj [(bs ''version'', x)]) (bs ''version'') = Some x" for x
    by (simp add: same_name_def)
  note look = cfg_member_lookup[of cfg "map to_day ds" "[(bs ''version'', num (uint (version (clientcfg cfg))))]",
      folded j_def]
  have vi: "valueint (num (alarm_time cfg)) = alarm_time cfg" "valueint (num 1) = 1" "valueint (num 0) = 0"
    using ok by (simp_all add: valueint_num cfg_ok_def)
  have "json_to_ele_ds_cfg j = Some (cfg\<lparr>curweather := 0, weather_info := w, check := CFGFILE_CHECK\<rparr>)"
    using ok w(1) vi
    by (cases cfg; cases "clientcfg cfg")
       (simp add: json_to_ele_ds_cfg_def look v client_lookup json_access cfg_ok_def valueint_uint
        valueint_uint[OF uint_small(1)] valueint_uint[OF uint_small(2)] zero_cfg_def del: cJSON_GetObjectItem.simps)
  with w(2,3) show ?thesis by blast
qed

section \<open>Properties\<close>

text \<open>
  C9. The configuration survives the JSON format: reading the members that
  \<open>ele_ds_cfg_to_json\<close> writes, together with the member \<open>version\<close> that the reader expects at the top
  level, gives back every string, number and flag of the configuration and the four saved values of
  all seven days, so that writing the result again produces the same JSON.
\<close>

theorem config_json_roundtrip:
  assumes "cfg_ok cfg ds"
  shows "\<exists>cfg' w. json_to_ele_ds_cfg (JObj (cfg_members cfg (map to_day ds) @
      [(bs ''version'', num (uint (version (clientcfg cfg))))])) = Some cfg' \<and>
    cfg' = cfg\<lparr>curweather := 0, weather_info := w, check := CFGFILE_CHECK\<rparr> \<and>
    ele_ds_cfg_to_json cfg = Some (JObj (cfg_members cfg (map to_day ds))) \<and>
    ele_ds_cfg_to_json cfg' = ele_ds_cfg_to_json cfg"
proof -
  from cfg_json_back[OF assms] obtain w where
    w: "json_to_ele_ds_cfg (JObj (cfg_members cfg (map to_day ds) @
      [(bs ''version'', num (uint (version (clientcfg cfg))))])) =
      Some (cfg\<lparr>curweather := 0, weather_info := w, check := CFGFILE_CHECK\<rparr>)"
    "length w = sizeof_weather_infos" "\<forall>i<7. day_is w i (ds ! i)" by blast
  define cfg' where "cfg' = cfg\<lparr>curweather := 0, weather_info := w, check := CFGFILE_CHECK\<rparr>"
  have "cfg_ok cfg' ds" using assms w(2,3) by (simp add: cfg_ok_def cfg'_def)
  then have "ele_ds_cfg_to_json cfg' = ele_ds_cfg_to_json cfg"
    by (simp add: cfg_to_json_eq[OF assms] cfg_to_json_eq cfg'_def cfg_members_def)
  then show ?thesis using w(1) cfg_to_json_eq[OF assms] cfg'_def by blast
qed

lemma zero_day_is: "i < 7 \<Longrightarrow> day_is (replicate sizeof_weather_infos 0) i ([], [], 0, 0)"
  by (simp add: day_is_def day_at_def weather_offsets sizeof_weather_infos_def)

lemma default_cfg_ok: "cfg_ok (init_ele_ds_cfg zero_cfg) (replicate 7 ([], [], 0, 0))"
  by (simp add: cfg_ok_def init_ele_ds_cfg_def zero_cfg_def strncpy_def USER_NAME_SIZE_def USER_PASSWD_SIZE_def
      CITY_NAME_SIZE_def CLIENT_CHEAT_CONTENT_SIZE_def DEFATLT_CITYID_def SOFT_VERSION_def list_all_iff day_fits_def zero_day_is)

theorem config_json_roundtrip_witness:
  "\<exists>cfg' w. json_to_ele_ds_cfg (JObj (cfg_members (init_ele_ds_cfg zero_cfg) (map to_day (replicate 7 ([], [], 0, 0))) @
      [(bs ''version'', num (uint (version (clientcfg (init_ele_ds_cfg zero_cfg)))))])) = Some cfg' \<and>
    cfg' = (init_ele_ds_cfg zero_cfg)\<lparr>curweather := 0, weather_info := w, check := CFGFILE_CHECK\<rparr> \<and>
    ele_ds_cfg_to_json (init_ele_ds_cfg zero_cfg) =
      Some (JObj (cfg_members (init_ele_ds_cfg zero_cfg) (map to_day (replicate 7 ([], [], 0, 0))))) \<and>
    ele_ds_cfg_to_json cfg' = ele_ds_cfg_to_json (init_ele_ds_cfg zero_cfg)"
  by (rule config_json_roundtrip) (rule default_cfg_ok)

text \<open>
  C18. The reader does not accept the writer's own output: the top-level member \<open>version\<close> that it
  dereferences is never written. Whatever \<open>cJSON_Print\<close> and \<open>cJSON_Parse\<close> are, as long as the text
  of the defaults parses to the tree it came from, the first boot on an empty flash creates the
  configuration file, and the second boot reads through a null pointer.
\<close>

theorem config_second_boot:
  assumes pp: "\<And>j. ele_ds_cfg_to_json (init_ele_ds_cfg cfg) = Some j \<Longrightarrow> print j = Some s \<and> parse s = Some j"
    and s: "0 \<notin> set s" "s \<noteq> []" "length s \<le> room fs"
    and fs: "dirs fs []" "\<not> vaccess fs SYSFILE_PATH" "\<not> vaccess fs CONFIG_FILE_PATH" "fd_alloc fs \<noteq> None"
  shows "\<exists>fs'. mnt_init print parse (Some fs) mkfs um cfg = Some (0, init_ele_ds_cfg cfg, fs') \<and>
    files fs' CONFIG_FILE_PATH = Some s \<and>
    mnt_init print parse (Some fs') mkfs um cfg = None"
proof -
  obtain d where d: "fd_alloc fs = Some d" using fs(4) by blast
  note dd = fd_alloc_SomeD[OF d]
  have "init_ele_ds_cfg cfg = init_ele_ds_cfg zero_cfg" by (simp add: init_ele_ds_cfg_def)
  then obtain j where j: "ele_ds_cfg_to_json (init_ele_ds_cfg cfg) = Some j"
    using cfg_to_json_eq[OF default_cfg_ok] by simp
  have p: "parent SYSFILE_PATH = []" "parent CONFIG_FILE_PATH = SYSFILE_PATH" "SYSFILE_PATH \<noteq> CONFIG_FILE_PATH"
    by (simp_all add: parent_def SYSFILE_PATH_def CONFIG_FILE_PATH_def slash_def bs_def)
  define fs1 where "fs1 = snd (vmkdir fs SYSFILE_PATH)"
  have f1: "fs1 = fs\<lparr>dirs := (dirs fs)(SYSFILE_PATH := True)\<rparr>"
    using fs by (simp add: fs1_def vmkdir_def p vaccess_def)
  have d1: "fd_alloc fs1 = Some d" using d by (simp add: f1 fd_alloc_def)
  define fs2 where "fs2 = fs1\<lparr>files := (files fs1)(CONFIG_FILE_PATH \<mapsto> s), room := room fs1 - length s\<rparr>"
  have fz: "file_size fs1 CONFIG_FILE_PATH = 0" using fs(3) by (simp add: file_size_def f1 vaccess_def)
  have "open_w fs1 CONFIG_FILE_PATH = (d, fs1\<lparr>files := (files fs1)(CONFIG_FILE_PATH \<mapsto> []), room := room fs1,
      fds := (fds fs1)(d \<mapsto> \<lparr>of_path = CONFIG_FILE_PATH, of_pos = 0\<rparr>)\<rparr>)"
    using open_w_ok[of fs1 CONFIG_FILE_PATH d] d1 fs(3) fz p by (simp add: f1 vaccess_def)
  moreover have "vclose (snd (vwrite (fs1\<lparr>files := (files fs1)(CONFIG_FILE_PATH \<mapsto> []), room := room fs1,
      fds := (fds fs1)(d \<mapsto> \<lparr>of_path = CONFIG_FILE_PATH, of_pos = 0\<rparr>)\<rparr>) d s)) d = fs2"
    using dd s(3) by (simp add: vwrite_def vclose_def fs2_def f1 Let_def fun_upd_idem)
  ultimately have w: "write_ele_ds_cfg print fs1 (init_ele_ds_cfg cfg) = Some (0, fs2)"
    using j pp[OF j] dd by (auto simp: write_ele_ds_cfg_def split: prod.splits)
  have b1: "mnt_init print parse (Some fs) mkfs um cfg = Some (0, init_ele_ds_cfg cfg, fs2)"
    using fs(3) w by (simp add: mnt_init_def sysfile_init_def init_cfgfile_def fs1_def[symmetric])
  have c2: "files fs2 CONFIG_FILE_PATH = Some s" by (simp add: fs2_def)
  have d2: "fd_alloc fs2 = Some d" using d1 by (simp add: fs2_def fd_alloc_def)
  have "c_str (s @ [0]) = s" using s(1) by (rule c_str_append_zero)
  then have "read_ele_ds_cfg parse fs2 cfg = None"
    using dd s(2) pp[OF j] json_to_cfg_null_version[OF j] c2
    by (simp add: read_ele_ds_cfg_def open_r_ok[OF c2 d2] vsize_def fcontent_def vseek_def vread_def Let_def)
  then have "mnt_init print parse (Some fs2) mkfs um cfg = None"
    using c2 by (simp add: mnt_init_def sysfile_init_def vaccess_def)
  with b1 c2 show ?thesis by blast
qed

definition boot_fs :: vfs where
  "boot_fs = \<lparr>files = Map.empty, dirs = (\<lambda>p. p = []), fds = Map.empty, room = 65536\<rparr>"

theorem config_second_boot_witness:
  "\<exists>fs'. mnt_init (\<lambda>j. Some [123, 125]) (\<lambda>s. ele_ds_cfg_to_json (init_ele_ds_cfg zero_cfg)) (Some boot_fs)
      None boot_fs zero_cfg = Some (0, init_ele_ds_cfg zero_cfg, fs') \<and>
    files fs' CONFIG_FILE_PATH = Some [123, 125] \<and>
    mnt_init (\<lambda>j. Some [123, 125]) (\<lambda>s. ele_ds_cfg_to_json (init_ele_ds_cfg zero_cfg)) (Some fs')
      None boot_fs zero_cfg = None"
  by (rule config_second_boot)
     (simp_all add: boot_fs_def vaccess_def SYSFILE_PATH_def CONFIG_FILE_PATH_def fd_alloc_def fd_list_def bs_def)

text \<open>
  A configuration file without the object \<open>clientcfg\<close>, such as the one shipped with the
  resources, wipes the settings: whatever else it holds, reading it reports success and leaves an
  all-zero configuration with empty network name, password and server address.
\<close>

theorem config_without_clientcfg:
  assumes "files fs CONFIG_FILE_PATH = Some s" "0 \<notin> set s" "s \<noteq> []" "fd_alloc fs \<noteq> None"
    and "parse s = Some j" "cJSON_GetObjectItem j (bs ''clientcfg'') = None"
  shows "read_ele_ds_cfg parse fs cfg = Some (0, zero_cfg, fs)"
proof -
  obtain d where d: "fd_alloc fs = Some d" using assms(4) by blast
  note dd = fd_alloc_SomeD[OF d]
  have "c_str (s @ [0]) = s" using assms(2) by (rule c_str_append_zero)
  then show ?thesis
    using dd assms(1,3,5,6)
    by (simp add: read_ele_ds_cfg_def open_r_ok[OF assms(1) d] vsize_def fcontent_def vseek_def vread_def Let_def
        vclose_def json_to_ele_ds_cfg_def fun_upd_idem)
qed

theorem config_without_clientcfg_witness:
  "read_ele_ds_cfg (\<lambda>_. Some (JObj [(bs ''wifi_ssid'', JStr (bs ''esp-2.4G''))]))
     (boot_fs\<lparr>files := [CONFIG_FILE_PATH \<mapsto> [123, 125]]\<rparr>) zero_cfg =
   Some (0, zero_cfg, boot_fs\<lparr>files := [CONFIG_FILE_PATH \<mapsto> [123, 125]]\<rparr>)"
  by (rule config_without_clientcfg[where s = "[123, 125]" and
        j = "JObj [(bs ''wifi_ssid'', JStr (bs ''esp-2.4G''))]"])
     (simp_all add: boot_fs_def fd_alloc_def fd_list_def same_name_bs to_lower_def)

end
