(* ===== verification/Client.thy ===== *)
theory Client
  imports Ringbuffer Crc Common Config
begin

text \<open>
  The network client (\<^verbatim>\<open>src/applications/ele_ds/client.c\<close>): decoding of the message header, the receive
  state machine that stores memos, forecasts and firmware updates, the two threads that are joined
  by the ring buffer, the report sent to the server, and start-up. The device structure holds the
  parts of \<open>struct ele_ds\<close> that this code touches together with the file system. Functions return
  \<open>None\<close> where the C code would dereference a null pointer or leave an array.
\<close>

section \<open>Data\<close>

datatype client_recv_state_t = CRS_NONE | CRS_HEAD | CRS_DATA | CRS_FINISH | CRS_END | CSR_MAX

definition EMT_CLIENTMSG_NONE :: int where
  "EMT_CLIENTMSG_NONE = -1"

definition EMT_CLIENTMSG_INFO :: int where
  "EMT_CLIENTMSG_INFO = 2"

definition EMT_SERVERMSG_MEMO :: int where
  "EMT_SERVERMSG_MEMO = 0x80"

definition EMT_SERVERMSG_WEATHER :: int where
  "EMT_SERVERMSG_WEATHER = 0x81"

definition EMT_SERVERMSG_CLIENTUPDATE :: int where
  "EMT_SERVERMSG_CLIENTUPDATE = 0x82"

lemmas emt_defs = EMT_CLIENTMSG_NONE_def EMT_CLIENTMSG_INFO_def EMT_SERVERMSG_MEMO_def
  EMT_SERVERMSG_WEATHER_def EMT_SERVERMSG_CLIENTUPDATE_def

record client_software_updateinfo_t =
  cs_crc :: u32
  cs_len :: u32
  cs_version :: u32
  cs_buildinfo :: bytes

text \<open>The members of the union that the code uses; \<open>NoData\<close> is the zeroed union.\<close>

datatype msg_data = NoData | Memo "bytes option" | Weatherdays int | Cs_info client_software_updateinfo_t

record ele_msg_t =
  msg_data :: msg_data
  msg_len :: u32
  msg_packcnt :: u32
  msg_msgtype :: int

record recv_info =
  recv_state :: client_recv_state_t
  curparse_type :: int
  datalen :: int
  recv_len :: int
  update_file_fd :: int
  update_file_name :: bytes
  update_file_crc :: u32

record ele_ds =
  device_cfg :: ele_ds_cfg_t
  recv_info :: recv_info
  rb :: rt_ringbuffer
  rb_sem :: nat
  fsys :: vfs

definition CLIENT_RECV_PACKSIZE :: nat where
  "CLIENT_RECV_PACKSIZE = 1500"

definition CLIENT_RECV_BUFFSIZE :: nat where
  "CLIENT_RECV_BUFFSIZE = CLIENT_RECV_PACKSIZE * 10"

definition UPDATE_DIR :: bytes where
  "UPDATE_DIR = bs ''/sysfile/soft/update''"

text \<open>The functions of cJSON that the client calls.\<close>

record cjson_api =
  js_print :: "cjson \<Rightarrow> bytes option"
  js_parse :: "bytes \<Rightarrow> cjson option"

section \<open>Decoding the header\<close>

definition clear_client_info :: "ele_ds \<Rightarrow> ele_ds" where
  "clear_client_info s =
     (let i = recv_info s;
          i1 = i\<lparr>recv_state := CRS_NONE, curparse_type := EMT_CLIENTMSG_NONE, datalen := 0,
                 recv_len := 0, update_file_name := []\<rparr> in
      if update_file_fd i > 0
      then s\<lparr>fsys := vclose (fsys s) (update_file_fd i), recv_info := i1\<lparr>update_file_fd := -1\<rparr>\<rparr>
      else s\<lparr>recv_info := i1\<rparr>)"

text \<open>\<open>(uint32_t) d\<close> for a double is undefined outside the range of the type.\<close>

definition double_to_u32 :: "rat \<Rightarrow> u32 option" where
  "double_to_u32 q = (if -1 < q \<and> q < 4294967296 then Some (of_int (trunc q)) else None)"

definition zero_msg :: ele_msg_t where
  "zero_msg = \<lparr>msg_data = NoData, msg_len = 0, msg_packcnt = 0, msg_msgtype = 0\<rparr>"

definition parse_json_data :: "cjson_api \<Rightarrow> ele_msg_t \<Rightarrow> bytes \<Rightarrow> int \<Rightarrow> (int \<times> ele_msg_t) option" where
  "parse_json_data api msg0 buffer len =
     (if len \<le> 0 then Some (-1, msg0)
      else do {
        isj \<leftarrow> is_json (Some buffer) (nat len);
        if \<not> isj then Some (-1, msg0)
        else case js_parse api (c_str buffer) of
          None \<Rightarrow> Some (-2, msg0)
        | Some jroot \<Rightarrow>
            (case cJSON_GetObjectItem jroot (bs ''packinfo'') of
               None \<Rightarrow> Some (-6, msg0)
             | Some packinfo \<Rightarrow>
                 do { l \<leftarrow> get_int packinfo (bs ''len'');
                      c \<leftarrow> get_int jroot (bs ''packcnt'');
                      t \<leftarrow> get_int jroot (bs ''msgtype'');
                      let msg = msg0\<lparr>msg_len := of_int l, msg_packcnt := of_int c, msg_msgtype := t\<rparr>;
                      if t = EMT_SERVERMSG_MEMO
                      then do { m \<leftarrow> cJSON_GetObjectItem packinfo (bs ''message'');
                                Some (0, msg\<lparr>msg_data := Memo (valuestring m)\<rparr>) }
                      else if t = EMT_SERVERMSG_WEATHER
                      then do { d \<leftarrow> get_int packinfo (bs ''weatherdays'');
                                Some (0, msg\<lparr>msg_data := Weatherdays (to_i8 d)\<rparr>) }
                      else if t = EMT_SERVERMSG_CLIENTUPDATE
                      then (case (cJSON_GetObjectItem packinfo (bs ''len''),
                                  cJSON_GetObjectItem packinfo (bs ''crc''),
                                  cJSON_GetObjectItem packinfo (bs ''version''),
                                  cJSON_GetObjectItem packinfo (bs ''buildinfo'')) of
                              (Some jl, Some jc, Some jv, Some jb) \<Rightarrow>
                                do { crc \<leftarrow> double_to_u32 (valuedouble jc);
                                     b \<leftarrow> valuestring jb;
                                     Some (0, msg\<lparr>msg_data := Cs_info
                                       \<lparr>cs_crc = crc, cs_len = of_int (valueint jl),
                                        cs_version = of_int (valueint jv), cs_buildinfo = strncpy (32 - 1) b\<rparr>\<rparr>) }
                            | _ \<Rightarrow> Some (-3, msg))
                      else Some (-5, msg) }) })"

text \<open>The result is an error code below zero or the message type.\<close>

definition parse_msgtype :: "ele_ds \<Rightarrow> ele_msg_t \<Rightarrow> (int \<times> ele_ds) option" where
  "parse_msgtype s msg =
     (let t = msg_msgtype msg; i = (recv_info s)\<lparr>curparse_type := t\<rparr>; s1 = s\<lparr>recv_info := i\<rparr> in
      if t = EMT_SERVERMSG_MEMO
      then case msg_data msg of
             Memo (Some m) \<Rightarrow>
               if length m + 1 \<le> CLIENT_CHEAT_CONTENT_SIZE
               then Some (t, s1\<lparr>device_cfg := (device_cfg s)\<lparr>memo := m\<rparr>,
                            recv_info := i\<lparr>recv_state := CRS_FINISH\<rparr>\<rparr>)
               else None
           | _ \<Rightarrow> None
      else if t = EMT_SERVERMSG_WEATHER
      then Some (t, s1\<lparr>recv_info := i\<lparr>datalen := sint (msg_len msg), recv_state := CRS_DATA\<rparr>\<rparr>)
      else if t = EMT_SERVERMSG_CLIENTUPDATE
      then case msg_data msg of
             Cs_info u \<Rightarrow>
               Some (t, s1\<lparr>recv_info := i\<lparr>recv_state := CRS_DATA, update_file_crc := cs_crc u,
                  datalen := sint (cs_len u), update_file_name := UPDATE_DIR @ slash # cs_buildinfo u\<rparr>\<rparr>)
           | _ \<Rightarrow> None
      else Some (-3, s1))"

definition cur_parsetype_need_recvdata :: "int \<Rightarrow> bool" where
  "cur_parsetype_need_recvdata t \<longleftrightarrow> t = EMT_SERVERMSG_WEATHER \<or> t = EMT_SERVERMSG_CLIENTUPDATE"

section \<open>The receive state machine\<close>

text \<open>
  The branch \<open>CRS_DATA\<close>. \<open>buffer\<close> is the parser thread's packet buffer, of which the first \<open>len\<close>
  bytes are new. Storing the packet: forecast bytes go to the configuration, update bytes to the
  update file; the flag is false where the code leaves the branch with an error.
\<close>

definition store_weather :: "cjson_api \<Rightarrow> ele_ds \<Rightarrow> bytes \<Rightarrow> nat \<Rightarrow> (bool \<times> ele_ds) option" where
  "store_weather api s buffer len =
     do { w \<leftarrow> (if recv_len (recv_info s) < 0 then None
               else memcpy (weather_info (device_cfg s)) (nat (recv_len (recv_info s))) buffer 0 len);
          let cfg = (device_cfg s)\<lparr>weather_info := w\<rparr>;
          (_, fs1) \<leftarrow> write_ele_ds_cfg (js_print api) (fsys s) cfg;
          Some (True, s\<lparr>device_cfg := cfg, fsys := fs1\<rparr>) }"

definition store_update :: "ele_ds \<Rightarrow> bytes \<Rightarrow> nat \<Rightarrow> (bool \<times> ele_ds) option" where
  "store_update s buffer len =
     do { _ \<leftarrow> strlen buffer;
          let i = recv_info s;
          case (if update_file_fd i \<le> 0 then open_w (fsys s) (update_file_name i)
                else (update_file_fd i, fsys s)) of (fd, fs1) \<Rightarrow>
            let s1 = s\<lparr>recv_info := i\<lparr>update_file_fd := fd\<rparr>, fsys := fs1\<rparr> in
            if fd < 0 then Some (False, s1)
            else case vwrite fs1 fd (take len buffer) of (write_len, fs2) \<Rightarrow>
                   Some (\<not> write_len < 0, s1\<lparr>fsys := fs2\<rparr>) }"

definition crs_store :: "cjson_api \<Rightarrow> ele_ds \<Rightarrow> bytes \<Rightarrow> nat \<Rightarrow> (bool \<times> ele_ds) option" where
  "crs_store api s buffer len =
     (if curparse_type (recv_info s) = EMT_SERVERMSG_WEATHER then store_weather api s buffer len
      else if curparse_type (recv_info s) = EMT_SERVERMSG_CLIENTUPDATE then store_update s buffer len
      else Some (False, s))"

text \<open>The counts are advanced; the result is the value of \<open>ret\<close> at the end of the branch.\<close>

definition crs_count :: "ele_ds \<Rightarrow> nat \<Rightarrow> int \<times> ele_ds" where
  "crs_count s len =
     (let i = recv_info s;
          i1 = i\<lparr>recv_len := to_i32 (recv_len i + int len), datalen := to_i32 (datalen i - int len)\<rparr>
      in if datalen i1 \<le> 0 then (0, s\<lparr>recv_info := i1\<lparr>recv_state := CRS_FINISH\<rparr>\<rparr>)
         else (2, s\<lparr>recv_info := i1\<rparr>))"

definition crs_data :: "cjson_api \<Rightarrow> ele_ds \<Rightarrow> bytes \<Rightarrow> nat \<Rightarrow> (int \<times> ele_ds) option" where
  "crs_data api s buffer len =
     (if datalen (recv_info s) > 0
      then do { (ok, s1) \<leftarrow> crs_store api s buffer len;
                if ok then Some (crs_count s1 len) else Some (-3, s1) }
      else Some (0, s\<lparr>recv_info := (recv_info s)\<lparr>recv_state := CRS_FINISH\<rparr>\<rparr>))"

text \<open>
  The branch \<open>CRS_FINISH\<close>: the first component is the outcome of the checksum test, which the code
  logs and does not return.
\<close>

definition crs_finish :: "nat \<Rightarrow> ele_ds \<Rightarrow> (int \<times> ele_ds) option" where
  "crs_finish fuel s =
     (if curparse_type (recv_info s) = EMT_SERVERMSG_CLIENTUPDATE
      then let target_crc = update_file_crc (recv_info s);
               arg1 = update_file_name (recv_info s);
               s1 = clear_client_info s in
           do { (crc_result, fs1) \<leftarrow> crcfile fuel (fsys s1) [bs ''crcfile'', arg1];
                Some (if crc_result = target_crc then 1 else -4, s1\<lparr>fsys := fs1\<rparr>) }
      else Some (0, clear_client_info s))"

text \<open>One round of the loop of \<open>parse_recv_data\<close>.\<close>

definition parse_recv_body ::
  "cjson_api \<Rightarrow> nat \<Rightarrow> bytes \<Rightarrow> nat \<Rightarrow> ele_ds \<Rightarrow> ((int \<times> ele_ds) + ele_ds) option" where
  "parse_recv_body api fuel buffer len s =
     (let i = recv_info s;
          exit = (\<lambda>(ret, s'). if ret \<noteq> 0 then Inl (ret, s') else Inr s') in
      case recv_state i of
        CRS_END \<Rightarrow> Some (Inl (0, s))
      | CRS_NONE \<Rightarrow>
          do { n \<leftarrow> strlen buffer;
               isj \<leftarrow> is_json (Some buffer) n;
               Some (exit (if isj then (0, s\<lparr>recv_info := i\<lparr>recv_state := CRS_HEAD\<rparr>\<rparr>)
                           else (-1, s\<lparr>recv_info := i\<lparr>recv_state := CRS_NONE\<rparr>\<rparr>))) }
      | CRS_HEAD \<Rightarrow>
          do { n \<leftarrow> strlen buffer;
               (result, msg) \<leftarrow> parse_json_data api zero_msg buffer (int n);
               if result = 0
               then do { (result, s1) \<leftarrow> parse_msgtype s msg;
                         Some (exit (if result < 0 then (-2, clear_client_info s1)
                                     else if cur_parsetype_need_recvdata result then (1, s1)
                                     else (0, s1))) }
               else Some (exit (-2, clear_client_info s)) }
      | CRS_DATA \<Rightarrow> do { r \<leftarrow> crs_data api s buffer len; Some (exit r) }
      | CRS_FINISH \<Rightarrow> do { (_, s1) \<leftarrow> crs_finish fuel s; Some (Inl (0, s1)) }
      | CSR_MAX \<Rightarrow> Some (exit (-2, s)))"

text \<open>\<open>rounds\<close> bounds the rounds of the loop, \<open>fuel\<close> the blocks of the checksum.\<close>

definition parse_recv_data ::
  "nat \<Rightarrow> cjson_api \<Rightarrow> nat \<Rightarrow> ele_ds \<Rightarrow> bytes \<Rightarrow> int \<Rightarrow> ((int \<times> ele_ds) + ele_ds) option" where
  "parse_recv_data rounds api fuel s buffer len =
     (if len \<le> 0 then Some (Inl (-1, s))
      else run_loop rounds (parse_recv_body api fuel buffer (nat len)) s)"

section \<open>Threads\<close>

text \<open>
  One round of \<open>thread_parse_recv_data\<close> after the semaphore was taken; \<open>buffer\<close> is its packet
  buffer, which keeps old bytes behind a shorter packet.
\<close>

definition parse_thread_step ::
  "cjson_api \<Rightarrow> nat \<Rightarrow> ele_ds \<times> bytes \<Rightarrow> (ele_ds \<times> bytes) option" where
  "parse_thread_step api fuel = (\<lambda>(s, buffer).
     do { (len, buffer1, rb1) \<leftarrow> rt_ringbuffer_get (rb s) buffer CLIENT_RECV_PACKSIZE;
          let s1 = s\<lparr>rb := rb1\<rparr>;
          if len > 0
          then case parse_recv_data 4 api fuel s1 buffer1 (int len) of
                 Some (Inl (result, s2)) \<Rightarrow>
                   Some (if result < 0 then clear_client_info s2 else s2, buffer1)
               | _ \<Rightarrow> None
          else Some (s1, buffer1) })"

text \<open>One round of \<open>thread_communicate_server\<close> in which \<open>recv\<close> returned \<open>recvbuf\<close>.\<close>

definition communicate_step :: "ele_ds \<Rightarrow> bytes \<Rightarrow> ele_ds option" where
  "communicate_step s recvbuf =
     (if length recvbuf > 0
      then do { (result, rb1) \<leftarrow> rt_ringbuffer_put (rb s) recvbuf (length recvbuf);
                if result = 0 then Some (s\<lparr>rb := rb1\<rparr>)
                else Some (s\<lparr>rb := rb1, rb_sem := rb_sem s + 1\<rparr>) }
      else Some s)"

text \<open>
  The interleavings of the two threads: a packet of at most \<open>CLIENT_RECV_PACKSIZE\<close> bytes arrives,
  or the parser takes the semaphore and runs. The last argument is the parser's packet buffer.
\<close>

inductive client_step :: "cjson_api \<Rightarrow> nat \<Rightarrow> ele_ds \<times> bytes \<Rightarrow> ele_ds \<times> bytes \<Rightarrow> bool"
  for api :: cjson_api and fuel :: nat where
  recv: "length p \<le> CLIENT_RECV_PACKSIZE \<Longrightarrow> communicate_step s p = Some s' \<Longrightarrow>
    client_step api fuel (s, buffer) (s', buffer)"
| parse: "rb_sem s > 0 \<Longrightarrow> parse_thread_step api fuel (s\<lparr>rb_sem := rb_sem s - 1\<rparr>, buffer) = Some t \<Longrightarrow>
    client_step api fuel (s, buffer) t"

inductive_cases client_stepE: "client_step api fuel s t"

section \<open>The report to the server\<close>

record sensor_data =
  sht30_temp :: rat
  sht30_hum :: rat
  gzp_pressure :: rat

text \<open>\<open>(uint32_t)\<close> of a float, undefined out of range.\<close>

definition build_devcfg_msg :: "cjson_api \<Rightarrow> sensor_data \<Rightarrow> ele_ds_cfg_t \<Rightarrow> bytes option option" where
  "build_devcfg_msg api sd cfg =
     do { t \<leftarrow> double_to_u32 (sht30_temp sd);
          h \<leftarrow> double_to_u32 (sht30_hum sd);
          let c = clientcfg cfg;
          Some (js_print api (JObj
            [(bs ''sensor_data'', JObj [(bs ''temperature'', num (uint t)), (bs ''humidity'', num (uint h)),
                (bs ''pressure'', JNum (gzp_pressure sd))]),
             (bs ''cfg'', JObj [(bs ''username'', JStr (username c)), (bs ''passwd'', JStr (passwd c)),
                (bs ''cityname'', JStr (cityname c)), (bs ''cityid'', num (uint (cityid c))),
                (bs ''cntserver_interval'', num (uint (cntserver_interval c))),
                (bs ''version'', num (uint (version c))), (bs ''battery'', num (uint (battery c)))]),
             (bs ''msgtype'', num EMT_CLIENTMSG_INFO)])) }"

section \<open>The connection\<close>

text \<open>
  What \<^verbatim>\<open>thread_communicate_server\<close> does before its rounds and after them. The environment gives the
  results of the socket calls and whether there is memory for the packet buffer; the connection keeps
  the number of open sockets, the messages handed to \<^verbatim>\<open>send\<close> and the packet buffers allocated.
\<close>

record net_env =
  socket_ret :: int
  connect_ret :: int
  pack_mem :: bool

record connection =
  socks :: nat
  sent :: "bytes list"
  packs :: nat

text \<open>
  The flag says whether the rounds begin. \<open>None\<close> is the length of a null string: a message that could
  not be built is only warned about.
\<close>

definition communicate_start ::
  "cjson_api \<Rightarrow> net_env \<Rightarrow> sensor_data \<Rightarrow> ele_ds_cfg_t \<Rightarrow> connection \<Rightarrow> (bool \<times> connection) option" where
  "communicate_start api ev sd cfg n =
     (if socket_ret ev < 0 then Some (False, n)
      else let n = n\<lparr>socks := socks n + 1\<rparr> in
        if connect_ret ev < 0 then Some (False, n\<lparr>socks := socks n - 1\<rparr>)
        else do {
          built \<leftarrow> build_devcfg_msg api sd cfg;
          msg \<leftarrow> built;
          let n = n\<lparr>sent := sent n @ [msg]\<rparr>;
          if \<not> pack_mem ev then Some (False, n)
          else Some (True, n\<lparr>packs := packs n + 1\<rparr>) })"

definition communicate_end :: "connection \<Rightarrow> connection" where
  "communicate_end n = n\<lparr>socks := socks n - 1\<rparr>"

text \<open>
  A thread that ends closes its socket, except where the packet buffer could not be allocated; the
  packet buffer itself is never freed.
\<close>

lemma communicate_sockets:
  assumes "communicate_start api ev sd cfg n = Some (go, m)"
  shows "socks (if go then communicate_end m else m) =
      (if 0 \<le> socket_ret ev \<and> 0 \<le> connect_ret ev \<and> \<not> pack_mem ev then socks n + 1 else socks n)"
    "packs (if go then communicate_end m else m) = packs n + (if go then 1 else 0)"
    "go \<longrightarrow> (\<exists>msg. build_devcfg_msg api sd cfg = Some (Some msg) \<and> sent m = sent n @ [msg])"
  using assms by (auto simp: communicate_start_def communicate_end_def Let_def bind_eq_Some_conv split: if_splits)

section \<open>Start-up\<close>

text \<open>
  \<open>reg\<close> is the result of \<open>at_device_register\<close>; the flags say whether the allocation of the receive
  buffer, of the semaphore and of the two threads succeeded.
\<close>

definition esp8266_device_init ::
  "int \<Rightarrow> bool \<Rightarrow> bool \<Rightarrow> bool \<Rightarrow> bool \<Rightarrow> ele_ds \<Rightarrow> (int \<times> ele_ds) option" where
  "esp8266_device_init reg mem_ok sem_ok recv_ok parse_ok s =
     (if reg \<noteq> 0 then Some (-1, s)
      else if \<not> mem_ok then Some (-4, s)
      else do {
        r \<leftarrow> rt_ringbuffer_init (replicate CLIENT_RECV_BUFFSIZE 0) (int CLIENT_RECV_BUFFSIZE);
        let s1 = s\<lparr>rb := r\<rparr>;
        if \<not> sem_ok then Some (-4, s1)
        else let s2 = s1\<lparr>rb_sem := 0\<rparr> in
             if \<not> recv_ok then Some (-2, s2)
             else if \<not> parse_ok then Some (-3, s2)
             else Some (0, s2) })"

section \<open>The loop ends\<close>

fun rank :: "client_recv_state_t \<Rightarrow> nat" where
  "rank CRS_NONE = 3" | "rank CRS_HEAD = 2" | "rank CRS_DATA = 1" | "rank _ = 0"

lemma parse_msgtype_state:
  "parse_msgtype s msg = Some (r, s1) \<Longrightarrow> r \<ge> 0 \<Longrightarrow> \<not> cur_parsetype_need_recvdata r \<Longrightarrow>
   recv_state (recv_info s1) = CRS_FINISH \<and> curparse_type (recv_info s1) = EMT_SERVERMSG_MEMO"
  by (auto simp: parse_msgtype_def Let_def cur_parsetype_need_recvdata_def
      split: if_splits msg_data.splits option.splits)

lemma crs_data_state:
  "crs_data api s buffer len = Some (0, s1) \<Longrightarrow> recv_state (recv_info s1) = CRS_FINISH"
  by (auto simp: crs_data_def crs_count_def Let_def bind_Some_iff split: if_splits)

lemma parse_recv_body_rank:
  assumes "parse_recv_body api fuel buffer len s = Some (Inr s')"
  shows "rank (recv_state (recv_info s')) < rank (recv_state (recv_info s))"
proof (cases "recv_state (recv_info s)")
  case CRS_HEAD
  then show ?thesis
    using assms parse_msgtype_state
    by (fastforce simp: parse_recv_body_def Let_def bind_Some_iff split: if_splits)
next
  case CRS_DATA
  then show ?thesis
    using assms crs_data_state
    by (fastforce simp: parse_recv_body_def Let_def bind_Some_iff split: if_splits prod.splits)
qed (use assms in \<open>auto simp: parse_recv_body_def Let_def bind_Some_iff split: if_splits\<close>)

lemma parse_recv_loop_ends:
  "(\<exists>r. run_loop 4 (parse_recv_body api fuel buffer len) s = Some (Inl r)) \<or>
   run_loop 4 (parse_recv_body api fuel buffer len) s = None"
proof -
  have b: "rank x < 4" for x by (cases x) simp_all
  show ?thesis
    by (rule run_loop_measure[where P = "\<lambda>_. True" and m = "\<lambda>s. rank (recv_state (recv_info s))"])
       (use parse_recv_body_rank b in auto)
qed

section \<open>The invariant between packets\<close>

text \<open>
  Between two packets the machine waits for a header or for data. While it waits for a header
  nothing of an earlier message is left: no counts and no open file.
\<close>

definition recv_inv :: "recv_info \<Rightarrow> bool" where
  "recv_inv i \<longleftrightarrow>
     (case recv_state i of
        CRS_NONE \<Rightarrow> datalen i = 0 \<and> recv_len i = 0 \<and> update_file_fd i \<le> 0
      | CRS_DATA \<Rightarrow> curparse_type i = EMT_SERVERMSG_WEATHER \<or> curparse_type i = EMT_SERVERMSG_CLIENTUPDATE
      | _ \<Rightarrow> False)"

definition client_inv :: "ele_ds \<Rightarrow> bool" where
  "client_inv s \<longleftrightarrow> rb_inv (rb s) \<and> length (weather_info (device_cfg s)) = sizeof_weather_infos \<and>
     recv_inv (recv_info s)"

text \<open>The same inside a call.\<close>

definition call_inv :: "ele_ds \<Rightarrow> bool" where
  "call_inv s \<longleftrightarrow> rb_inv (rb s) \<and> length (weather_info (device_cfg s)) = sizeof_weather_infos \<and>
     (case recv_state (recv_info s) of
        CRS_HEAD \<Rightarrow> datalen (recv_info s) = 0 \<and> recv_len (recv_info s) = 0 \<and> update_file_fd (recv_info s) \<le> 0
      | CRS_FINISH \<Rightarrow> True
      | _ \<Rightarrow> recv_inv (recv_info s))"

lemma clear_inv:
  assumes "rb_inv (rb s)" "length (weather_info (device_cfg s)) = sizeof_weather_infos"
  shows "client_inv (clear_client_info s)"
  using assms by (simp add: clear_client_info_def client_inv_def recv_inv_def Let_def)

lemma client_call_inv: "client_inv s \<Longrightarrow> call_inv s"
  by (auto simp: client_inv_def call_inv_def recv_inv_def split: client_recv_state_t.splits)

lemma parse_msgtype_frame:
  "parse_msgtype s msg = Some (r, s1) \<Longrightarrow> rb s1 = rb s \<and> weather_info (device_cfg s1) = weather_info (device_cfg s)"
  by (auto simp: parse_msgtype_def Let_def split: if_splits msg_data.splits option.splits)

lemma parse_msgtype_data:
  "parse_msgtype s msg = Some (r, s1) \<Longrightarrow> cur_parsetype_need_recvdata r \<Longrightarrow>
   recv_state (recv_info s1) = CRS_DATA \<and> curparse_type (recv_info s1) = r"
  by (auto simp: parse_msgtype_def Let_def cur_parsetype_need_recvdata_def emt_defs
      split: if_splits msg_data.splits option.splits)

lemma crs_store_frame:
  assumes "crs_store api s buffer len = Some (ok, s1)"
  shows "rb s1 = rb s" "length (weather_info (device_cfg s1)) = length (weather_info (device_cfg s))"
    "curparse_type (recv_info s1) = curparse_type (recv_info s)" "recv_state (recv_info s1) = recv_state (recv_info s)"
  using assms
  by (auto simp: crs_store_def store_weather_def store_update_def Let_def bind_Some_iff
      dest: memcpy_length split: if_splits prod.splits)

lemma crs_data_frame:
  assumes "crs_data api s buffer len = Some (r, s1)"
  shows "rb s1 = rb s \<and> length (weather_info (device_cfg s1)) = length (weather_info (device_cfg s)) \<and>
    curparse_type (recv_info s1) = curparse_type (recv_info s) \<and>
    (r = 0 \<or> recv_state (recv_info s1) = recv_state (recv_info s))"
proof (cases "datalen (recv_info s) > 0")
  case True
  then obtain ok s2 where st: "crs_store api s buffer len = Some (ok, s2)"
    and r: "(if ok then crs_count s2 len else (-3, s2)) = (r, s1)"
    using assms by (auto simp: crs_data_def bind_Some_iff split: if_splits)
  show ?thesis
    using r crs_store_frame[OF st] by (auto simp: crs_count_def Let_def split: if_splits)
qed (use assms in \<open>auto simp: crs_data_def\<close>)

lemma crs_finish_frame:
  "crs_finish fuel s = Some (r, s1) \<Longrightarrow>
   rb s1 = rb s \<and> device_cfg s1 = device_cfg s \<and> recv_info s1 = recv_info (clear_client_info s)"
  by (auto simp: crs_finish_def Let_def bind_Some_iff clear_client_info_def split: if_splits)

lemma body_keeps_call_inv:
  assumes c: "call_inv s" and b: "parse_recv_body api fuel buffer len s = Some (Inr s')"
  shows "call_inv s'"
proof (cases "recv_state (recv_info s)")
  case CRS_HEAD
  then obtain msg q where "parse_msgtype s msg = Some (q, s')" "q \<ge> 0" "\<not> cur_parsetype_need_recvdata q"
    using b by (auto simp: parse_recv_body_def Let_def bind_Some_iff split: if_splits)
  with parse_msgtype_state[of s msg q s'] parse_msgtype_frame[of s msg q s'] c show ?thesis
    by (simp add: call_inv_def)
next
  case CRS_DATA
  then obtain r where r: "crs_data api s buffer len = Some (r, s')" "r = 0"
    using b by (auto simp: parse_recv_body_def Let_def bind_Some_iff split: if_splits prod.splits)
  with crs_data_frame[OF r(1)] crs_data_state[of api s buffer len s'] c show ?thesis
    by (simp add: call_inv_def)
qed (use c b in \<open>auto simp: parse_recv_body_def Let_def bind_Some_iff call_inv_def recv_inv_def split: if_splits\<close>)

lemma body_exit_inv:
  assumes c: "call_inv s" and b: "parse_recv_body api fuel buffer len s = Some (Inl (r, s'))"
  shows "client_inv (if r < 0 then clear_client_info s' else s')"
proof (cases "recv_state (recv_info s)")
  case CRS_NONE
  then show ?thesis
    using c b clear_inv[of s']
    by (auto simp: parse_recv_body_def Let_def bind_Some_iff call_inv_def split: if_splits)
next
  case CRS_HEAD
  have "client_inv (clear_client_info s)" using c by (intro clear_inv) (simp_all add: call_inv_def)
  moreover have "client_inv (clear_client_info s1) \<and> (cur_parsetype_need_recvdata q \<longrightarrow> client_inv s1)"
    if "parse_msgtype s msg = Some (q, s1)" for q s1 msg
    using c parse_msgtype_frame[OF that] parse_msgtype_data[OF that] clear_inv[of s1]
    by (auto simp: call_inv_def client_inv_def recv_inv_def cur_parsetype_need_recvdata_def)
  moreover have "client_inv (clear_client_info s1) \<Longrightarrow> client_inv (clear_client_info (clear_client_info s1))" for s1
    by (intro clear_inv) (simp_all add: client_inv_def)
  ultimately show ?thesis
    using CRS_HEAD b by (auto simp: parse_recv_body_def Let_def bind_Some_iff split: if_splits)
next
  case CRS_DATA
  then obtain q where q: "crs_data api s buffer len = Some (r, s')" "r \<noteq> 0"
    using b by (auto simp: parse_recv_body_def Let_def bind_Some_iff split: if_splits prod.splits)
  then show ?thesis
    using crs_data_frame[OF q(1)] c CRS_DATA clear_inv[of s']
    by (auto simp: call_inv_def client_inv_def recv_inv_def)
next
  case CRS_FINISH
  then obtain q where q: "crs_finish fuel s = Some (q, s')" "r = 0"
    using b by (auto simp: parse_recv_body_def Let_def bind_Some_iff)
  then show ?thesis
    using crs_finish_frame[OF q(1)] c clear_inv[of s] by (simp add: call_inv_def client_inv_def)
qed (use c in \<open>simp_all add: call_inv_def recv_inv_def\<close>)

lemma parse_recv_data_inv:
  assumes "client_inv s" "0 < len" and "parse_recv_data n api fuel s buffer len = Some (Inl (r, s'))"
  shows "client_inv (if r < 0 then clear_client_info s' else s')"
proof -
  define Q where "Q = (\<lambda>(r :: int, s'). client_inv (if r < 0 then clear_client_info s' else s'))"
  have loop: "run_loop n (parse_recv_body api fuel buffer (nat len)) s = Some (Inl (r, s'))"
    using assms(2,3) by (simp add: parse_recv_data_def)
  have "Q (r, s')"
  proof (rule run_loop_inv[where P = call_inv, OF _ _ client_call_inv[OF assms(1)] loop])
    show "call_inv b" if "call_inv a" "parse_recv_body api fuel buffer (nat len) a = Some (Inr b)" for a b
      using that by (rule body_keeps_call_inv)
    show "Q x" if "call_inv a" "parse_recv_body api fuel buffer (nat len) a = Some (Inl x)" for a x
      using body_exit_inv[OF that(1), of api fuel buffer "nat len" "fst x" "snd x"] that(2)
      by (simp add: Q_def split_def)
  qed
  then show ?thesis by (simp add: Q_def)
qed

section \<open>Downloading an update\<close>

text \<open>The machine has received the header of an update of \<open>n\<close> bytes and nothing of its data.\<close>

definition update_ready :: "ele_ds \<Rightarrow> nat \<Rightarrow> int \<Rightarrow> bool" where
  "update_ready s n d \<longleftrightarrow>
     recv_state (recv_info s) = CRS_DATA \<and> curparse_type (recv_info s) = EMT_SERVERMSG_CLIENTUPDATE \<and>
     datalen (recv_info s) = int n \<and> recv_len (recv_info s) = 0 \<and> update_file_fd (recv_info s) \<le> 0 \<and>
     0 < n \<and> n < 2 ^ 31 \<and> fd_alloc (fsys s) = Some d \<and>
     dirs (fsys s) (parent (update_file_name (recv_info s))) \<and> \<not> dirs (fsys s) (update_file_name (recv_info s)) \<and>
     n \<le> room (fsys s)"

text \<open>The state after the bytes \<open>c\<close> of the update have arrived.\<close>

definition upd :: "ele_ds \<Rightarrow> nat \<Rightarrow> int \<Rightarrow> bytes \<Rightarrow> ele_ds" where
  "upd s n d c =
     (if c = [] then s
      else s\<lparr>recv_info := (recv_info s)\<lparr>update_file_fd := d, recv_len := int (length c), datalen := int n - int (length c)\<rparr>,
             fsys := fs_wr (fsys s) d (update_file_name (recv_info s)) c
               (room (fsys s) + file_size (fsys s) (update_file_name (recv_info s)) - length c)\<rparr>)"

lemma upd_store:
  assumes u: "update_ready s n d" and p: "p \<noteq> []" "0 \<in> set rest" "length (c @ p) \<le> n"
  shows "crs_store api (upd s n d c) (p @ rest) (length p) =
    Some (True, (upd s n d (c @ p))\<lparr>recv_info := (recv_info s)\<lparr>update_file_fd := d,
      recv_len := int (length c), datalen := int n - int (length c)\<rparr>\<rparr>)"
proof -
  define nm where "nm = update_file_name (recv_info s)"
  define R where "R = room (fsys s) + file_size (fsys s) nm"
  have d: "3 \<le> d" using u fd_alloc_SomeD[of "fsys s" d] by (simp add: update_ready_def)
  have sl: "\<exists>k. strlen (p @ rest) = Some k" using p(2) by (simp add: strlen_def)
  have ty: "curparse_type (recv_info (upd s n d c)) = EMT_SERVERMSG_CLIENTUPDATE"
    "EMT_SERVERMSG_CLIENTUPDATE \<noteq> EMT_SERVERMSG_WEATHER"
    using u by (simp_all add: upd_def update_ready_def emt_defs)
  have le: "length c + length p \<le> R" using u p(3) by (simp add: update_ready_def R_def)
  have vw: "vwrite (fs_wr (fsys s) d nm c (R - length c)) d p =
      (int (length p), fs_wr (fsys s) d nm (c @ p) (R - length c - length p))"
    using vwrite_append[of "fs_wr (fsys s) d nm c (R - length c)" d "\<lparr>of_path = nm, of_pos = length c\<rparr>" c p] le
    by (simp add: fs_wr_def)
  show ?thesis
  proof (cases "c = []")
    case True
    have "open_w (fsys s) nm = (d, fs_wr (fsys s) d nm [] R)"
      using u open_w_ok[of "fsys s" nm d] by (simp add: update_ready_def nm_def fs_wr_def R_def)
    then show ?thesis
      using u p(1) True d sl vw ty unfolding crs_store_def
      by (auto simp: store_update_def upd_def update_ready_def nm_def[symmetric] R_def[symmetric] Let_def)
  next
    case False
    then show ?thesis
      using u p(1) d sl vw ty unfolding crs_store_def
      by (auto simp: store_update_def upd_def nm_def[symmetric] R_def[symmetric] Let_def)
  qed
qed

lemma upd_data:
  assumes u: "update_ready s n d" and p: "p \<noteq> []" "0 \<in> set rest" "length (c @ p) \<le> n"
  shows "crs_data api (upd s n d c) (p @ rest) (length p) =
    Some (if length (c @ p) = n
          then (0, (upd s n d (c @ p))\<lparr>recv_info := (recv_info (upd s n d (c @ p)))\<lparr>recv_state := CRS_FINISH\<rparr>\<rparr>)
          else (2, upd s n d (c @ p)))"
proof -
  have dl: "datalen (recv_info (upd s n d c)) = int n - int (length c)"
    using u by (simp add: upd_def update_ready_def)
  have pos: "0 < int n - int (length c)" using p by (cases p) auto
  have n: "n < 2 ^ 31" using u by (simp add: update_ready_def)
  have c1: "to_i32 (int (length c) + int (length p)) = int (length (c @ p))"
    using p(3) n by (simp add: c_conv)
  have c2: "to_i32 (int n - int (length c) - int (length p)) = int n - int (length (c @ p))"
    using p(3) n by (simp add: c_conv)
  show ?thesis
    unfolding crs_data_def dl using pos upd_store[OF u p, of api] p
    by (simp add: crs_count_def Let_def c1 c2) (auto simp: upd_def c1 c2)
qed

text \<open>The idle state after a message.\<close>

definition idle :: "recv_info \<Rightarrow> recv_info" where
  "idle i = i\<lparr>recv_state := CRS_NONE, curparse_type := EMT_CLIENTMSG_NONE, datalen := 0, recv_len := 0,
     update_file_name := [], update_file_fd := -1\<rparr>"

definition upd_done :: "ele_ds \<Rightarrow> nat \<Rightarrow> bytes \<Rightarrow> ele_ds" where
  "upd_done s n x = s\<lparr>recv_info := idle (recv_info s),
     fsys := (fsys s)\<lparr>files := (files (fsys s))(update_file_name (recv_info s) \<mapsto> x),
       room := room (fsys s) + file_size (fsys s) (update_file_name (recv_info s)) - n\<rparr>\<rparr>"

lemma upd_finish:
  assumes u: "update_ready s n d" and x: "length x = n" and fuel: "n < fuel"
  shows "crs_finish fuel ((upd s n d x)\<lparr>recv_info := (recv_info (upd s n d x))\<lparr>recv_state := CRS_FINISH\<rparr>\<rparr>) =
    Some (if crc32_ref x = update_file_crc (recv_info s) then 1 else -4, upd_done s n x)"
proof -
  define nm where "nm = update_file_name (recv_info s)"
  define s1 where "s1 = (upd s n d x)\<lparr>recv_info := (recv_info (upd s n d x))\<lparr>recv_state := CRS_FINISH\<rparr>\<rparr>"
  have xne: "x \<noteq> []" using u x by (auto simp: update_ready_def)
  have fd: "fd_alloc (fsys s) = Some d" using u by (simp add: update_ready_def)
  note dd = fd_alloc_SomeD[OF fd]
  have cl: "clear_client_info s1 = upd_done s n x"
    using dd xne x
    by (simp add: clear_client_info_def s1_def upd_def upd_done_def idle_def vclose_def fs_wr_def Let_def fun_upd_idem)
  have a: "fd_alloc (fsys (upd_done s n x)) = Some d" using fd by (simp add: upd_done_def fd_alloc_def)
  have "crcfile fuel (fsys (upd_done s n x)) [bs ''crcfile'', nm] = Some (crc32_ref x, fsys (upd_done s n x))"
    by (rule crcfile_ok[OF _ a]) (use x fuel in \<open>simp_all add: upd_done_def nm_def\<close>)
  moreover have "curparse_type (recv_info s1) = EMT_SERVERMSG_CLIENTUPDATE" "update_file_name (recv_info s1) = nm"
    "update_file_crc (recv_info s1) = update_file_crc (recv_info s)"
    using u by (simp_all add: s1_def upd_def nm_def update_ready_def)
  ultimately show ?thesis
    unfolding s1_def[symmetric] crs_finish_def by (simp add: cl Let_def)
qed

lemma upd_packet:
  assumes u: "update_ready s n d" and p: "p \<noteq> []" "0 \<in> set rest" "length (c @ p) \<le> n" and fuel: "n < fuel"
  shows "parse_recv_data 4 api fuel (upd s n d c) (p @ rest) (int (length p)) =
    Some (Inl (if length (c @ p) = n then (0, upd_done s n (c @ p)) else (2, upd s n d (c @ p))))"
proof -
  have st: "recv_state (recv_info (upd s n d c)) = CRS_DATA" using u by (simp add: upd_def update_ready_def)
  have four: "4 = Suc (Suc (Suc (Suc 0)))" by simp
  show ?thesis
  proof (cases "length (c @ p) = n")
    case True
    define s1 where "s1 = (upd s n d (c @ p))\<lparr>recv_info := (recv_info (upd s n d (c @ p)))\<lparr>recv_state := CRS_FINISH\<rparr>\<rparr>"
    have "parse_recv_body api fuel (p @ rest) (length p) (upd s n d c) = Some (Inr s1)"
      using upd_data[OF u p, of api] True st by (simp add: parse_recv_body_def s1_def)
    moreover have "parse_recv_body api fuel (p @ rest) (length p) s1 = Some (Inl (0, upd_done s n (c @ p)))"
      using upd_finish[OF u True fuel] by (simp add: parse_recv_body_def s1_def)
    ultimately show ?thesis using p(1) True by (simp add: parse_recv_data_def four)
  next
    case False
    have "parse_recv_body api fuel (p @ rest) (length p) (upd s n d c) = Some (Inl (2, upd s n d (c @ p)))"
      using upd_data[OF u p, of api] False st by (simp add: parse_recv_body_def)
    then show ?thesis using p(1) False by (simp add: parse_recv_data_def four)
  qed
qed

text \<open>
  A run of the parser over packets, each given with the old bytes behind it in the packet buffer:
  the results of the calls and the final state.
\<close>

fun feed :: "cjson_api \<Rightarrow> nat \<Rightarrow> ele_ds \<Rightarrow> (bytes \<times> bytes) list \<Rightarrow> (int list \<times> ele_ds) option" where
  "feed api fuel s [] = Some ([], s)"
| "feed api fuel s ((p, rest) # ps) =
     (case parse_recv_data 4 api fuel s (p @ rest) (int (length p)) of
        Some (Inl (r, s1)) \<Rightarrow> map_option (\<lambda>(rs, s2). (r # rs, s2)) (feed api fuel s1 ps)
      | _ \<Rightarrow> None)"

lemma upd_feed:
  assumes u: "update_ready s n d" and fuel: "n < fuel"
  shows "ps \<noteq> [] \<Longrightarrow> \<forall>(p, rest) \<in> set ps. p \<noteq> [] \<and> 0 \<in> set rest \<Longrightarrow>
    length (c @ concat (map fst ps)) = n \<Longrightarrow>
    feed api fuel (upd s n d c) ps = Some (replicate (length ps - 1) 2 @ [0], upd_done s n (c @ concat (map fst ps)))"
proof (induction ps arbitrary: c)
  case (Cons q ps)
  obtain p rest where q: "q = (p, rest)" by (cases q)
  have p: "p \<noteq> []" "0 \<in> set rest" "length (c @ p) \<le> n" using Cons.prems by (auto simp: q)
  show ?case
  proof (cases "ps = []")
    case True
    then show ?thesis using upd_packet[OF u p fuel, of api] Cons.prems(3) by (simp add: q)
  next
    case False
    then obtain q' ps' where ps: "ps = q' # ps'" by (cases ps) auto
    have "fst q' \<noteq> []" using Cons.prems(2) ps by (cases q') auto
    then have "length (c @ p) \<noteq> n" using Cons.prems(3) by (cases q') (auto simp: q ps)
    then have "parse_recv_data 4 api fuel (upd s n d c) (p @ rest) (int (length p)) = Some (Inl (2, upd s n d (c @ p)))"
      using upd_packet[OF u p fuel, of api] by simp
    moreover have "feed api fuel (upd s n d (c @ p)) ps =
        Some (replicate (length ps - 1) 2 @ [0], upd_done s n ((c @ p) @ concat (map fst ps)))"
      using Cons.IH[OF False, of "c @ p"] Cons.prems(2,3) by (simp add: q)
    ultimately show ?thesis by (simp add: q ps)
  qed
qed simp

section \<open>Header messages\<close>

definition json_text :: "bytes \<Rightarrow> bool" where
  "json_text t \<longleftrightarrow> 0 \<notin> set t \<and> 2 \<le> length t \<and> hd t = 123 \<and> last t = 125"

lemma json_textD:
  assumes "json_text t"
  shows "strlen (t @ 0 # rest) = Some (length t)" "is_json (Some (t @ 0 # rest)) (length t) = Some True"
    "c_str (t @ 0 # rest) = t" "0 < length t"
proof -
  from assms have ne: "t \<noteq> []" by (auto simp: json_text_def)
  then have t: "0 \<notin> set t" "2 \<le> length t" "t ! 0 = 123" "t ! (length t - 1) = 125" "t \<noteq> []"
    using assms by (simp_all add: json_text_def hd_conv_nth last_conv_nth)
  then show "strlen (t @ 0 # rest) = Some (length t)" "c_str (t @ 0 # rest) = t" "0 < length t"
    by (simp_all add: strlen_append_zero c_str_append_zero)
  show "is_json (Some (t @ 0 # rest)) (length t) = Some True"
    using t by (simp add: is_json_def load_def nth_append)
qed

text \<open>The header of an update and of a memo as the server sends them.\<close>

definition update_root :: "nat \<Rightarrow> u32 \<Rightarrow> int \<Rightarrow> bytes \<Rightarrow> int \<Rightarrow> cjson" where
  "update_root n crc ver build cnt = JObj
     [(bs ''msgtype'', num EMT_SERVERMSG_CLIENTUPDATE), (bs ''packcnt'', num cnt),
      (bs ''packinfo'', JObj [(bs ''len'', num (int n)), (bs ''crc'', num (uint crc)),
         (bs ''version'', num ver), (bs ''buildinfo'', JStr build)])]"

definition memo_root :: "bytes \<Rightarrow> int \<Rightarrow> int \<Rightarrow> cjson" where
  "memo_root m n cnt = JObj
     [(bs ''msgtype'', num EMT_SERVERMSG_MEMO), (bs ''packcnt'', num cnt),
      (bs ''packinfo'', JObj [(bs ''len'', num n), (bs ''message'', JStr m)])]"

lemma root_lookup:
  "cJSON_GetObjectItem (JObj [(bs ''msgtype'', t), (bs ''packcnt'', c), (bs ''packinfo'', p)]) (bs ''packinfo'') = Some p"
  "cJSON_GetObjectItem (JObj [(bs ''msgtype'', t), (bs ''packcnt'', c), (bs ''packinfo'', p)]) (bs ''packcnt'') = Some c"
  "cJSON_GetObjectItem (JObj [(bs ''msgtype'', t), (bs ''packcnt'', c), (bs ''packinfo'', p)]) (bs ''msgtype'') = Some t"
  by (simp_all add: same_name_bs to_lower_def)

lemma pack_lookup:
  "cJSON_GetObjectItem (JObj [(bs ''len'', l), (bs ''crc'', c), (bs ''version'', v), (bs ''buildinfo'', b)]) (bs ''len'') = Some l"
  "cJSON_GetObjectItem (JObj [(bs ''len'', l), (bs ''crc'', c), (bs ''version'', v), (bs ''buildinfo'', b)]) (bs ''crc'') = Some c"
  "cJSON_GetObjectItem (JObj [(bs ''len'', l), (bs ''crc'', c), (bs ''version'', v), (bs ''buildinfo'', b)]) (bs ''version'') = Some v"
  "cJSON_GetObjectItem (JObj [(bs ''len'', l), (bs ''crc'', c), (bs ''version'', v), (bs ''buildinfo'', b)]) (bs ''buildinfo'') = Some b"
  "cJSON_GetObjectItem (JObj [(bs ''len'', l), (bs ''message'', m)]) (bs ''len'') = Some l"
  "cJSON_GetObjectItem (JObj [(bs ''len'', l), (bs ''message'', m)]) (bs ''message'') = Some m"
  by (simp_all add: same_name_bs to_lower_def)

lemma double_u32: "double_to_u32 (valuedouble (num (uint (x :: u32)))) = Some x"
proof -
  define i where "i = uint x"
  have i: "0 \<le> i" "i < 4294967296" using uint_bounded[of x] by (simp_all add: i_def)
  then have "(of_int i :: rat) < of_int 4294967296" "(0 :: rat) \<le> of_int i"
    by (simp_all only: of_int_less_iff of_int_0_le_iff)
  then have "double_to_u32 (valuedouble (num i)) = Some (of_int i)"
    by (simp add: double_to_u32_def trunc_def num_def)
  then show ?thesis by (simp add: i_def)
qed

lemma parse_update_header:
  assumes t: "json_text t" and api: "js_parse api t = Some (update_root n crc ver build cnt)" and n: "n < 2 ^ 31"
  shows "parse_json_data api zero_msg (t @ 0 # rest) (int (length t)) =
    Some (0, \<lparr>msg_data = Cs_info \<lparr>cs_crc = crc, cs_len = of_nat n, cs_version = of_int (valueint (num ver)),
        cs_buildinfo = take 31 build\<rparr>,
      msg_len = of_nat n, msg_packcnt = of_int (valueint (num cnt)), msg_msgtype = EMT_SERVERMSG_CLIENTUPDATE\<rparr>)"
proof -
  have vn: "valueint (num (int n)) = int n" "valueint (num EMT_SERVERMSG_CLIENTUPDATE) = EMT_SERVERMSG_CLIENTUPDATE"
    using n by (auto intro!: valueint_num simp: emt_defs)
  have ne: "EMT_SERVERMSG_CLIENTUPDATE \<noteq> EMT_SERVERMSG_MEMO" "EMT_SERVERMSG_CLIENTUPDATE \<noteq> EMT_SERVERMSG_WEATHER"
    by (simp_all add: emt_defs)
  show ?thesis
    using json_textD[OF t] api ne
    by (simp add: parse_json_data_def update_root_def root_lookup pack_lookup get_int_def vn double_u32
        strncpy_def zero_msg_def del: cJSON_GetObjectItem.simps)
qed

lemma update_header_ready:
  assumes inv: "client_inv s" "recv_state (recv_info s) = CRS_NONE"
    and t: "json_text t" and api: "js_parse api t = Some (update_root n crc ver build cnt)"
    and n: "0 < n" "n < 2 ^ 31"
  defines "nm \<equiv> UPDATE_DIR @ slash # take 31 build"
  shows "parse_recv_data 4 api fuel s (t @ 0 # rest) (int (length t)) = Some (Inl (1,
    s\<lparr>recv_info := (recv_info s)\<lparr>recv_state := CRS_DATA, curparse_type := EMT_SERVERMSG_CLIENTUPDATE,
      update_file_crc := crc, datalen := int n, update_file_name := nm\<rparr>\<rparr>))"
proof -
  define s1 where "s1 = s\<lparr>recv_info := (recv_info s)\<lparr>recv_state := CRS_HEAD\<rparr>\<rparr>"
  note J = json_textD(1-3)[OF t, of rest] json_textD(4)[OF t]
  have b1: "parse_recv_body api fuel (t @ 0 # rest) (length t) s = Some (Inr s1)"
    using inv J by (simp add: parse_recv_body_def s1_def)
  have sn: "sint (of_nat n :: u32) = int n" using n(2) by (rule sint_of_nat_u32)
  have ne: "EMT_SERVERMSG_CLIENTUPDATE \<noteq> EMT_SERVERMSG_MEMO" "EMT_SERVERMSG_CLIENTUPDATE \<noteq> EMT_SERVERMSG_WEATHER"
    "\<not> EMT_SERVERMSG_CLIENTUPDATE < 0"
    by (simp_all add: emt_defs)
  have b2: "parse_recv_body api fuel (t @ 0 # rest) (length t) s1 = Some (Inl (1,
     s\<lparr>recv_info := (recv_info s)\<lparr>recv_state := CRS_DATA, curparse_type := EMT_SERVERMSG_CLIENTUPDATE,
      update_file_crc := crc, datalen := int n, update_file_name := nm\<rparr>\<rparr>))"
    using J ne parse_update_header[OF t api n(2), of rest]
    by (simp add: parse_recv_body_def s1_def parse_msgtype_def Let_def cur_parsetype_need_recvdata_def sn nm_def)
  have four: "4 = Suc (Suc (Suc (Suc 0)))" by simp
  show ?thesis using J(4) b1 b2 by (simp add: parse_recv_data_def four)
qed

lemma parse_memo_header:
  assumes t: "json_text t" and api: "js_parse api t = Some (memo_root m n cnt)"
  shows "parse_json_data api zero_msg (t @ 0 # rest) (int (length t)) =
    Some (0, \<lparr>msg_data = Memo (Some m), msg_len = of_int (valueint (num n)),
      msg_packcnt = of_int (valueint (num cnt)), msg_msgtype = EMT_SERVERMSG_MEMO\<rparr>)"
proof -
  have vn: "valueint (num EMT_SERVERMSG_MEMO) = EMT_SERVERMSG_MEMO"
    by (auto intro!: valueint_num simp: emt_defs)
  show ?thesis
    using json_textD[OF t] api
    by (simp add: parse_json_data_def memo_root_def root_lookup pack_lookup get_int_def vn zero_msg_def
        del: cJSON_GetObjectItem.simps)
qed

section \<open>Threads\<close>

lemma communicate_inv:
  assumes "client_inv s" "communicate_step s p = Some s'"
  shows "client_inv s'"
proof (cases "p = []")
  case False
  have "rb_inv (rb s)" using assms(1) by (simp add: client_inv_def)
  from put_spec[OF this order_refl, of p] obtain k rb' where
    "rt_ringbuffer_put (rb s) p (length p) = Some (k, rb')" "rb_inv rb'" by blast
  then show ?thesis
    using assms False by (auto simp: communicate_step_def client_inv_def split: if_splits)
qed (use assms in \<open>simp add: communicate_step_def\<close>)

lemma parse_thread_inv:
  assumes inv: "client_inv s" "length buffer = CLIENT_RECV_PACKSIZE"
    and st: "parse_thread_step api fuel (s, buffer) = Some (s', buffer')"
  shows "client_inv s' \<and> length buffer' = CLIENT_RECV_PACKSIZE"
proof -
  have r: "rb_inv (rb s)" using inv(1) by (simp add: client_inv_def)
  from get_spec[OF r, of CLIENT_RECV_PACKSIZE buffer] inv(2) obtain len b1 rb1 where
    g: "rt_ringbuffer_get (rb s) buffer CLIENT_RECV_PACKSIZE = Some (len, b1, rb1)"
    and l: "rb_inv rb1" "length b1 = CLIENT_RECV_PACKSIZE" by auto
  have i1: "client_inv (s\<lparr>rb := rb1\<rparr>)" using inv(1) l(1) by (simp add: client_inv_def)
  show ?thesis
  proof (cases "len > 0")
    case True
    then obtain q s2 where "parse_recv_data 4 api fuel (s\<lparr>rb := rb1\<rparr>) b1 (int len) = Some (Inl (q, s2))"
      "s' = (if q < 0 then clear_client_info s2 else s2)" "buffer' = b1"
      using st by (auto simp: parse_thread_step_def g Let_def split: option.splits sum.splits)
    then show ?thesis using parse_recv_data_inv[OF i1, of "int len"] True l(2) by simp
  next
    case False
    then show ?thesis using st i1 l(2) by (auto simp: parse_thread_step_def g Let_def)
  qed
qed

lemma client_inv_sem: "client_inv (s\<lparr>rb_sem := k\<rparr>) = client_inv s"
  by (simp add: client_inv_def)

definition sys_inv :: "ele_ds \<times> bytes \<Rightarrow> bool" where
  "sys_inv t \<longleftrightarrow> client_inv (fst t) \<and> length (snd t) = CLIENT_RECV_PACKSIZE"

lemma client_step_inv:
  assumes "client_step api fuel t t'" "sys_inv t"
  shows "sys_inv t'"
  using assms
proof (induction rule: client_step.induct)
  case (recv p s s' buffer)
  then show ?case using communicate_inv by (auto simp: sys_inv_def)
next
  case (parse s buffer t)
  then show ?case
    using parse_thread_inv[of "s\<lparr>rb_sem := rb_sem s - 1\<rparr>" buffer api fuel "fst t" "snd t"]
    by (simp add: sys_inv_def client_inv_sem)
qed

text \<open>The states in which the two threads start.\<close>

definition client_booted :: "ele_ds \<times> bytes \<Rightarrow> bool" where
  "client_booted t \<longleftrightarrow> snd t = replicate CLIENT_RECV_PACKSIZE 0 \<and>
     (\<exists>s0. esp8266_device_init 0 True True True True s0 = Some (0, fst t) \<and> recv_inv (recv_info s0) \<and>
        length (weather_info (device_cfg s0)) = sizeof_weather_infos)"

lemma client_booted_inv:
  assumes "client_booted t"
  shows "sys_inv t"
proof -
  have "\<exists>r. rt_ringbuffer_init (replicate CLIENT_RECV_BUFFSIZE 0) (int CLIENT_RECV_BUFFSIZE) = Some r \<and> rb_inv r"
    using init_spec[of "int CLIENT_RECV_BUFFSIZE" "replicate CLIENT_RECV_BUFFSIZE 0"]
    by (auto simp: CLIENT_RECV_BUFFSIZE_def CLIENT_RECV_PACKSIZE_def)
  moreover obtain s b where t: "t = (s, b)" by fastforce
  ultimately have "client_inv s"
    using assms by (auto simp: client_booted_def esp8266_device_init_def client_inv_def Let_def)
  then show ?thesis using assms by (simp add: t sys_inv_def client_booted_def)
qed

interpretation clm: machine client_booted "client_step api fuel" sys_inv for api fuel
  by unfold_locales (auto intro: client_booted_inv client_step_inv)

lemma update_run:
  assumes "client_inv s" "recv_state (recv_info s) = CRS_NONE"
    and "json_text t" "js_parse api t = Some (update_root n crc ver build cnt)" "0 < n" "n < 2 ^ 31"
    and "nm = UPDATE_DIR @ slash # take 31 build"
    and "fd_alloc (fsys s) = Some d" "dirs (fsys s) (parent nm)" "\<not> dirs (fsys s) nm" "n \<le> room (fsys s)"
    and "ps \<noteq> []" "\<forall>(p, old) \<in> set ps. p \<noteq> [] \<and> 0 \<in> set old"
    and "length (concat (map fst ps)) = n" "n < fuel"
  shows "\<exists>s'. feed api fuel s ((t, 0 # rest) # ps) = Some (1 # replicate (length ps - 1) 2 @ [0], s') \<and>
    fsys s' = (fsys s)\<lparr>files := (files (fsys s))(nm \<mapsto> concat (map fst ps)),
      room := room (fsys s) + file_size (fsys s) nm - n\<rparr> \<and>
    client_inv s' \<and> recv_state (recv_info s') = CRS_NONE"
proof -
  define s1 where "s1 = s\<lparr>recv_info := (recv_info s)\<lparr>recv_state := CRS_DATA,
    curparse_type := EMT_SERVERMSG_CLIENTUPDATE, update_file_crc := crc, datalen := int n, update_file_name := nm\<rparr>\<rparr>"
  have h: "parse_recv_data 4 api fuel s (t @ 0 # rest) (int (length t)) = Some (Inl (1, s1))"
    using update_header_ready[OF assms(1-6)] by (simp add: s1_def assms(7))
  have u: "update_ready s1 n d"
    using assms by (simp add: update_ready_def s1_def client_inv_def recv_inv_def)
  have s1u: "upd s1 n d [] = s1" by (simp add: upd_def)
  have f: "feed api fuel s1 ps = Some (replicate (length ps - 1) 2 @ [0], upd_done s1 n (concat (map fst ps)))"
    using upd_feed[OF u assms(15,12,13), of "[]" api] assms(14) by (simp add: s1u)
  have "client_inv (upd_done s1 n (concat (map fst ps)))"
    using assms(1) by (simp add: client_inv_def upd_done_def s1_def recv_inv_def idle_def)
  then show ?thesis
    using h f by (simp add: upd_done_def s1_def idle_def)
qed

section \<open>Properties\<close>


definition cl_fs :: vfs where
  "cl_fs = \<lparr>files = Map.empty, dirs = (\<lambda>p. p = UPDATE_DIR), fds = Map.empty, room = 65536\<rparr>"

definition cl_start :: ele_ds where
  "cl_start = \<lparr>device_cfg = zero_cfg,
     recv_info = \<lparr>recv_state = CRS_NONE, curparse_type = 0, datalen = 0, recv_len = 0, update_file_fd = 0,
       update_file_name = [], update_file_crc = 0\<rparr>,
     rb = rb16, rb_sem = 0, fsys = cl_fs\<rparr>"

definition cl_api :: cjson_api where
  "cl_api = \<lparr>js_print = (\<lambda>_. Some [123, 125]), js_parse = (\<lambda>_. Some (update_root 3 7 1 [97] 0))\<rparr>"

lemma cl_start_inv: "client_inv cl_start"
  by (simp add: cl_start_def client_inv_def recv_inv_def rb_inv_def rb16_def zero_cfg_def)

lemma cl_path: "parent (UPDATE_DIR @ slash # [97]) = UPDATE_DIR" "UPDATE_DIR @ slash # [97] \<noteq> UPDATE_DIR"
  using parent_append[of "[97]" UPDATE_DIR] by (simp_all add: slash_def)


text \<open>
  C23. A failed checksum goes unnoticed: when the received file does not have the announced CRC-32,
  the finishing step computes the error -4 and drops it; the call returns 0, exactly as for a good
  file, and the damaged file stays in the update directory.
\<close>

theorem update_bad_crc_accepted:
  assumes "update_ready s n d" "length x = n" "n < fuel" "crc32_ref x \<noteq> update_file_crc (recv_info s)"
    and "s1 = (upd s n d x)\<lparr>recv_info := (recv_info (upd s n d x))\<lparr>recv_state := CRS_FINISH\<rparr>\<rparr>"
    and "0 < len"
  shows "\<exists>s2. crs_finish fuel s1 = Some (-4, s2) \<and>
    parse_recv_data 4 api fuel s1 buffer len = Some (Inl (0, s2)) \<and>
    files (fsys s2) (update_file_name (recv_info s)) = Some x \<and> recv_state (recv_info s2) = CRS_NONE"
proof -
  have f: "crs_finish fuel s1 = Some (-4, upd_done s n x)"
    using upd_finish[OF assms(1-3)] assms(4,5) by simp
  have "recv_state (recv_info s1) = CRS_FINISH" by (simp add: assms(5))
  then have "parse_recv_data 4 api fuel s1 buffer len = Some (Inl (0, upd_done s n x))"
    using f assms(6) by (simp add: parse_recv_data_def parse_recv_body_def numeral_eq_Suc)
  then show ?thesis using f by (simp add: upd_done_def idle_def)
qed

definition cl_ready :: ele_ds where
  "cl_ready = cl_start\<lparr>recv_info := (recv_info cl_start)\<lparr>recv_state := CRS_DATA,
     curparse_type := EMT_SERVERMSG_CLIENTUPDATE, datalen := 1, update_file_name := UPDATE_DIR @ slash # [97],
     update_file_crc := crc32_ref [1]\<rparr>\<rparr>"

theorem update_bad_crc_accepted_witness:
  "\<exists>s2. crs_finish 2 ((upd cl_ready 1 3 [0])\<lparr>recv_info := (recv_info (upd cl_ready 1 3 [0]))\<lparr>recv_state := CRS_FINISH\<rparr>\<rparr>) =
      Some (-4, s2) \<and>
    parse_recv_data 4 cl_api 2
      ((upd cl_ready 1 3 [0])\<lparr>recv_info := (recv_info (upd cl_ready 1 3 [0]))\<lparr>recv_state := CRS_FINISH\<rparr>\<rparr>) [0] 1 =
      Some (Inl (0, s2)) \<and>
    files (fsys s2) (update_file_name (recv_info cl_ready)) = Some [0] \<and> recv_state (recv_info s2) = CRS_NONE"
  by (rule update_bad_crc_accepted[where n = 1 and d = 3 and x = "[0]"])
     (simp_all add: update_ready_def cl_ready_def cl_start_def cl_fs_def fd_alloc_def fd_list_def cl_path crc32_ref_single[of 0 1 "[]" "[]", simplified])

text \<open>
  C5. After start-up the client's state stays well formed under every interleaving of the two
  threads and whatever the server sends: whenever a step is defined, afterwards the ring buffer
  satisfies its invariant, the forecast keeps its size, the packet buffer its length, and the
  receive machine waits either for data of a known type or for a header with nothing left over
  from earlier messages.
\<close>

theorem client_invariant:
  assumes "esp8266_device_init 0 True True True True s0 = Some (0, s)"
    and "recv_inv (recv_info s0)" "length (weather_info (device_cfg s0)) = sizeof_weather_infos"
    and "(client_step api fuel)\<^sup>*\<^sup>* (s, replicate CLIENT_RECV_PACKSIZE 0) (s', buffer)"
  shows "rb_inv (rb s') \<and> length (weather_info (device_cfg s')) = sizeof_weather_infos \<and>
    recv_inv (recv_info s') \<and> length buffer = CLIENT_RECV_PACKSIZE"
proof -
  have "client_booted (s, replicate CLIENT_RECV_PACKSIZE 0)" using assms(1-3) by (auto simp: client_booted_def)
  from clm.reachable[OF assms(4) this] show ?thesis by (simp add: sys_inv_def client_inv_def)
qed

theorem client_invariant_witness:
  "\<exists>s. esp8266_device_init 0 True True True True cl_start = Some (0, s) \<and>
    rb_inv (rb s) \<and> length (weather_info (device_cfg s)) = sizeof_weather_infos \<and>
    recv_inv (recv_info s) \<and> length (replicate CLIENT_RECV_PACKSIZE (0 :: u8)) = CLIENT_RECV_PACKSIZE"
proof -
  obtain s where s: "esp8266_device_init 0 True True True True cl_start = Some (0, s)"
    by (simp add: esp8266_device_init_def rt_ringbuffer_init_def CLIENT_RECV_BUFFSIZE_def
        CLIENT_RECV_PACKSIZE_def Let_def)
  have "recv_inv (recv_info cl_start)" "length (weather_info (device_cfg cl_start)) = sizeof_weather_infos"
    using cl_start_inv by (simp_all add: client_inv_def)
  from client_invariant[OF s this rtranclp.rtrancl_refl[of "client_step cl_api 0"]] s show ?thesis by blast
qed


text \<open>
  A memo of up to 255 bytes is stored in the configuration and the client is idle again; a
  longer one overruns the 256-byte array.
\<close>

theorem memo_stored:
  assumes "client_inv s" "recv_state (recv_info s) = CRS_NONE"
    and "json_text t" "js_parse api t = Some (memo_root m n cnt)"
  shows "parse_recv_data 4 api fuel s (t @ 0 # rest) (int (length t)) =
    (if length m < CLIENT_CHEAT_CONTENT_SIZE
     then Some (Inl (0, clear_client_info (s\<lparr>device_cfg := (device_cfg s)\<lparr>memo := m\<rparr>\<rparr>)))
     else None)"
proof -
  define s1 where "s1 = s\<lparr>recv_info := (recv_info s)\<lparr>recv_state := CRS_HEAD\<rparr>\<rparr>"
  define s2 where "s2 = s\<lparr>device_cfg := (device_cfg s)\<lparr>memo := m\<rparr>,
    recv_info := (recv_info s)\<lparr>recv_state := CRS_FINISH, curparse_type := EMT_SERVERMSG_MEMO\<rparr>\<rparr>"
  note J = json_textD(1-3)[OF assms(3), of rest] json_textD(4)[OF assms(3)]
  have ne: "\<not> EMT_SERVERMSG_MEMO < 0" "\<not> cur_parsetype_need_recvdata EMT_SERVERMSG_MEMO"
    "EMT_SERVERMSG_MEMO \<noteq> EMT_SERVERMSG_CLIENTUPDATE"
    by (simp_all add: cur_parsetype_need_recvdata_def emt_defs)
  have b1: "parse_recv_body api fuel (t @ 0 # rest) (length t) s = Some (Inr s1)"
    using assms(2) J by (simp add: parse_recv_body_def s1_def)
  have b2: "parse_recv_body api fuel (t @ 0 # rest) (length t) s1 =
      (if length m < CLIENT_CHEAT_CONTENT_SIZE then Some (Inr s2) else None)"
    using J ne parse_memo_header[OF assms(3,4), of rest]
    by (simp add: parse_recv_body_def s1_def s2_def parse_msgtype_def Let_def)
  have "clear_client_info s2 = clear_client_info (s\<lparr>device_cfg := (device_cfg s)\<lparr>memo := m\<rparr>\<rparr>)"
    by (simp add: clear_client_info_def s2_def Let_def)
  then have "crs_finish fuel s2 = Some (0, clear_client_info (s\<lparr>device_cfg := (device_cfg s)\<lparr>memo := m\<rparr>\<rparr>))"
    using ne(3) unfolding crs_finish_def by (simp add: s2_def)
  moreover have "recv_state (recv_info s2) = CRS_FINISH" by (simp add: s2_def)
  ultimately have b3: "parse_recv_body api fuel (t @ 0 # rest) (length t) s2 =
      Some (Inl (0, clear_client_info (s\<lparr>device_cfg := (device_cfg s)\<lparr>memo := m\<rparr>\<rparr>)))"
    by (simp add: parse_recv_body_def)
  show ?thesis using J(4) b1 b2 b3 by (simp add: parse_recv_data_def numeral_eq_Suc)
qed

theorem memo_stored_witness:
  "parse_recv_data 4 \<lparr>js_print = (\<lambda>_. None), js_parse = (\<lambda>_. Some (memo_root [104, 105] 2 0))\<rparr> 0 cl_start
      ([123, 125] @ 0 # []) (int (length [123, 125 :: u8])) =
    (if length [104, 105 :: u8] < CLIENT_CHEAT_CONTENT_SIZE
     then Some (Inl (0, clear_client_info (cl_start\<lparr>device_cfg := (device_cfg cl_start)\<lparr>memo := [104, 105]\<rparr>\<rparr>)))
     else None)"
  by (rule memo_stored[where n = 2 and cnt = 0]) (simp_all add: cl_start_inv, simp_all add: cl_start_def json_text_def)

text \<open>
  C35. The forecast is not protected against its sender: a packet that reaches past the 1176 bytes
  of the seven days while a forecast is being received is copied out of bounds.
\<close>

theorem weather_overflow:
  assumes "recv_state (recv_info s) = CRS_DATA" "curparse_type (recv_info s) = EMT_SERVERMSG_WEATHER"
    and "datalen (recv_info s) > 0" "length (weather_info (device_cfg s)) = sizeof_weather_infos"
    and "recv_len (recv_info s) + int len > 1176" and "0 < len"
  shows "parse_recv_data (Suc k) api fuel s buffer (int len) = None"
proof -
  have "crs_store api s buffer len = None"
    using assms(2,4,5)
    by (auto simp: crs_store_def store_weather_def memcpy_def sizeof_weather_infos_def sizeof_weather_info_def)
  then show ?thesis
    using assms(1,3,6) by (auto simp: parse_recv_data_def parse_recv_body_def crs_data_def)
qed

theorem weather_overflow_witness:
  "parse_recv_data (Suc 3) cl_api 0 (cl_start\<lparr>recv_info := (recv_info cl_start)\<lparr>recv_state := CRS_DATA,
      curparse_type := EMT_SERVERMSG_WEATHER, datalen := 1400\<rparr>\<rparr>) (replicate 1500 0) (int 1400) = None"
  by (rule weather_overflow) (simp_all add: cl_start_def zero_cfg_def)

text \<open>
  C34. Message boundaries are not kept by the ring buffer: if a header and data behind it are both
  in the buffer when the parser runs, or anything else that does not end in a closing brace or
  bracket, the idle client drops all of it and stays idle, so a download starts only if the parser
  runs between the two packets.
\<close>

theorem coalesced_packets_lost:
  assumes "client_inv s" "recv_state (recv_info s) = CRS_NONE" "rb_contents (rb s) = x"
    and "x \<noteq> []" "0 \<notin> set x" "length x < CLIENT_RECV_PACKSIZE" "last x \<noteq> 125" "last x \<noteq> 93"
    and "length buffer = CLIENT_RECV_PACKSIZE" "buffer ! length x = 0"
  shows "\<exists>s' buffer'. parse_thread_step api fuel (s, buffer) = Some (s', buffer') \<and>
    rb_contents (rb s') = [] \<and> recv_state (recv_info s') = CRS_NONE \<and> device_cfg s' = device_cfg s \<and> fsys s' = fsys s"
proof -
  have r: "rb_inv (rb s)" using assms(1) by (simp add: client_inv_def)
  have m: "min (length x) CLIENT_RECV_PACKSIZE = length x" using assms(6) by simp
  define b1 where "b1 = x @ drop (length x) buffer"
  from get_spec[OF r, of CLIENT_RECV_PACKSIZE buffer] assms(3,9) m obtain rb1 where
    g: "rt_ringbuffer_get (rb s) buffer CLIENT_RECV_PACKSIZE = Some (length x, b1, rb1)"
    and c: "rb_contents rb1 = []" by (auto simp: b1_def)
  have "drop (length x) buffer = 0 # drop (Suc (length x)) buffer"
    using assms(6,9,10) by (metis Cons_nth_drop_Suc)
  then have b: "b1 = x @ 0 # drop (Suc (length x)) buffer" by (simp add: b1_def)
  have sl: "strlen b1 = Some (length x)" using assms(5) by (simp add: b strlen_append_zero)
  have "is_json (Some b1) (length x) = Some False"
    using assms(4,7,8) by (auto simp: is_json_def load_def b nth_append last_conv_nth)
  moreover have st: "recv_info s\<lparr>recv_state := CRS_NONE\<rparr> = recv_info s" using assms(2) by simp
  ultimately have "parse_recv_data 4 api fuel (s\<lparr>rb := rb1\<rparr>) b1 (int (length x)) = Some (Inl (-1, s\<lparr>rb := rb1\<rparr>))"
    using assms(2,4) sl by (simp add: parse_recv_data_def parse_recv_body_def numeral_eq_Suc)
  moreover have "update_file_fd (recv_info s) \<le> 0" using assms(1,2) by (simp add: client_inv_def recv_inv_def)
  ultimately show ?thesis
    using c assms(4) by (simp add: parse_thread_step_def g clear_client_info_def Let_def)
qed

definition cl_two :: ele_ds where
  "cl_two = cl_start\<lparr>rb := \<lparr>buffer_ptr = [123, 125, 7, 7, 7, 7, 7, 7], read_mirror = False, read_index = 0,
     write_mirror = False, write_index = 4, buffer_size = 8\<rparr>\<rparr>"

theorem coalesced_packets_lost_witness:
  "\<exists>s' buffer'. parse_thread_step cl_api 0 (cl_two, replicate CLIENT_RECV_PACKSIZE 0) = Some (s', buffer') \<and>
    rb_contents (rb s') = [] \<and> recv_state (recv_info s') = CRS_NONE \<and> device_cfg s' = device_cfg cl_two \<and>
    fsys s' = fsys cl_two"
proof (rule coalesced_packets_lost[where x = "[123, 125, 7, 7]"])
  show "client_inv cl_two"
    by (simp add: cl_two_def cl_start_def client_inv_def recv_inv_def rb_inv_def zero_cfg_def)
  show "rb_contents (rb cl_two) = [123, 125, 7, 7]"
    by (simp add: cl_two_def rb_contents_def rt_ringbuffer_data_len_def rt_ringbuffer_status_def wrap_def
        rb_cap_def upt_rec Let_def)
qed (simp_all add: cl_two_def cl_start_def CLIENT_RECV_PACKSIZE_def)

end
