(* ===== verification/Paint.thy ===== *)
theory Paint
  imports Prelude
begin

text \<open>
  The drawing library \<^verbatim>\<open>src/components/epaper/gui/GUI_Paint.c\<close>. The global \<open>Paint\<close> is a
  record that is passed through every operation; its image is the byte array the pointer
  \<open>Paint.Image\<close> refers to, and an access outside it makes the operation \<open>None\<close>. Coordinates are
  16-bit values kept as \<open>nat\<close>, with the reduction written out at every assignment. The list
  \<open>ctable\<close> of a Chinese font holds exactly the \<open>size\<close> entries of its table.
\<close>

section \<open>State\<close>

record sFONT =
  table :: bytes
  fWidth :: nat
  fHeight :: nat

record CH_CN =
  index :: "u8 \<times> u8"
  matrix :: bytes

record cFONT =
  ctable :: "CH_CN list"
  ASCII_Width :: nat
  cWidth :: nat
  cHeight :: nat

record PAINT =
  Image :: bytes
  Width :: nat
  Height :: nat
  WidthMemory :: nat
  HeightMemory :: nat
  Color :: u16
  Rotate :: nat
  Mirror :: nat
  WidthByte :: nat
  HeightByte :: nat
  Scale :: nat

definition ROTATE_0 :: nat where "ROTATE_0 = 0"
definition ROTATE_90 :: nat where "ROTATE_90 = 90"
definition ROTATE_180 :: nat where "ROTATE_180 = 180"
definition ROTATE_270 :: nat where "ROTATE_270 = 270"

definition MIRROR_NONE :: nat where "MIRROR_NONE = 0"
definition MIRROR_HORIZONTAL :: nat where "MIRROR_HORIZONTAL = 1"
definition MIRROR_VERTICAL :: nat where "MIRROR_VERTICAL = 2"
definition MIRROR_ORIGIN :: nat where "MIRROR_ORIGIN = 3"

definition WHITE :: u16 where "WHITE = 0xFF"
definition BLACK :: u16 where "BLACK = 0x00"
definition IMAGE_BACKGROUND :: u16 where "IMAGE_BACKGROUND = WHITE"
definition FONT_BACKGROUND :: u16 where "FONT_BACKGROUND = WHITE"

datatype DOT_STYLE = DOT_FILL_AROUND | DOT_FILL_RIGHTUP
datatype LINE_STYLE = LINE_STYLE_SOLID | LINE_STYLE_DOTTED
datatype DRAW_FILL = DRAW_FILL_EMPTY | DRAW_FILL_FULL

lemmas rotate_defs = ROTATE_0_def ROTATE_90_def ROTATE_180_def ROTATE_270_def
lemmas mirror_defs = MIRROR_NONE_def MIRROR_HORIZONTAL_def MIRROR_VERTICAL_def MIRROR_ORIGIN_def

section \<open>Image settings\<close>

definition per_byte :: "nat \<Rightarrow> nat \<Rightarrow> nat" where
  "per_byte w k = (if w mod k = 0 then w div k else w div k + 1)"

definition Paint_NewImage :: "bytes \<Rightarrow> nat \<Rightarrow> nat \<Rightarrow> nat \<Rightarrow> u16 \<Rightarrow> PAINT" where
  "Paint_NewImage img w h rot col =
     \<lparr>Image = img,
      Width = (if rot = ROTATE_0 \<or> rot = ROTATE_180 then w else h),
      Height = (if rot = ROTATE_0 \<or> rot = ROTATE_180 then h else w),
      WidthMemory = w, HeightMemory = h, Color = col, Rotate = rot, Mirror = MIRROR_NONE,
      WidthByte = per_byte w 8, HeightByte = h, Scale = 2\<rparr>"

definition Paint_SelectImage :: "bytes \<Rightarrow> PAINT \<Rightarrow> PAINT" where
  "Paint_SelectImage img p = p\<lparr>Image := img\<rparr>"

definition Paint_SetRotate :: "nat \<Rightarrow> PAINT \<Rightarrow> PAINT" where
  "Paint_SetRotate r p =
     (if r = ROTATE_0 \<or> r = ROTATE_90 \<or> r = ROTATE_180 \<or> r = ROTATE_270 then p\<lparr>Rotate := r\<rparr> else p)"

definition Paint_SetScale :: "nat \<Rightarrow> PAINT \<Rightarrow> PAINT" where
  "Paint_SetScale s p =
     (if s = 2 then p\<lparr>Scale := s, WidthByte := per_byte (WidthMemory p) 8\<rparr>
      else if s = 4 then p\<lparr>Scale := s, WidthByte := per_byte (WidthMemory p) 4\<rparr>
      else if s = 7 then p\<lparr>Scale := s, WidthByte := per_byte (WidthMemory p) 2\<rparr>
      else p)"

definition Paint_SetMirroring :: "nat \<Rightarrow> PAINT \<Rightarrow> PAINT" where
  "Paint_SetMirroring m p =
     (if m = MIRROR_NONE \<or> m = MIRROR_HORIZONTAL \<or> m = MIRROR_VERTICAL \<or> m = MIRROR_ORIGIN
      then p\<lparr>Mirror := m\<rparr> else p)"

section \<open>Pixels\<close>

definition rotate_point :: "PAINT \<Rightarrow> nat \<Rightarrow> nat \<Rightarrow> (nat \<times> nat) option" where
  "rotate_point p x y =
     (if Rotate p = 0 then Some (x, y)
      else if Rotate p = 90 then Some (to_u16 (int (WidthMemory p) - int y - 1), x)
      else if Rotate p = 180 then
        Some (to_u16 (int (WidthMemory p) - int x - 1), to_u16 (int (HeightMemory p) - int y - 1))
      else if Rotate p = 270 then Some (y, to_u16 (int (HeightMemory p) - int x - 1))
      else None)"

definition mirror_point :: "PAINT \<Rightarrow> nat \<times> nat \<Rightarrow> (nat \<times> nat) option" where
  "mirror_point p q =
     (case q of (X, Y) \<Rightarrow>
        if Mirror p = MIRROR_NONE then Some (X, Y)
        else if Mirror p = MIRROR_HORIZONTAL then Some (to_u16 (int (WidthMemory p) - int X - 1), Y)
        else if Mirror p = MIRROR_VERTICAL then Some (X, to_u16 (int (HeightMemory p) - int Y - 1))
        else if Mirror p = MIRROR_ORIGIN then
          Some (to_u16 (int (WidthMemory p) - int X - 1), to_u16 (int (HeightMemory p) - int Y - 1))
        else None)"

text \<open>The read-modify-write of one byte, for the three densities.\<close>

definition pixel_byte2 :: "nat \<Rightarrow> u16 \<Rightarrow> u8 \<Rightarrow> u8" where
  "pixel_byte2 X c Rdata =
     (if c = BLACK then Rdata AND NOT (drop_bit (X mod 8) 0x80)
      else Rdata OR drop_bit (X mod 8) 0x80)"

definition pixel_byte4 :: "nat \<Rightarrow> u16 \<Rightarrow> u8 \<Rightarrow> u8" where
  "pixel_byte4 X c Rdata =
     (Rdata AND NOT (drop_bit (X mod 4 * 2) 0xC0)) OR
     ucast (drop_bit (X mod 4 * 2) (push_bit 6 (ucast (c mod 4) :: u32)))"

definition pixel_byte7 :: "nat \<Rightarrow> u16 \<Rightarrow> u8 \<Rightarrow> u8" where
  "pixel_byte7 X c Rdata =
     (Rdata AND NOT (drop_bit (X mod 2 * 4) 0xF0)) OR
     ucast (drop_bit (X mod 2 * 4) (push_bit 4 (ucast c :: u32)))"

definition update_byte :: "nat \<Rightarrow> (u8 \<Rightarrow> u8) \<Rightarrow> PAINT \<Rightarrow> PAINT option" where
  "update_byte a f p = do {
     r \<leftarrow> load (Image p) a;
     m \<leftarrow> store (Image p) a (f r);
     Some (p\<lparr>Image := m\<rparr>) }"

definition store_pixel :: "nat \<times> nat \<Rightarrow> u16 \<Rightarrow> PAINT \<Rightarrow> PAINT option" where
  "store_pixel q c p =
     (case q of (X, Y) \<Rightarrow>
        if Scale p = 2 then update_byte (X div 8 + Y * WidthByte p) (pixel_byte2 X c) p
        else if Scale p = 4 then update_byte (X div 4 + Y * WidthByte p) (pixel_byte4 X c) p
        else if Scale p = 7 then update_byte (X div 2 + Y * WidthByte p) (pixel_byte7 X c) p
        else Some p)"

definition Paint_SetPixel :: "nat \<Rightarrow> nat \<Rightarrow> u16 \<Rightarrow> PAINT \<Rightarrow> PAINT option" where
  "Paint_SetPixel Xpoint Ypoint c p =
     (if Xpoint > Width p \<or> Ypoint > Height p then Some p
      else case rotate_point p Xpoint Ypoint of
        None \<Rightarrow> Some p
      | Some q \<Rightarrow>
          (case mirror_point p q of
             None \<Rightarrow> Some p
           | Some (X, Y) \<Rightarrow>
               if X > WidthMemory p \<or> Y > HeightMemory p then Some p
               else store_pixel (X, Y) c p))"

section \<open>Clearing and bitmaps\<close>

text \<open>All byte addresses of the image, row by row.\<close>

definition byte_addrs :: "PAINT \<Rightarrow> nat list" where
  "byte_addrs p =
     concat (map (\<lambda>Y. map (\<lambda>X. X + Y * WidthByte p) [0..<WidthByte p]) [0..<HeightByte p])"

definition clear_byte :: "PAINT \<Rightarrow> u16 \<Rightarrow> u8 option" where
  "clear_byte p c =
     (let C = ucast c :: u32 in
      if Scale p = 2 then Some (ucast C)
      else if Scale p = 4 then Some (ucast (push_bit 6 C OR push_bit 4 C OR push_bit 2 C OR C))
      else if Scale p = 7 then Some (ucast (push_bit 4 C OR C))
      else None)"

definition Paint_Clear :: "u16 \<Rightarrow> PAINT \<Rightarrow> PAINT option" where
  "Paint_Clear c p =
     (case clear_byte p c of
        None \<Rightarrow> Some p
      | Some b \<Rightarrow> for_each (\<lambda>a p. do { m \<leftarrow> store (Image p) a b; Some (p\<lparr>Image := m\<rparr>) }) (byte_addrs p) p)"

definition Paint_ClearWindows :: "nat \<Rightarrow> nat \<Rightarrow> nat \<Rightarrow> nat \<Rightarrow> u16 \<Rightarrow> PAINT \<Rightarrow> PAINT option" where
  "Paint_ClearWindows Xstart Ystart Xend Yend c =
     for_each (\<lambda>Y. for_each (\<lambda>X. Paint_SetPixel X Y c) [Xstart..<Xend]) [Ystart..<Yend]"

definition Paint_DrawBitMap :: "bytes \<Rightarrow> PAINT \<Rightarrow> PAINT option" where
  "Paint_DrawBitMap image_buffer p =
     for_each (\<lambda>a p. do {
         b \<leftarrow> load image_buffer a;
         m \<leftarrow> store (Image p) a b;
         Some (p\<lparr>Image := m\<rparr>) }) (byte_addrs p) p"

text \<open>\<open>Region - 1\<close> is an \<open>int\<close>; region 0 addresses memory before the buffer.\<close>

definition Paint_DrawBitMap_Block :: "bytes \<Rightarrow> nat \<Rightarrow> PAINT \<Rightarrow> PAINT option" where
  "Paint_DrawBitMap_Block image_buffer Region p =
     for_each (\<lambda>a p. do {
         b \<leftarrow> (if Region = 0 then None
               else load image_buffer (a + HeightByte p * WidthByte p * (Region - 1)));
         m \<leftarrow> store (Image p) a b;
         Some (p\<lparr>Image := m\<rparr>) }) (byte_addrs p) p"

definition paste_color :: "bool \<Rightarrow> nat \<Rightarrow> u8 \<Rightarrow> u16" where
  "paste_color flipColor x srcImage =
     (let dark = (push_bit (x mod 8) (ucast srcImage :: u32) AND 0x80 = 0) in
      if flipColor then (if dark then 1 else 0) else (if dark then 0 else 1))"

definition Paint_DrawBitMap_Paste :: "bytes \<Rightarrow> nat \<Rightarrow> nat \<Rightarrow> nat \<Rightarrow> nat \<Rightarrow> bool \<Rightarrow> PAINT \<Rightarrow> PAINT option" where
  "Paint_DrawBitMap_Paste image_buffer xStart yStart imageWidth imageHeight flipColor =
     for_each (\<lambda>y. for_each (\<lambda>x p. do {
         srcImage \<leftarrow> load image_buffer (y * per_byte imageWidth 8 + x div 8);
         Paint_SetPixel (to_u16 (int x + int xStart)) (to_u16 (int y + int yStart))
           (paste_color flipColor x srcImage) p })
       [0..<imageWidth]) [0..<imageHeight]"

section \<open>Points, lines, rectangles and circles\<close>

text \<open>
  \<open>DOT_PIXEL\<close> and the other enumerations are one byte wide on this target (AAPCS), so
  \<open>Xpoint + XDir_Num - Dot_Pixel\<close> is a signed expression. A negative coordinate ends the inner
  loop only.
\<close>

fun dot_column :: "nat \<Rightarrow> nat \<Rightarrow> u16 \<Rightarrow> nat \<Rightarrow> nat \<Rightarrow> nat list \<Rightarrow> PAINT \<Rightarrow> PAINT option" where
  "dot_column Xpoint Ypoint c d XDir [] p = Some p"
| "dot_column Xpoint Ypoint c d XDir (YDir # ys) p =
     (if int Xpoint + int XDir - int d < 0 \<or> int Ypoint + int YDir - int d < 0 then Some p
      else Option.bind
        (Paint_SetPixel (to_u16 (int Xpoint + int XDir - int d)) (to_u16 (int Ypoint + int YDir - int d)) c p)
        (dot_column Xpoint Ypoint c d XDir ys))"

definition Paint_DrawPoint :: "nat \<Rightarrow> nat \<Rightarrow> u16 \<Rightarrow> nat \<Rightarrow> DOT_STYLE \<Rightarrow> PAINT \<Rightarrow> PAINT option" where
  "Paint_DrawPoint Xpoint Ypoint c Dot_Pixel Dot_Style p =
     (if Xpoint > Width p \<or> Ypoint > Height p then Some p
      else case Dot_Style of
        DOT_FILL_AROUND \<Rightarrow>
          for_each (\<lambda>XDir. dot_column Xpoint Ypoint c Dot_Pixel XDir [0..<2 * Dot_Pixel - 1])
            [0..<2 * Dot_Pixel - 1] p
      | DOT_FILL_RIGHTUP \<Rightarrow>
          for_each (\<lambda>XDir. for_each (\<lambda>YDir.
              Paint_SetPixel (to_u16 (int Xpoint + int XDir - 1)) (to_u16 (int Ypoint + int YDir - 1)) c)
            [0..<Dot_Pixel]) [0..<Dot_Pixel] p)"

record line_state =
  lx :: nat
  ly :: nat
  Esp :: int
  Dotted_Len :: nat
  lpaint :: PAINT

text \<open>One round of the line loop; \<open>Inl\<close> leaves it.\<close>

definition line_plot :: "u16 \<Rightarrow> nat \<Rightarrow> LINE_STYLE \<Rightarrow> line_state \<Rightarrow> line_state option" where
  "line_plot c Line_width Line_Style s =
     (let n = to_u8 (int (Dotted_Len s) + 1) in
      if Line_Style = LINE_STYLE_DOTTED \<and> n mod 3 = 0
      then map_option (\<lambda>p. s\<lparr>lpaint := p, Dotted_Len := 0\<rparr>)
             (Paint_DrawPoint (lx s) (ly s) IMAGE_BACKGROUND Line_width DOT_FILL_AROUND (lpaint s))
      else map_option (\<lambda>p. s\<lparr>lpaint := p, Dotted_Len := n\<rparr>)
             (Paint_DrawPoint (lx s) (ly s) c Line_width DOT_FILL_AROUND (lpaint s)))"

definition line_move_y :: "int \<Rightarrow> int \<Rightarrow> nat \<Rightarrow> line_state \<Rightarrow> PAINT + line_state" where
  "line_move_y dx YAddway Yend s =
     (if 2 * Esp s \<le> dx then
        if ly s = Yend then Inl (lpaint s)
        else Inr (s\<lparr>Esp := Esp s + dx, ly := to_u16 (int (ly s) + YAddway)\<rparr>)
      else Inr s)"

definition line_move :: "int \<Rightarrow> int \<Rightarrow> int \<Rightarrow> int \<Rightarrow> nat \<Rightarrow> nat \<Rightarrow> line_state \<Rightarrow> PAINT + line_state" where
  "line_move dx dy XAddway YAddway Xend Yend s =
     (if 2 * Esp s \<ge> dy then
        if lx s = Xend then Inl (lpaint s)
        else line_move_y dx YAddway Yend
               (s\<lparr>Esp := Esp s + dy, lx := to_u16 (int (lx s) + XAddway)\<rparr>)
      else line_move_y dx YAddway Yend s)"

definition Paint_DrawLine ::
  "nat \<Rightarrow> nat \<Rightarrow> nat \<Rightarrow> nat \<Rightarrow> nat \<Rightarrow> u16 \<Rightarrow> nat \<Rightarrow> LINE_STYLE \<Rightarrow> PAINT \<Rightarrow> PAINT option" where
  "Paint_DrawLine fuel Xstart Ystart Xend Yend c Line_width Line_Style p =
     (if Xstart > Width p \<or> Ystart > Height p \<or> Xend > Width p \<or> Yend > Height p then Some p
      else
        let dx = (if int Xend - int Xstart \<ge> 0 then int Xend - int Xstart else int Xstart - int Xend);
            dy = (if int Yend - int Ystart \<le> 0 then int Yend - int Ystart else int Ystart - int Yend);
            XAddway = (if Xstart < Xend then 1 else - 1);
            YAddway = (if Ystart < Yend then 1 else - 1)
        in case run_loop fuel
             (\<lambda>s. map_option (line_move dx dy XAddway YAddway Xend Yend) (line_plot c Line_width Line_Style s))
             \<lparr>lx = Xstart, ly = Ystart, Esp = dx + dy, Dotted_Len = 0, lpaint = p\<rparr> of
             Some (Inl p') \<Rightarrow> Some p'
           | _ \<Rightarrow> None)"

definition Paint_DrawRectangle ::
  "nat \<Rightarrow> nat \<Rightarrow> nat \<Rightarrow> nat \<Rightarrow> nat \<Rightarrow> u16 \<Rightarrow> nat \<Rightarrow> DRAW_FILL \<Rightarrow> PAINT \<Rightarrow> PAINT option" where
  "Paint_DrawRectangle fuel Xstart Ystart Xend Yend c Line_width Draw_Fill p =
     (if Xstart > Width p \<or> Ystart > Height p \<or> Xend > Width p \<or> Yend > Height p then Some p
      else case Draw_Fill of
        DRAW_FILL_FULL \<Rightarrow>
          for_each (\<lambda>Ypoint. Paint_DrawLine fuel Xstart Ypoint Xend Ypoint c Line_width LINE_STYLE_SOLID)
            [Ystart..<Yend] p
      | DRAW_FILL_EMPTY \<Rightarrow> do {
          p \<leftarrow> Paint_DrawLine fuel Xstart Ystart Xend Ystart c Line_width LINE_STYLE_SOLID p;
          p \<leftarrow> Paint_DrawLine fuel Xstart Ystart Xstart Yend c Line_width LINE_STYLE_SOLID p;
          p \<leftarrow> Paint_DrawLine fuel Xend Yend Xend Ystart c Line_width LINE_STYLE_SOLID p;
          Paint_DrawLine fuel Xend Yend Xstart Yend c Line_width LINE_STYLE_SOLID p })"

text \<open>The eight reflections of an offset about the centre, in the order in which they are drawn.\<close>

definition eight_points :: "nat \<Rightarrow> nat \<Rightarrow> int \<Rightarrow> int \<Rightarrow> (nat \<times> nat) list" where
  "eight_points X_Center Y_Center a b =
     (let cx = int X_Center; cy = int Y_Center in
      map (\<lambda>(x, y). (to_u16 x, to_u16 y))
        [(cx + a, cy + b), (cx - a, cy + b), (cx - b, cy + a), (cx - b, cy - a),
         (cx - a, cy - b), (cx + a, cy - b), (cx + b, cy - a), (cx + b, cy + a)])"

definition draw_points :: "(nat \<times> nat) list \<Rightarrow> u16 \<Rightarrow> nat \<Rightarrow> PAINT \<Rightarrow> PAINT option" where
  "draw_points qs c d = for_each (\<lambda>(x, y). Paint_DrawPoint x y c d DOT_FILL_AROUND) qs"

record circle_state =
  XCurrent :: int
  YCurrent :: int
  cEsp :: int
  cpaint :: PAINT

definition circle_move :: "circle_state \<Rightarrow> circle_state" where
  "circle_move s =
     (if cEsp s < 0
      then s\<lparr>cEsp := to_i16 (cEsp s + 4 * XCurrent s + 6), XCurrent := to_i16 (XCurrent s + 1)\<rparr>
      else s\<lparr>cEsp := to_i16 (cEsp s + 10 + 4 * (XCurrent s - YCurrent s)),
             YCurrent := to_i16 (YCurrent s - 1), XCurrent := to_i16 (XCurrent s + 1)\<rparr>)"

text \<open>
  The filled circle counts an \<open>int16_t\<close> up to \<open>YCurrent\<close>; at 32767 that loop never ends, which is
  \<open>None\<close> here.
\<close>

definition circle_body ::
  "nat \<Rightarrow> nat \<Rightarrow> u16 \<Rightarrow> nat \<Rightarrow> DRAW_FILL \<Rightarrow> circle_state \<Rightarrow> (PAINT + circle_state) option" where
  "circle_body X_Center Y_Center c Line_width Draw_Fill s =
     (if XCurrent s \<le> YCurrent s then
        map_option (\<lambda>p. Inr (circle_move (s\<lparr>cpaint := p\<rparr>)))
          (case Draw_Fill of
             DRAW_FILL_FULL \<Rightarrow>
               if YCurrent s = 32767 then None else
               for_each (\<lambda>sCountY. draw_points (eight_points X_Center Y_Center (XCurrent s) sCountY) c 1)
                 [XCurrent s..YCurrent s] (cpaint s)
           | DRAW_FILL_EMPTY \<Rightarrow>
               draw_points (eight_points X_Center Y_Center (XCurrent s) (YCurrent s)) c Line_width (cpaint s))
      else Some (Inl (cpaint s)))"

definition Paint_DrawCircle ::
  "nat \<Rightarrow> nat \<Rightarrow> nat \<Rightarrow> nat \<Rightarrow> u16 \<Rightarrow> nat \<Rightarrow> DRAW_FILL \<Rightarrow> PAINT \<Rightarrow> PAINT option" where
  "Paint_DrawCircle fuel X_Center Y_Center Radius c Line_width Draw_Fill p =
     (if X_Center > Width p \<or> Y_Center \<ge> Height p then Some p
      else case run_loop fuel (circle_body X_Center Y_Center c Line_width Draw_Fill)
             \<lparr>XCurrent = 0, YCurrent = to_i16 (int Radius), cEsp = to_i16 (3 - int Radius * 2), cpaint = p\<rparr> of
          Some (Inl p') \<Rightarrow> Some p'
        | _ \<Rightarrow> None)"

section \<open>Characters\<close>

text \<open>The pixel loop over a glyph; the pair is the running pointer into the glyph table and the image.\<close>

definition glyph_pixel ::
  "bytes \<Rightarrow> u16 \<Rightarrow> u16 \<Rightarrow> int \<Rightarrow> int \<Rightarrow> nat \<Rightarrow> nat \<times> PAINT \<Rightarrow> (nat \<times> PAINT) option" where
  "glyph_pixel tab fg bg x y Column st =
     (case st of (ptr, p) \<Rightarrow> do {
        b \<leftarrow> load tab ptr;
        p \<leftarrow> (if b AND drop_bit (Column mod 8) 0x80 \<noteq> 0
              then Paint_SetPixel (to_u16 (x + int Column)) (to_u16 y) fg p
              else if FONT_BACKGROUND = bg then Some p
              else Paint_SetPixel (to_u16 (x + int Column)) (to_u16 y) bg p);
        Some (if Column mod 8 = 7 then ptr + 1 else ptr, p) })"

definition glyph_row ::
  "bytes \<Rightarrow> nat \<Rightarrow> u16 \<Rightarrow> u16 \<Rightarrow> int \<Rightarrow> int \<Rightarrow> nat \<Rightarrow> nat \<times> PAINT \<Rightarrow> (nat \<times> PAINT) option" where
  "glyph_row tab w fg bg x y Page st = do {
     (ptr, p) \<leftarrow> for_each (glyph_pixel tab fg bg x (y + int Page)) [0..<w] st;
     Some (if w mod 8 \<noteq> 0 then ptr + 1 else ptr, p) }"

definition draw_glyph ::
  "bytes \<Rightarrow> nat \<Rightarrow> nat \<Rightarrow> nat \<Rightarrow> u16 \<Rightarrow> u16 \<Rightarrow> int \<Rightarrow> int \<Rightarrow> PAINT \<Rightarrow> PAINT option" where
  "draw_glyph tab off w h fg bg x y p =
     map_option snd (for_each (glyph_row tab w fg bg x y) [0..<h] (off, p))"

definition Char_Offset :: "sFONT \<Rightarrow> u8 \<Rightarrow> nat" where
  "Char_Offset Font Acsii_Char =
     to_u32 ((int (unat Acsii_Char) - 32) * int (fHeight Font) *
             (int (fWidth Font) div 8 + (if fWidth Font mod 8 \<noteq> 0 then 1 else 0)))"

definition Paint_DrawChar :: "nat \<Rightarrow> nat \<Rightarrow> u8 \<Rightarrow> sFONT \<Rightarrow> u16 \<Rightarrow> u16 \<Rightarrow> PAINT \<Rightarrow> PAINT option" where
  "Paint_DrawChar Xpoint Ypoint Acsii_Char Font Color_Foreground Color_Background p =
     (if Xpoint > Width p \<or> Ypoint > Height p then Some p
      else draw_glyph (table Font) (Char_Offset Font Acsii_Char) (fWidth Font) (fHeight Font)
             Color_Foreground Color_Background (int Xpoint) (int Ypoint) p)"

fun draw_chars ::
  "nat \<Rightarrow> nat \<Rightarrow> bytes \<Rightarrow> sFONT \<Rightarrow> u16 \<Rightarrow> u16 \<Rightarrow> nat \<Rightarrow> nat \<Rightarrow> PAINT \<Rightarrow> PAINT option" where
  "draw_chars Xstart Ystart [] Font fg bg Xpoint Ypoint p = None"
| "draw_chars Xstart Ystart (ch # pString) Font fg bg Xpoint Ypoint p =
     (if ch = 0 then Some p
      else
        let (x, y) = (if Xpoint + fWidth Font > Width p then (Xstart, to_u16 (int Ypoint + int (fHeight Font)))
                      else (Xpoint, Ypoint));
            (x, y) = (if y + fHeight Font > Height p then (Xstart, Ystart) else (x, y))
        in Option.bind (Paint_DrawChar x y ch Font bg fg p)
             (draw_chars Xstart Ystart pString Font fg bg (to_u16 (int x + int (fWidth Font))) y))"

definition Paint_DrawString_EN :: "nat \<Rightarrow> nat \<Rightarrow> bytes \<Rightarrow> sFONT \<Rightarrow> u16 \<Rightarrow> u16 \<Rightarrow> PAINT \<Rightarrow> PAINT option" where
  "Paint_DrawString_EN Xstart Ystart pString Font Color_Foreground Color_Background p =
     (if Xstart > Width p \<or> Ystart > Height p then Some p
      else draw_chars Xstart Ystart pString Font Color_Foreground Color_Background Xstart Ystart p)"

text \<open>A byte above 127 starts a two-byte character; its second byte is skipped unseen if no entry matches.\<close>

fun draw_chars_CN :: "bytes \<Rightarrow> cFONT \<Rightarrow> u16 \<Rightarrow> u16 \<Rightarrow> int \<Rightarrow> int \<Rightarrow> PAINT \<Rightarrow> PAINT option" where
  "draw_chars_CN [] font fg bg x y p = None"
| "draw_chars_CN (ch # s) font fg bg x y p =
     (if ch = 0 then Some p
      else if ch \<le> 0x7F then
        Option.bind
          (case List.find (\<lambda>e. fst (index e) = ch) (ctable font) of
             None \<Rightarrow> Some p
           | Some e \<Rightarrow> draw_glyph (matrix e) 0 (cWidth font) (cHeight font) fg bg x y p)
          (draw_chars_CN s font fg bg (x + int (ASCII_Width font)) y)
      else (case s of
          [] \<Rightarrow> None
        | ch2 # s' \<Rightarrow>
            Option.bind
              (case List.find (\<lambda>e. index e = (ch, ch2)) (ctable font) of
                 None \<Rightarrow> Some p
               | Some e \<Rightarrow> draw_glyph (matrix e) 0 (cWidth font) (cHeight font) fg bg x y p)
              (draw_chars_CN s' font fg bg (x + int (cWidth font)) y)))"

definition Paint_DrawString_CN :: "nat \<Rightarrow> nat \<Rightarrow> bytes \<Rightarrow> cFONT \<Rightarrow> u16 \<Rightarrow> u16 \<Rightarrow> PAINT \<Rightarrow> PAINT option" where
  "Paint_DrawString_CN Xstart Ystart pString font Color_Foreground Color_Background =
     draw_chars_CN pString font Color_Foreground Color_Background (int Xstart) (int Ystart)"

section \<open>Numbers and times\<close>

text \<open>The digits in the order in which the first loop stores them, lowest first.\<close>

function num_array :: "int \<Rightarrow> bytes" where
  "num_array Nummber =
     of_int (cmod Nummber 10 + 48) # (if cdiv Nummber 10 \<noteq> 0 then num_array (cdiv Nummber 10) else [])"
  by auto

termination
proof (relation "measure (\<lambda>n. nat \<bar>n\<bar>)")
  fix n :: int
  assume nz: "cdiv n 10 \<noteq> 0"
  then have "n \<noteq> 0" by (auto simp: cdiv_def)
  moreover have "\<bar>cdiv n 10\<bar> = \<bar>n\<bar> div 10" using \<open>n \<noteq> 0\<close> by (simp add: cdiv_def abs_mult)
  ultimately show "(cdiv n 10, n) \<in> measure (\<lambda>n. nat \<bar>n\<bar>)" by auto
qed simp

declare num_array.simps [simp del]

definition ARRAY_LEN :: nat where "ARRAY_LEN = 255"

definition Paint_DrawNum :: "nat \<Rightarrow> nat \<Rightarrow> int \<Rightarrow> sFONT \<Rightarrow> u16 \<Rightarrow> u16 \<Rightarrow> PAINT \<Rightarrow> PAINT option" where
  "Paint_DrawNum Xpoint Ypoint Nummber Font Color_Foreground Color_Background p =
     (if Xpoint > Width p \<or> Ypoint > Height p then Some p
      else do {
        Str_Array \<leftarrow> memcpy (replicate ARRAY_LEN 0) 0 (rev (num_array Nummber)) 0 (length (num_array Nummber));
        Paint_DrawString_EN Xpoint Ypoint Str_Array Font Color_Background Color_Foreground p })"

record PAINT_TIME =
  Year :: nat
  Month :: nat
  Day :: nat
  Hour :: nat
  Min :: nat
  Sec :: nat

definition time_value :: bytes where
  "time_value = bs ''0123456789''"

definition Paint_DrawTime :: "nat \<Rightarrow> nat \<Rightarrow> PAINT_TIME \<Rightarrow> sFONT \<Rightarrow> u16 \<Rightarrow> u16 \<Rightarrow> PAINT \<Rightarrow> PAINT option" where
  "Paint_DrawTime Xstart Ystart pTime Font Color_Foreground Color_Background p =
     (let Dx = fWidth Font;
          out = (\<lambda>x ch p. Paint_DrawChar (to_u16 (int (Xstart + x))) Ystart ch Font Color_Background Color_Foreground p)
      in do {
        h1 \<leftarrow> load time_value (Hour pTime div 10);
        p \<leftarrow> out 0 h1 p;
        h0 \<leftarrow> load time_value (Hour pTime mod 10);
        p \<leftarrow> out Dx h0 p;
        p \<leftarrow> out (Dx + Dx div 4 + Dx div 2) (of_char CHR '':'') p;
        m1 \<leftarrow> load time_value (Min pTime div 10);
        p \<leftarrow> out (Dx * 2 + Dx div 2) m1 p;
        m0 \<leftarrow> load time_value (Min pTime mod 10);
        p \<leftarrow> out (Dx * 3 + Dx div 2) m0 p;
        p \<leftarrow> out (Dx * 4 + Dx div 2 - Dx div 4) (of_char CHR '':'') p;
        s1 \<leftarrow> load time_value (Sec pTime div 10);
        p \<leftarrow> out (Dx * 5) s1 p;
        s0 \<leftarrow> load time_value (Sec pTime mod 10);
        out (Dx * 6) s0 p })"


section \<open>Well-formed images\<close>

definition density :: "PAINT \<Rightarrow> nat" where
  "density p = (if Scale p = 2 then 8 else if Scale p = 4 then 4 else 2)"

definition pixel_bits :: "PAINT \<Rightarrow> nat" where
  "pixel_bits p = (if Scale p = 2 then 1 else if Scale p = 4 then 2 else 4)"

definition wf_paint :: "PAINT \<Rightarrow> bool" where
  "wf_paint p \<longleftrightarrow>
     Rotate p \<in> {0, 90, 180, 270} \<and> Mirror p \<in> {0, 1, 2, 3} \<and> Scale p \<in> {2, 4, 7} \<and>
     WidthMemory p < 65536 \<and> HeightMemory p < 65536 \<and>
     (Width p, Height p) =
       (if Rotate p \<in> {0, 180} then (WidthMemory p, HeightMemory p) else (HeightMemory p, WidthMemory p)) \<and>
     WidthByte p = per_byte (WidthMemory p) (density p) \<and> HeightByte p = HeightMemory p \<and>
     length (Image p) = WidthByte p * HeightByte p"

definition inside :: "PAINT \<Rightarrow> nat \<times> nat \<Rightarrow> bool" where
  "inside p q \<longleftrightarrow> fst q < Width p \<and> snd q < Height p"

text \<open>Where a pixel lies in memory, and its value there.\<close>

definition place :: "PAINT \<Rightarrow> nat \<times> nat \<Rightarrow> nat \<times> nat" where
  "place p q = the (Option.bind (rotate_point p (fst q) (snd q)) (mirror_point p))"

definition pixel_addr :: "PAINT \<Rightarrow> nat \<times> nat \<Rightarrow> nat" where
  "pixel_addr p q = fst (place p q) div density p + snd (place p q) * WidthByte p"

definition read_bits :: "nat \<Rightarrow> nat \<Rightarrow> u8 \<Rightarrow> u8" where
  "read_bits b k r = take_bit b (drop_bit (8 - b - k * b) r)"

definition get_pixel :: "PAINT \<Rightarrow> nat \<times> nat \<Rightarrow> u8" where
  "get_pixel p q = read_bits (pixel_bits p) (fst (place p q) mod density p) (Image p ! pixel_addr p q)"

text \<open>The value a colour has in the image, and the colours that fit it.\<close>

definition shade :: "PAINT \<Rightarrow> u16 \<Rightarrow> u8" where
  "shade p c = (if Scale p = 2 then (if c = BLACK then 0 else 1) else if Scale p = 4 then ucast (c mod 4) else ucast c)"

definition color_ok :: "PAINT \<Rightarrow> u16 \<Rightarrow> bool" where
  "color_ok p c \<longleftrightarrow> Scale p \<noteq> 7 \<or> c < 16"

lemma to_u16_flip: "a < w \<Longrightarrow> w < 65536 \<Longrightarrow> to_u16 (int w - int a - 1) = w - Suc a"
  by (subst to_u16_id) (auto simp: nat_diff_distrib)

lemma wf_cases:
  assumes "wf_paint p"
  obtains "Rotate p = 0" "Width p = WidthMemory p" "Height p = HeightMemory p"
  | "Rotate p = 90" "Width p = HeightMemory p" "Height p = WidthMemory p"
  | "Rotate p = 180" "Width p = WidthMemory p" "Height p = HeightMemory p"
  | "Rotate p = 270" "Width p = HeightMemory p" "Height p = WidthMemory p"
  using assms unfolding wf_paint_def by auto

lemma wf_sizes: "wf_paint p \<Longrightarrow> WidthMemory p < 65536 \<and> HeightMemory p < 65536"
  by (simp add: wf_paint_def)

lemma wf_mirror: "wf_paint p \<Longrightarrow> Mirror p = 0 \<or> Mirror p = 1 \<or> Mirror p = 2 \<or> Mirror p = 3"
  by (simp add: wf_paint_def)

lemma rotate_inside:
  assumes "wf_paint p" and "inside p q"
  shows "\<exists>r. rotate_point p (fst q) (snd q) = Some r \<and> fst r < WidthMemory p \<and> snd r < HeightMemory p"
  using assms(1)
  by (rule wf_cases) (use assms(2) wf_sizes[OF assms(1)] in \<open>simp_all add: inside_def rotate_point_def to_u16_flip\<close>)

lemma mirror_inside:
  assumes "wf_paint p" and "fst r < WidthMemory p" and "snd r < HeightMemory p"
  shows "\<exists>r'. mirror_point p r = Some r' \<and> fst r' < WidthMemory p \<and> snd r' < HeightMemory p"
  using wf_mirror[OF assms(1)] wf_sizes[OF assms(1)] assms(2,3)
  by (elim disjE) (simp_all add: mirror_point_def mirror_defs to_u16_flip split_beta)

lemma place_inside:
  assumes "wf_paint p" and "inside p q"
  shows "Option.bind (rotate_point p (fst q) (snd q)) (mirror_point p) = Some (place p q) \<and>
    fst (place p q) < WidthMemory p \<and> snd (place p q) < HeightMemory p"
proof -
  from rotate_inside[OF assms] obtain r where
    r: "rotate_point p (fst q) (snd q) = Some r" "fst r < WidthMemory p" "snd r < HeightMemory p" by blast
  from mirror_inside[OF assms(1) r(2,3)] r(1) show ?thesis by (auto simp: place_def)
qed

lemma flip_inj: "a < w \<Longrightarrow> b < w \<Longrightarrow> w - Suc a = w - Suc b \<longleftrightarrow> a = b" for a b w :: nat
  by auto

lemma rotate_inj:
  assumes "wf_paint p" and "inside p q" and "inside p q'"
    and "rotate_point p (fst q) (snd q) = rotate_point p (fst q') (snd q')"
  shows "q = q'"
  using assms(1)
  by (rule wf_cases)
    (use assms(2-) wf_sizes[OF assms(1)] in \<open>simp_all add: inside_def rotate_point_def to_u16_flip flip_inj prod_eq_iff\<close>)

lemma mirror_inj:
  assumes "wf_paint p" and "fst q < WidthMemory p" "snd q < HeightMemory p"
    and "fst q' < WidthMemory p" "snd q' < HeightMemory p" and "mirror_point p q = mirror_point p q'"
  shows "q = q'"
  using wf_mirror[OF assms(1)] wf_sizes[OF assms(1)] assms(2-)
  by (elim disjE) (simp_all add: mirror_point_def mirror_defs to_u16_flip flip_inj prod_eq_iff split_beta)

lemma place_inj:
  assumes "wf_paint p" and "inside p q" and "inside p q'" and "place p q = place p q'"
  shows "q = q'"
proof -
  from rotate_inside[OF assms(1,2)] obtain r where
    r: "rotate_point p (fst q) (snd q) = Some r" "fst r < WidthMemory p" "snd r < HeightMemory p" by auto
  from rotate_inside[OF assms(1,3)] obtain r' where
    r': "rotate_point p (fst q') (snd q') = Some r'" "fst r' < WidthMemory p" "snd r' < HeightMemory p" by auto
  have "mirror_point p r = mirror_point p r'"
    using place_inside[OF assms(1,2)] place_inside[OF assms(1,3)] assms(4) r(1) r'(1) by simp
  with mirror_inj[OF assms(1) r(2,3) r'(2,3)] r(1) r'(1) have
    "rotate_point p (fst q) (snd q) = rotate_point p (fst q') (snd q')" by simp
  with rotate_inj[OF assms(1-3)] show ?thesis by blast
qed

lemma per_byte_div:
  assumes "x < w" and "0 < k"
  shows "x div k < per_byte w k"
proof (cases "w mod k = 0")
  case True
  then obtain m where "w = k * m" by (metis mod_0_imp_dvd dvd_def)
  then show ?thesis using assms True by (simp add: per_byte_def less_mult_imp_div_less mult.commute)
next
  case False
  then show ?thesis using assms by (simp add: per_byte_def div_le_mono less_Suc_eq_le)
qed

lemma row_addr_less:
  fixes a b m n :: nat
  assumes "a < m" and "b < n"
  shows "a + b * m < m * n"
proof -
  have "a + b * m < Suc b * m" using assms(1) by simp
  also have "\<dots> \<le> n * m" using assms(2) by (intro mult_le_mono1) simp
  finally show ?thesis by (simp add: mult.commute)
qed

lemma row_addr_inj:
  fixes a a' b b' m :: nat
  assumes "a + b * m = a' + b' * m" and "a < m" and "a' < m"
  shows "a = a' \<and> b = b'"
proof -
  have "(a + b * m) div m = b" "(a' + b' * m) div m = b'" using assms(2,3) by auto
  then show ?thesis using assms(1) by auto
qed

lemma density_pos: "0 < density p"
  by (simp add: density_def)

lemma pixel_addr_less:
  assumes "wf_paint p" and "inside p q"
  shows "pixel_addr p q < length (Image p)"
proof -
  have "fst (place p q) div density p < WidthByte p"
    using per_byte_div[OF _ density_pos] place_inside[OF assms] assms(1) by (auto simp: wf_paint_def)
  then show ?thesis
    using row_addr_less place_inside[OF assms] assms(1) by (auto simp: wf_paint_def pixel_addr_def)
qed

lemma pixel_addr_inj:
  assumes "wf_paint p" and "inside p q" and "inside p q'"
    and "pixel_addr p q = pixel_addr p q'"
    and "fst (place p q) mod density p = fst (place p q') mod density p"
  shows "q = q'"
proof -
  have d: "fst (place p x) div density p < WidthByte p" if "inside p x" for x
    using per_byte_div[OF _ density_pos] place_inside[OF assms(1) that] assms(1) by (auto simp: wf_paint_def)
  have "fst (place p q) div density p = fst (place p q') div density p" "snd (place p q) = snd (place p q')"
    using row_addr_inj[OF assms(4)[unfolded pixel_addr_def] d[OF assms(2)] d[OF assms(3)]] by auto
  moreover from this(1) assms(5) have "fst (place p q) = fst (place p q')"
    by (metis div_mult_mod_eq)
  ultimately show ?thesis using place_inj[OF assms(1-3)] by (metis prod_eqI)
qed

lemma bit_read_bits: "bit (read_bits b j r) n \<longleftrightarrow> n < b \<and> bit r (8 - b - j * b + n)"
  by (simp add: read_bits_def bit_simps)

lemma bit_pixel_byte2:
  "m < 8 \<Longrightarrow> bit (pixel_byte2 x c r) m \<longleftrightarrow> (if m = 7 - x mod 8 then c \<noteq> BLACK else bit r m)"
  by (auto simp: pixel_byte2_def bit_simps bit_masks)

lemma read_pixel2:
  assumes "j < 8"
  shows "read_bits 1 j (pixel_byte2 x c r) =
     (if j = x mod 8 then (if c = BLACK then 0 else 1) else read_bits 1 j r)"
proof (rule bit_word_eqI)
  fix n :: nat
  show "bit (read_bits 1 j (pixel_byte2 x c r)) n =
    bit (if j = x mod 8 then (if c = BLACK then 0 else 1) else read_bits 1 j r) n"
    using assms by (auto simp: bit_read_bits bit_pixel_byte2 bit_simps simp del: bit_0)
qed

lemma bit_pixel_byte4:
  assumes "m < 8"
  shows "bit (pixel_byte4 x c r) m \<longleftrightarrow>
    (if m div 2 = 3 - x mod 4 then bit (c mod 4) (m mod 2) else bit r m)"
proof -
  have "bit (c mod 4) i \<longleftrightarrow> i < 2 \<and> bit c i" for i
    using take_bit_eq_mod[of 2 c] by (simp flip: bit_take_bit_iff)
  moreover have "x mod 4 = 0 \<or> x mod 4 = 1 \<or> x mod 4 = 2 \<or> x mod 4 = 3" by linarith
  moreover have "m = 0 \<or> m = 1 \<or> m = 2 \<or> m = 3 \<or> m = 4 \<or> m = 5 \<or> m = 6 \<or> m = 7"
    using assms by linarith
  ultimately show ?thesis
    by (elim disjE) (simp_all add: pixel_byte4_def bit_simps bit_masks del: bit_0)
qed

lemma read_pixel4:
  assumes "j < 4"
  shows "read_bits 2 j (pixel_byte4 x c r) = (if j = x mod 4 then ucast (c mod 4) else read_bits 2 j r)"
proof (rule bit_word_eqI)
  fix n :: nat
  have t: "bit (c mod 4) i \<longleftrightarrow> i < 2 \<and> bit c i" for i
    using take_bit_eq_mod[of 2 c] by (simp flip: bit_take_bit_iff)
  have "j = 0 \<or> j = 1 \<or> j = 2 \<or> j = 3" using assms by linarith
  moreover have "x mod 4 = 0 \<or> x mod 4 = 1 \<or> x mod 4 = 2 \<or> x mod 4 = 3" by linarith
  moreover have "n = 0 \<or> n = 1 \<or> 2 \<le> n" by linarith
  ultimately show "bit (read_bits 2 j (pixel_byte4 x c r)) n =
    bit (if j = x mod 4 then ucast (c mod 4) else read_bits 2 j r) n"
    by (elim disjE) (simp_all add: bit_read_bits bit_pixel_byte4 bit_simps t del: bit_0)
qed

lemma no_high_bits:
  fixes c :: u16
  assumes "c < 16" and "4 \<le> i"
  shows "\<not> bit c i"
proof -
  have "c AND mask 4 = c" using less_mask_eq[of c 4] assms(1) by simp
  then have "bit c i \<longleftrightarrow> bit (c AND mask 4) i" by simp
  then show ?thesis using assms(2) by (simp add: bit_simps)
qed

lemma bit_pixel_byte7:
  assumes "m < 8" and "c < 16"
  shows "bit (pixel_byte7 x c r) m \<longleftrightarrow> (if m div 4 = 1 - x mod 2 then bit c (m mod 4) else bit r m)"
proof -
  note z = no_high_bits[OF assms(2)]
  have "x mod 2 = 0 \<or> x mod 2 = 1" by linarith
  moreover have "m = 0 \<or> m = 1 \<or> m = 2 \<or> m = 3 \<or> m = 4 \<or> m = 5 \<or> m = 6 \<or> m = 7"
    using assms by linarith
  ultimately show ?thesis
    by (elim disjE) (simp_all add: pixel_byte7_def bit_simps bit_masks z del: bit_0)
qed

lemma read_pixel7:
  assumes "j < 2" and "c < 16"
  shows "read_bits 4 j (pixel_byte7 x c r) = (if j = x mod 2 then ucast c else read_bits 4 j r)"
proof (rule bit_word_eqI)
  fix n :: nat
  note z = no_high_bits[OF assms(2)]
  have "j = 0 \<or> j = 1" using assms by linarith
  moreover have "x mod 2 = 0 \<or> x mod 2 = 1" by linarith
  moreover have "n = 0 \<or> n = 1 \<or> n = 2 \<or> n = 3 \<or> 4 \<le> n" by linarith
  ultimately show "bit (read_bits 4 j (pixel_byte7 x c r)) n =
    bit (if j = x mod 2 then ucast c else read_bits 4 j r) n"
    by (elim disjE) (simp_all add: bit_read_bits bit_pixel_byte7 bit_simps assms(2) z del: bit_0 flip: numeral_2_eq_2)
qed

text \<open>The three densities as one: a byte operation that changes the addressed field only.\<close>

definition pixel_byte :: "PAINT \<Rightarrow> nat \<Rightarrow> u16 \<Rightarrow> u8 \<Rightarrow> u8" where
  "pixel_byte p = (if Scale p = 2 then pixel_byte2 else if Scale p = 4 then pixel_byte4 else pixel_byte7)"

lemma read_pixel_byte:
  assumes "wf_paint p" and "color_ok p c" and "j < density p"
  shows "read_bits (pixel_bits p) j (pixel_byte p X c r) =
    (if j = X mod density p then shade p c else read_bits (pixel_bits p) j r)"
proof -
  consider "Scale p = 2" | "Scale p = 4" | "Scale p = 7" using assms(1) by (auto simp: wf_paint_def)
  then show ?thesis
  proof cases
    case 1
    then show ?thesis using assms(3) read_pixel2[of j X c r]
      by (simp add: density_def pixel_bits_def pixel_byte_def shade_def)
  next
    case 2
    then show ?thesis using assms(3) read_pixel4[of j X c r]
      by (simp add: density_def pixel_bits_def pixel_byte_def shade_def)
  next
    case 3
    then show ?thesis using assms(2,3) read_pixel7[of j c X r]
      by (simp add: density_def pixel_bits_def pixel_byte_def shade_def color_ok_def)
  qed
qed

lemma store_pixel_eq:
  "wf_paint p \<Longrightarrow>
   store_pixel (X, Y) c p = update_byte (X div density p + Y * WidthByte p) (pixel_byte p X c) p"
  by (auto simp: store_pixel_def pixel_byte_def wf_paint_def density_def)

lemma SetPixel_inside:
  assumes "wf_paint p" and "inside p (x, y)"
  shows "Paint_SetPixel x y c p =
    Some (p\<lparr>Image := (Image p)[pixel_addr p (x, y) :=
      pixel_byte p (fst (place p (x, y))) c (Image p ! pixel_addr p (x, y))]\<rparr>)"
proof -
  have a: "pixel_addr p (x, y) < length (Image p)" by (rule pixel_addr_less[OF assms])
  have "Option.bind (rotate_point p x y) (mirror_point p) = Some (place p (x, y))"
    using place_inside[OF assms] by simp
  then obtain q where q: "rotate_point p x y = Some q" "mirror_point p q = Some (place p (x, y))"
    by (auto simp: bind_Some_iff)
  obtain X Y where X: "place p (x, y) = (X, Y)" by (cases "place p (x, y)")
  with place_inside[OF assms] have b: "X < WidthMemory p" "Y < HeightMemory p" by auto
  have "store_pixel (X, Y) c p = update_byte (pixel_addr p (x, y)) (pixel_byte p X c) p"
    using assms(1) X by (simp add: store_pixel_eq pixel_addr_def)
  then show ?thesis
    using assms(2) q X b a by (auto simp: Paint_SetPixel_def inside_def update_byte_def load_def store_def)
qed

lemma inside_image [simp]: "inside (p\<lparr>Image := m\<rparr>) q = inside p q"
  by (simp add: inside_def)

lemma place_image [simp]: "place (p\<lparr>Image := m\<rparr>) q = place p q"
  by (simp add: place_def rotate_point_def mirror_point_def split_beta)

lemma pixel_addr_image [simp]: "pixel_addr (p\<lparr>Image := m\<rparr>) q = pixel_addr p q"
  by (simp add: pixel_addr_def density_def)

lemma image_update_simps [simp]:
  "density (p\<lparr>Image := m\<rparr>) = density p" "pixel_bits (p\<lparr>Image := m\<rparr>) = pixel_bits p"
  "shade (p\<lparr>Image := m\<rparr>) = shade p" "color_ok (p\<lparr>Image := m\<rparr>) = color_ok p"
  by (auto simp: density_def pixel_bits_def shade_def color_ok_def)

lemma wf_paint_image [simp]: "length m = length (Image p) \<Longrightarrow> wf_paint (p\<lparr>Image := m\<rparr>) = wf_paint p"
  by (simp add: wf_paint_def)

section \<open>The canvas contract\<close>

text \<open>
  What the drawing operations rely on: writing a pixel of the drawing area succeeds, gives that
  pixel the value of its colour, and changes no other pixel and no setting.
\<close>

locale canvas =
  fixes ok :: "'c \<Rightarrow> bool" and settings :: "'c \<Rightarrow> 'f"
    and area :: "'f \<Rightarrow> 'q \<Rightarrow> bool" and fits :: "'f \<Rightarrow> 'v \<Rightarrow> bool" and val :: "'f \<Rightarrow> 'v \<Rightarrow> 'w"
    and put :: "'q \<Rightarrow> 'v \<Rightarrow> 'c \<Rightarrow> 'c option" and get :: "'c \<Rightarrow> 'q \<Rightarrow> 'w"
  assumes put_get: "ok s \<Longrightarrow> area (settings s) q \<Longrightarrow> fits (settings s) v \<Longrightarrow>
    \<exists>s'. put q v s = Some s' \<and> ok s' \<and> settings s' = settings s \<and> get s' q = val (settings s) v \<and>
      (\<forall>q'. area (settings s) q' \<longrightarrow> q' \<noteq> q \<longrightarrow> get s' q' = get s q')"
begin

text \<open>After a sequence of writes every pixel has the last colour written to it, or its old value.\<close>

lemma put_all:
  assumes "ok s" and "\<forall>(q, v) \<in> set ws. area (settings s) q \<and> fits (settings s) v"
  shows "\<exists>s'. for_each (\<lambda>(q, v). put q v) ws s = Some s' \<and> ok s' \<and> settings s' = settings s \<and>
    (\<forall>q. area (settings s) q \<longrightarrow>
       get s' q = (case map_of (rev ws) q of None \<Rightarrow> get s q | Some v \<Rightarrow> val (settings s) v))"
  using assms
proof (induction ws arbitrary: s)
  case (Cons w ws)
  obtain q v where w: "w = (q, v)" by (cases w)
  with Cons.prems have "area (settings s) q" "fits (settings s) v" by auto
  from put_get[OF Cons.prems(1) this] obtain t where t: "put q v s = Some t" "ok t" "settings t = settings s"
    "get t q = val (settings s) v" "\<forall>q'. area (settings s) q' \<longrightarrow> q' \<noteq> q \<longrightarrow> get t q' = get s q'" by blast
  from Cons.prems(2) t(3) have "\<forall>(q, v) \<in> set ws. area (settings t) q \<and> fits (settings t) v" by simp
  from Cons.IH[OF t(2) this, unfolded t(3)] obtain u where u: "for_each (\<lambda>(q, v). put q v) ws t = Some u" "ok u"
    "settings u = settings s" "\<forall>q. area (settings s) q \<longrightarrow>
       get u q = (case map_of (rev ws) q of None \<Rightarrow> get t q | Some v \<Rightarrow> val (settings s) v)" by blast
  show ?case
    using t u by (intro exI[of _ u]) (auto simp: w map_add_def split: option.splits)
qed simp

text \<open>Painting a set of points with one colour.\<close>

lemma put_const:
  assumes "ok s" and "\<forall>q \<in> set qs. area (settings s) q" and "fits (settings s) v"
  shows "\<exists>s'. for_each (\<lambda>q. put q v) qs s = Some s' \<and> ok s' \<and> settings s' = settings s \<and>
    (\<forall>q. area (settings s) q \<longrightarrow> get s' q = (if q \<in> set qs then val (settings s) v else get s q))"
proof -
  let ?ws = "map (\<lambda>q. (q, v)) qs"
  have m: "map_of (rev ?ws) q = (if q \<in> set qs then Some v else None)" for q
    by (auto simp: rev_map map_of_map_restrict restrict_map_def)
  have "for_each (\<lambda>(q, v). put q v) ?ws s = for_each (\<lambda>q. put q v) qs s" by (simp add: for_each_map)
  with put_all[OF assms(1), of ?ws] assms(2,3) m show ?thesis by (auto split: if_splits)
qed

end

definition settings :: "PAINT \<Rightarrow> PAINT" where
  "settings p = p\<lparr>Image := []\<rparr>"

lemma settings_simps [simp]:
  "inside (settings p) = inside p" "shade (settings p) = shade p" "color_ok (settings p) = color_ok p"
  "settings (p\<lparr>Image := m\<rparr>) = settings p" "Width (settings p) = Width p" "Height (settings p) = Height p"
  by (auto simp: settings_def fun_eq_iff)

lemma settings_eq:
  assumes "settings p = settings q"
  shows "inside p = inside q \<and> shade p = shade q \<and> color_ok p = color_ok q \<and>
    Width p = Width q \<and> Height p = Height q"
  using assms by (metis settings_simps)

lemma SetPixel_get:
  assumes "wf_paint p" and "inside p (x, y)" and "color_ok p c"
  shows "\<exists>p'. Paint_SetPixel x y c p = Some p' \<and> wf_paint p' \<and> settings p' = settings p \<and>
    get_pixel p' (x, y) = shade p c \<and>
    (\<forall>q. inside p q \<longrightarrow> q \<noteq> (x, y) \<longrightarrow> get_pixel p' q = get_pixel p q)"
proof -
  let ?a = "pixel_addr p (x, y)" and ?X = "fst (place p (x, y))"
  let ?p = "p\<lparr>Image := (Image p)[?a := pixel_byte p ?X c (Image p ! ?a)]\<rparr>"
  have a: "?a < length (Image p)" by (rule pixel_addr_less[OF assms(1,2)])
  have "get_pixel ?p q = get_pixel p q" if q: "inside p q" "q \<noteq> (x, y)" for q
  proof (cases "pixel_addr p q = ?a")
    case True
    have "fst (place p q) mod density p \<noteq> ?X mod density p"
      using pixel_addr_inj[OF assms(1) q(1) assms(2) True] q(2) by blast
    then show ?thesis
      using True a by (simp add: get_pixel_def read_pixel_byte[OF assms(1,3)] density_pos)
  qed (simp add: get_pixel_def)
  moreover have "get_pixel ?p (x, y) = shade p c"
    using a by (simp add: get_pixel_def read_pixel_byte[OF assms(1,3)] density_pos)
  ultimately show ?thesis
    using SetPixel_inside[OF assms(1,2)] assms(1) by simp
qed

interpretation pix: canvas wf_paint settings inside color_ok shade
  "\<lambda>q c. Paint_SetPixel (fst q) (snd q) c" get_pixel
  by unfold_locales (use SetPixel_get in \<open>auto simp del: split_paired_All\<close>)


section \<open>Properties of the primitives\<close>

lemma wf_width: "wf_paint p \<Longrightarrow> Width p < 65536 \<and> Height p < 65536"
  by (auto simp: wf_paint_def)

text \<open>
  C17. Setting a pixel of the drawing area, under any rotation, mirroring and density, gives exactly
  that pixel the value of the colour: every other pixel, all settings and the size of the image
  stay as they were, and no memory outside the image is touched.
\<close>

theorem set_pixel_spec:
  assumes "wf_paint p" and "x < Width p" and "y < Height p" and "color_ok p c"
  shows "\<exists>p'. Paint_SetPixel x y c p = Some p' \<and> wf_paint p' \<and> settings p' = settings p \<and>
    get_pixel p' (x, y) = shade p c \<and>
    (\<forall>q. inside p q \<longrightarrow> q \<noteq> (x, y) \<longrightarrow> get_pixel p' q = get_pixel p q)"
  using assms by (intro SetPixel_get) (auto simp: inside_def)

definition demo_paint :: PAINT where
  "demo_paint = Paint_SetMirroring MIRROR_VERTICAL (Paint_NewImage (replicate 6 0) 10 3 ROTATE_270 WHITE)"

lemma demo_paint_wf: "wf_paint demo_paint" "Width demo_paint = 3" "Height demo_paint = 10" "Scale demo_paint = 2"
  "Image demo_paint = replicate 6 0" "WidthMemory demo_paint = 10" "Rotate demo_paint = 270" "Mirror demo_paint = 2"
  by (simp_all add: demo_paint_def Paint_SetMirroring_def Paint_NewImage_def mirror_defs rotate_defs wf_paint_def
    density_def per_byte_def)

theorem set_pixel_spec_witness:
  "\<exists>p'. Paint_SetPixel 2 9 WHITE demo_paint = Some p' \<and> wf_paint p' \<and> settings p' = settings demo_paint \<and>
    get_pixel p' (2, 9) = shade demo_paint WHITE \<and>
    (\<forall>q. inside demo_paint q \<longrightarrow> q \<noteq> (2, 9) \<longrightarrow> get_pixel p' q = get_pixel demo_paint q)"
  by (rule set_pixel_spec) (simp_all add: demo_paint_wf color_ok_def)

text \<open>
  The guard of \<open>Paint_SetPixel\<close> lets the coordinates one past the edge through: on an image
  that is neither rotated nor mirrored any pixel of the row \<open>Height\<close> is written behind the end of
  the image, and in the rotation the display uses the pixel in column 0 of that row is.
\<close>

theorem set_pixel_edge:
  assumes "wf_paint p" and "Mirror p = MIRROR_NONE" and "x \<le> Width p"
    and "Rotate p = ROTATE_0 \<or> Rotate p = ROTATE_270 \<and> x = 0 \<and> 0 < Width p \<and> WidthMemory p mod density p = 0"
  shows "Paint_SetPixel x (Height p) c p = None"
  using assms(4)
proof (elim disjE conjE)
  assume r: "Rotate p = ROTATE_0"
  have "\<not> x div k + HeightMemory p * WidthByte p < WidthByte p * HeightMemory p" for k
    by (simp add: mult.commute)
  then show ?thesis
    using assms r by (auto simp: Paint_SetPixel_def rotate_point_def mirror_point_def rotate_defs mirror_defs
      store_pixel_def update_byte_def load_def wf_paint_def)
next
  assume r: "Rotate p = ROTATE_270" "x = 0" "0 < Width p" "WidthMemory p mod density p = 0"
  have w: "WidthByte p = WidthMemory p div density p" "Height p = WidthMemory p" "Width p = HeightMemory p"
    "length (Image p) = WidthByte p * HeightMemory p" "HeightMemory p < 65536"
    using assms(1) r by (auto simp: wf_paint_def per_byte_def rotate_defs)
  have "\<not> WidthByte p + (HeightMemory p - Suc 0) * WidthByte p < WidthByte p * HeightMemory p"
    using r(3) w(3) by (cases "HeightMemory p") (auto simp: mult.commute)
  moreover have "to_u16 (int (HeightMemory p) - int 0 - 1) = HeightMemory p - Suc 0"
    by (rule to_u16_flip) (use r w in auto)
  ultimately have "Paint_SetPixel x (Height p) c p = store_pixel (WidthMemory p, HeightMemory p - Suc 0) c p"
    "store_pixel (WidthMemory p, HeightMemory p - Suc 0) c p = None"
    using assms(2) r(1,2) w
    by (simp_all add: Paint_SetPixel_def rotate_point_def mirror_point_def rotate_defs mirror_defs
      store_pixel_eq[OF assms(1)] update_byte_def load_def)
  then show ?thesis by simp
qed

theorem set_pixel_edge_witness:
  "Paint_SetPixel 0 16 BLACK (Paint_NewImage (replicate 6 0) 16 3 ROTATE_270 WHITE) = None"
  using set_pixel_edge[of "Paint_NewImage (replicate 6 0) 16 3 ROTATE_270 WHITE" 0 BLACK]
  by (simp add: Paint_NewImage_def wf_paint_def rotate_defs mirror_defs density_def per_byte_def)

text \<open>Clearing.\<close>

lemma byte_addrs_eq: "byte_addrs p = [0..<WidthByte p * HeightByte p]"
  by (simp only: byte_addrs_def rows_upt)

lemma for_each_store:
  assumes "\<And>a. a < length (Image p) \<Longrightarrow> load src (f a) = Some (g a)" and "n \<le> length (Image p)"
  shows "for_each (\<lambda>a p. do { b \<leftarrow> load src (f a); m \<leftarrow> store (Image p) a b; Some (p\<lparr>Image := m\<rparr>) }) [0..<n] p =
    Some (p\<lparr>Image := map g [0..<n] @ drop n (Image p)\<rparr>)"
  using assms(2)
proof (induction n)
  case (Suc n)
  then have n: "n < length (Image p)" by simp
  have "(map g [0..<n] @ drop n (Image p))[n := g n] = map g [0..<Suc n] @ drop (Suc n) (Image p)"
    using n by (simp add: list_update_append Cons_nth_drop_Suc[symmetric])
  then show ?case
    using Suc n assms(1)[OF n] by (simp add: for_each_append store_def)
qed simp


definition clear_ok :: "PAINT \<Rightarrow> u16 \<Rightarrow> bool" where
  "clear_ok p c \<longleftrightarrow> (Scale p = 2 \<and> c \<in> {BLACK, WHITE}) \<or> (Scale p = 4 \<and> c < 4) \<or> (Scale p = 7 \<and> c < 16)"

lemma no_bits_above_4:
  fixes c :: u16
  assumes "c < 4" and "2 \<le> i"
  shows "\<not> bit c i"
proof -
  have "c AND mask 2 = c" using less_mask_eq[of c 2] assms(1) by simp
  then have "bit c i \<longleftrightarrow> bit (c AND mask 2) i" by simp
  then show ?thesis using assms(2) by (simp add: bit_simps)
qed

lemma read_clear4:
  fixes c :: u16
  assumes "j < 4" and "c < 4"
  defines "C \<equiv> ucast c :: u32"
  shows "read_bits 2 j (ucast (push_bit 6 C OR push_bit 4 C OR push_bit 2 C OR C)) = ucast c"
proof (rule bit_word_eqI)
  fix n :: nat
  have "j = 0 \<or> j = 1 \<or> j = 2 \<or> j = 3" using assms(1) by linarith
  moreover have "n = 0 \<or> n = 1 \<or> 2 \<le> n" by linarith
  ultimately show "bit (read_bits 2 j (ucast (push_bit 6 C OR push_bit 4 C OR push_bit 2 C OR C))) n = bit (ucast c :: u8) n"
    by (elim disjE) (simp_all add: C_def bit_read_bits bit_simps no_bits_above_4[OF assms(2)] del: bit_0)
qed

lemma read_clear7:
  fixes c :: u16
  assumes "j < 2" and "c < 16"
  defines "C \<equiv> ucast c :: u32"
  shows "read_bits 4 j (ucast (push_bit 4 C OR C)) = ucast c"
proof (rule bit_word_eqI)
  fix n :: nat
  have "j = 0 \<or> j = 1" using assms(1) by linarith
  moreover have "n = 0 \<or> n = 1 \<or> n = 2 \<or> n = 3 \<or> 4 \<le> n" by linarith
  ultimately show "bit (read_bits 4 j (ucast (push_bit 4 C OR C))) n = bit (ucast c :: u8) n"
    by (elim disjE) (simp_all add: C_def bit_read_bits bit_simps no_high_bits[OF assms(2)] del: bit_0 flip: numeral_2_eq_2)
qed

lemma read_ones: "j < 8 \<Longrightarrow> read_bits 1 j 255 = 1"
proof (rule bit_word_eqI)
  fix n :: nat
  assume "j < 8"
  have "(255 :: u8) = mask 8" by (simp add: mask_eq_exp_minus_1)
  then have "bit (255 :: u8) m \<longleftrightarrow> m < 8" for m by (simp only: bit_mask_iff possible_bit_word) simp
  then show "bit (read_bits 1 j 255) n = bit (1 :: u8) n"
    by (cases n) (simp_all add: bit_read_bits del: bit_0)
qed

lemma read_clear_byte:
  assumes "clear_ok p c" and "clear_byte p c = Some b" and "j < density p"
  shows "read_bits (pixel_bits p) j b = shade p c"
proof -
  consider "Scale p = 2" "c = BLACK" | "Scale p = 2" "c = WHITE" | "Scale p = 4" "c < 4" | "Scale p = 7" "c < 16"
    using assms(1) by (auto simp: clear_ok_def)
  then show ?thesis
  proof cases
    case 1
    then show ?thesis using assms(2)
      by (simp add: clear_byte_def density_def pixel_bits_def shade_def read_bits_def BLACK_def)
  next
    case 2
    then show ?thesis using assms(2,3) read_ones[of j]
      by (simp add: clear_byte_def density_def pixel_bits_def shade_def BLACK_def WHITE_def)
  next
    case 3
    have "c mod 4 = c" using 3(2) by (simp add: word_mod_def word_less_alt uint_mod_distrib)
    then show ?thesis using 3 assms(2,3) read_clear4[of j c]
      by (auto simp: clear_byte_def density_def pixel_bits_def shade_def Let_def)
  next
    case 4
    then show ?thesis using assms(2,3) read_clear7[of j c]
      by (auto simp: clear_byte_def density_def pixel_bits_def shade_def Let_def)
  qed
qed

lemma clear_image:
  assumes "wf_paint p"
  shows "\<exists>b. clear_byte p c = Some b \<and>
    Paint_Clear c p = Some (p\<lparr>Image := replicate (length (Image p)) b\<rparr>)"
proof -
  obtain b where b: "clear_byte p c = Some b"
    using assms by (auto simp: clear_byte_def wf_paint_def Let_def)
  have "for_each (\<lambda>a p. do { m \<leftarrow> store (Image p) a b; Some (p\<lparr>Image := m\<rparr>) }) [0..<length (Image p)] p =
    Some (p\<lparr>Image := map (\<lambda>_. b) [0..<length (Image p)]\<rparr>)"
    using for_each_store[of p "[b]" "\<lambda>_. 0" "\<lambda>_. b" "length (Image p)"] by (simp add: load_def)
  then show ?thesis
    using b assms by (simp add: Paint_Clear_def byte_addrs_eq wf_paint_def map_replicate_const)
qed

lemma clear_get:
  assumes "wf_paint p" and "clear_ok p c"
  shows "\<exists>p'. Paint_Clear c p = Some p' \<and> wf_paint p' \<and> settings p' = settings p \<and>
      (\<forall>q. inside p q \<longrightarrow> get_pixel p' q = shade p c)"
proof -
  from clear_image[OF assms(1)] obtain b where b: "clear_byte p c = Some b"
    "Paint_Clear c p = Some (p\<lparr>Image := replicate (length (Image p)) b\<rparr>)" by blast
  have "get_pixel (p\<lparr>Image := replicate (length (Image p)) b\<rparr>) q = shade p c" if "inside p q" for q
    using read_clear_byte[OF assms(2) b(1)] pixel_addr_less[OF assms(1) that] density_pos[of p]
    by (simp add: get_pixel_def)
  then show ?thesis using b(2) assms(1) by simp
qed

text \<open>
  Clearing a well-formed image gives every pixel of the drawing area the value of the colour, for
  the colours the density supports, and leaves the settings alone; drawing a bitmap of the size of
  the image replaces the image by it.
\<close>

theorem paint_clear_spec:
  assumes "wf_paint p" and "clear_ok p c" and "length bitmap = length (Image p)"
  shows "(\<exists>p'. Paint_Clear c p = Some p' \<and> wf_paint p' \<and> settings p' = settings p \<and>
      (\<forall>q. inside p q \<longrightarrow> get_pixel p' q = shade p c)) \<and>
    Paint_DrawBitMap bitmap p = Some (p\<lparr>Image := bitmap\<rparr>)"
proof
  show "\<exists>p'. Paint_Clear c p = Some p' \<and> wf_paint p' \<and> settings p' = settings p \<and>
      (\<forall>q. inside p q \<longrightarrow> get_pixel p' q = shade p c)"
    by (rule clear_get[OF assms(1,2)])
  have "map ((!) bitmap) [0..<length (Image p)] = bitmap"
    using assms(3) by (metis map_nth)
  then show "Paint_DrawBitMap bitmap p = Some (p\<lparr>Image := bitmap\<rparr>)"
    using for_each_store[of p bitmap "\<lambda>a. a" "\<lambda>a. bitmap ! a" "length (Image p)"] assms(1,3)
    by (simp add: Paint_DrawBitMap_def byte_addrs_eq load_def wf_paint_def)
qed

theorem paint_clear_spec_witness:
  "(\<exists>p'. Paint_Clear WHITE demo_paint = Some p' \<and> wf_paint p' \<and> settings p' = settings demo_paint \<and>
      (\<forall>q. inside demo_paint q \<longrightarrow> get_pixel p' q = shade demo_paint WHITE)) \<and>
    Paint_DrawBitMap [1, 2, 3, 4, 5, 6] demo_paint = Some (demo_paint\<lparr>Image := [1, 2, 3, 4, 5, 6]\<rparr>)"
  by (rule paint_clear_spec) (simp_all add: demo_paint_wf clear_ok_def)


text \<open>Points.\<close>

lemma paint_points:
  assumes "wf_paint p" and "\<forall>q \<in> set qs. inside p q" and "color_ok p c"
  shows "\<exists>p'. for_each (\<lambda>q. Paint_SetPixel (fst q) (snd q) c) qs p = Some p' \<and> wf_paint p' \<and> settings p' = settings p \<and>
    (\<forall>q. inside p q \<longrightarrow> get_pixel p' q = (if q \<in> set qs then shade p c else get_pixel p q))"
  using pix.put_const[OF assms(1), of qs c, unfolded settings_simps, OF assms(2,3)] .

definition square :: "nat \<Rightarrow> nat \<Rightarrow> nat \<Rightarrow> (nat \<times> nat) list" where
  "square X Y d = concat (map (\<lambda>i. map (\<lambda>j. (X + i - d, Y + j - d)) [0..<2 * d - 1]) [0..<2 * d - 1])"

lemma set_square:
  "d \<le> X \<Longrightarrow> d \<le> Y \<Longrightarrow>
   set (square X Y d) = {X - d..<X + d - 1} \<times> {Y - d..<Y + d - 1}"
proof (intro set_eqI iffI)
  fix q :: "nat \<times> nat"
  assume "d \<le> X" "d \<le> Y" "q \<in> {X - d..<X + d - 1} \<times> {Y - d..<Y + d - 1}"
  moreover from this have "q = (X + (fst q - (X - d)) - d, Y + (snd q - (Y - d)) - d)"
    "fst q - (X - d) < 2 * d - 1" "snd q - (Y - d) < 2 * d - 1" by (auto simp: prod_eq_iff)
  ultimately show "q \<in> set (square X Y d)"
    unfolding square_def set_concat set_map set_upt UN_iff image_iff bex_simps by (metis atLeast0LessThan lessThan_iff)
qed (auto simp: square_def)

lemma dot_column_eq:
  assumes "d \<le> X" and "d \<le> Y" and "X + i - d < 65536" and "\<forall>j \<in> set ys. Y + j - d < 65536"
  shows "dot_column X Y c d i ys p = for_each (\<lambda>q. Paint_SetPixel (fst q) (snd q) c) (map (\<lambda>j. (X + i - d, Y + j - d)) ys) p"
  using assms(4)
proof (induction ys arbitrary: p)
  case (Cons j ys)
  have n: "nat (int X + int i - int d) = X + i - d" "nat (int Y + int j - int d) = Y + j - d"
    using assms(1,2) by auto
  have "to_u16 (int X + int i - int d) = X + i - d" "to_u16 (int Y + int j - int d) = Y + j - d"
    using assms(1-3) Cons.prems n by (auto simp: to_u16_id)
  then show ?case using Cons assms(1,2) by (cases "Paint_SetPixel (X + i - d) (Y + j - d) c p") auto
qed simp

lemma draw_point_eq:
  assumes "wf_paint p" and "d \<le> X" and "d \<le> Y" and "X \<le> Width p" and "Y \<le> Height p"
    and "\<forall>q \<in> set (square X Y d). inside p q"
  shows "Paint_DrawPoint X Y c d DOT_FILL_AROUND p = for_each (\<lambda>q. Paint_SetPixel (fst q) (snd q) c) (square X Y d) p"
proof -
  have "X + i - d < 65536 \<and> (\<forall>j \<in> set [0..<2 * d - 1]. Y + j - d < 65536)" if "i < 2 * d - 1" for i
  proof -
    have "inside p (X + i - d, Y + j - d)" if "j < 2 * d - 1" for j
      using assms(6) that \<open>i < 2 * d - 1\<close> by (auto simp: square_def)
    then show ?thesis using wf_width[OF assms(1)] that by (fastforce simp: inside_def)
  qed
  then have "for_each (\<lambda>i. dot_column X Y c d i [0..<2 * d - 1]) xs q =
      for_each (\<lambda>i. for_each (\<lambda>q. Paint_SetPixel (fst q) (snd q) c) (map (\<lambda>j. (X + i - d, Y + j - d)) [0..<2 * d - 1])) xs q"
    if "set xs \<subseteq> {0..<2 * d - 1}" for xs q
    using that
  proof (induction xs arbitrary: q)
    case (Cons i xs)
    then show ?case
      using dot_column_eq[OF assms(2,3), of i "[0..<2 * d - 1]" c q]
      by (cases "for_each (\<lambda>q. Paint_SetPixel (fst q) (snd q) c) (map (\<lambda>j. (X + i - d, Y + j - d)) [0..<2 * d - 1]) q") auto
  qed simp
  from this[of "[0..<2 * d - 1]" p] show ?thesis
    using assms(4,5) by (simp add: Paint_DrawPoint_def square_def for_each_concat_map)
qed

text \<open>
  A dot of size \<open>d\<close> drawn around a point that is at least \<open>d\<close> from the left and upper edge and
  fits the drawing area fills exactly the square of side \<open>2 d - 1\<close> whose first corner is
  \<open>(X - d, Y - d)\<close>; a dot closer than that to the upper edge is not drawn at all.
\<close>

theorem draw_point_square:
  assumes "wf_paint p" and "0 < d" and "d \<le> X" and "X + d - 1 \<le> Width p" and "Y + d - 1 \<le> Height p" and "color_ok p c"
  shows "(d \<le> Y \<longrightarrow> (\<exists>p'. Paint_DrawPoint X Y c d DOT_FILL_AROUND p = Some p' \<and> wf_paint p' \<and> settings p' = settings p \<and>
      (\<forall>q. inside p q \<longrightarrow> get_pixel p' q =
         (if q \<in> {X - d..<X + d - 1} \<times> {Y - d..<Y + d - 1} then shade p c else get_pixel p q)))) \<and>
    (Y < d \<longrightarrow> Paint_DrawPoint X Y c d DOT_FILL_AROUND p = Some p)"
proof (intro conjI impI)
  assume y: "d \<le> Y"
  have "\<forall>q \<in> set (square X Y d). inside p q"
    using assms(2-5) y by (auto simp: set_square inside_def)
  with draw_point_eq[OF assms(1,3) y _ _ this] paint_points[OF assms(1) this assms(6)] assms y
  show "\<exists>p'. Paint_DrawPoint X Y c d DOT_FILL_AROUND p = Some p' \<and> wf_paint p' \<and> settings p' = settings p \<and>
      (\<forall>q. inside p q \<longrightarrow> get_pixel p' q =
         (if q \<in> {X - d..<X + d - 1} \<times> {Y - d..<Y + d - 1} then shade p c else get_pixel p q))"
    by (simp only: set_square)
next
  assume y: "Y < d"
  then obtain k where k: "2 * d - 1 = Suc k" by (cases "2 * d - 1") auto
  then have "[0..<2 * d - 1] = 0 # [Suc 0..<2 * d - 1]" by (simp add: upt_conv_Cons)
  then have c: "dot_column X Y c d i [0..<2 * d - 1] p = Some p" for i p using y by simp
  have "for_each (\<lambda>i. dot_column X Y c d i [0..<2 * d - 1]) xs p = Some p" for xs p
    by (induction xs) (simp_all only: for_each.simps c Option.bind.simps)
  then show "Paint_DrawPoint X Y c d DOT_FILL_AROUND p = Some p" by (simp add: Paint_DrawPoint_def)
qed

theorem draw_point_square_witness:
  "(\<exists>p'. Paint_DrawPoint 2 8 WHITE 2 DOT_FILL_AROUND demo_paint = Some p' \<and> wf_paint p' \<and> settings p' = settings demo_paint \<and>
      (\<forall>q. inside demo_paint q \<longrightarrow> get_pixel p' q =
         (if q \<in> {0..<3} \<times> {6..<9} then shade demo_paint WHITE else get_pixel demo_paint q))) \<and>
    Paint_DrawPoint 2 1 WHITE 2 DOT_FILL_AROUND demo_paint = Some demo_paint"
  using draw_point_square[of demo_paint 2 2 8 WHITE] draw_point_square[of demo_paint 2 2 1 WHITE]
  by (simp add: demo_paint_wf color_ok_def)


text \<open>Lines of width one.\<close>

definition dot1 :: "nat \<Rightarrow> nat \<Rightarrow> (nat \<times> nat) list" where
  "dot1 X Y = (if 1 \<le> X \<and> 1 \<le> Y then [(X - 1, Y - 1)] else [])"

lemma draw_point1:
  assumes "wf_paint p" and "X \<le> Width p" and "Y \<le> Height p"
  shows "Paint_DrawPoint X Y c 1 DOT_FILL_AROUND p =
    for_each (\<lambda>q. Paint_SetPixel (fst q) (snd q) c) (dot1 X Y) p"
proof -
  have "to_u16 (int X - 1) = X - 1" if "1 \<le> X" using that assms wf_width[OF assms(1)] by (auto simp: to_u16_id)
  moreover have "to_u16 (int Y - 1) = Y - 1" if "1 \<le> Y" using that assms wf_width[OF assms(1)] by (auto simp: to_u16_id)
  ultimately show ?thesis
    using assms(2,3) by (cases "Paint_SetPixel (X - 1) (Y - 1) c p") (auto simp: Paint_DrawPoint_def dot1_def)
qed

lemma dot1_inside: "X \<le> Width p \<Longrightarrow> Y \<le> Height p \<Longrightarrow> \<forall>q \<in> set (dot1 X Y). inside p q"
  by (auto simp: dot1_def inside_def)

definition box :: "nat \<Rightarrow> nat \<Rightarrow> nat \<Rightarrow> nat \<Rightarrow> (nat \<times> nat) set" where
  "box X0 Y0 X1 Y1 = {q. min X0 X1 \<le> fst q + 1 \<and> fst q + 1 \<le> max X0 X1 \<and> min Y0 Y1 \<le> snd q + 1 \<and> snd q + 1 \<le> max Y0 Y1}"

definition line_inv :: "PAINT \<Rightarrow> nat \<Rightarrow> nat \<Rightarrow> nat \<Rightarrow> nat \<Rightarrow> line_state \<Rightarrow> bool" where
  "line_inv p X0 Y0 X1 Y1 s \<longleftrightarrow>
     min X0 X1 \<le> lx s \<and> lx s \<le> max X0 X1 \<and> min Y0 Y1 \<le> ly s \<and> ly s \<le> max Y0 Y1 \<and>
     wf_paint (lpaint s) \<and> settings (lpaint s) = settings p \<and>
     (\<forall>q. inside p q \<longrightarrow> q \<notin> box X0 Y0 X1 Y1 \<longrightarrow> get_pixel (lpaint s) q = get_pixel p q)"

definition line_dist :: "nat \<Rightarrow> nat \<Rightarrow> line_state \<Rightarrow> nat" where
  "line_dist X1 Y1 s = nat \<bar>int X1 - int (lx s)\<bar> + nat \<bar>int Y1 - int (ly s)\<bar>"

lemma draw_point1_get:
  assumes "wf_paint p" and "X \<le> Width p" and "Y \<le> Height p" and "color_ok p c"
  shows "\<exists>p'. Paint_DrawPoint X Y c 1 DOT_FILL_AROUND p = Some p' \<and> wf_paint p' \<and> settings p' = settings p \<and>
    (\<forall>q. inside p q \<longrightarrow> get_pixel p' q = (if q \<in> set (dot1 X Y) then shade p c else get_pixel p q))"
  using paint_points[OF assms(1) dot1_inside[OF assms(2,3)] assms(4)] draw_point1[OF assms(1-3)] by simp

lemma line_plot_inv:
  assumes "line_inv p X0 Y0 X1 Y1 s" and "X0 \<le> Width p" "X1 \<le> Width p" "Y0 \<le> Height p" "Y1 \<le> Height p"
    and "color_ok p c" and "color_ok p IMAGE_BACKGROUND"
  shows "\<exists>s'. line_plot c 1 st s = Some s' \<and> line_inv p X0 Y0 X1 Y1 s' \<and> lx s' = lx s \<and> ly s' = ly s \<and> Esp s' = Esp s"
proof -
  have i: "inside (lpaint s) = inside p" "color_ok (lpaint s) = color_ok p" "Width (lpaint s) = Width p"
    "Height (lpaint s) = Height p" using settings_eq[of "lpaint s" p] assms(1) by (auto simp: line_inv_def)
  have b: "lx s \<le> Width (lpaint s)" "ly s \<le> Height (lpaint s)" "wf_paint (lpaint s)"
    using assms(1-5) i by (auto simp: line_inv_def)
  have "set (dot1 (lx s) (ly s)) \<subseteq> box X0 Y0 X1 Y1" using assms(1) by (auto simp: dot1_def box_def line_inv_def)
  then have "\<exists>p'. Paint_DrawPoint (lx s) (ly s) d 1 DOT_FILL_AROUND (lpaint s) = Some p' \<and> wf_paint p' \<and>
      settings p' = settings p \<and> (\<forall>q. inside p q \<longrightarrow> q \<notin> box X0 Y0 X1 Y1 \<longrightarrow> get_pixel p' q = get_pixel p q)"
    if "color_ok p d" for d
    using draw_point1_get[OF b(3,1,2), of d] that assms(1) unfolding i line_inv_def by fastforce
  from this[OF assms(6)] this[OF assms(7)] assms(1) show ?thesis
    by (auto simp: line_plot_def Let_def line_inv_def)
qed

lemma line_move_y_dec:
  assumes "line_inv p X0 Y0 X1 Y1 s" and "max Y0 Y1 < 65536" and "ya = (if Y0 < Y1 then 1 else - 1)"
  shows "case line_move_y dx ya Y1 s of Inl r \<Rightarrow> r = lpaint s
    | Inr s' \<Rightarrow> line_inv p X0 Y0 X1 Y1 s' \<and> line_dist X1 Y1 s' \<le> line_dist X1 Y1 s \<and>
        (2 * Esp s \<le> dx \<longrightarrow> line_dist X1 Y1 s' < line_dist X1 Y1 s)"
proof (cases "2 * Esp s \<le> dx \<and> ly s \<noteq> Y1")
  case True
  then have "to_u16 (int (ly s) + ya) = nat (int (ly s) + ya)" "0 \<le> int (ly s) + ya"
    using assms by (auto simp: line_inv_def to_u16_id)
  with True show ?thesis
    using assms(1,3) by (auto simp: line_move_y_def line_dist_def line_inv_def split: if_splits)
qed (use assms(1) in \<open>auto simp: line_move_y_def\<close>)

lemma line_move_dec:
  assumes "line_inv p X0 Y0 X1 Y1 s" and "max X0 X1 < 65536" "max Y0 Y1 < 65536"
    and "dy \<le> dx" and "xa = (if X0 < X1 then 1 else - 1)" and "ya = (if Y0 < Y1 then 1 else - 1)"
  shows "case line_move dx dy xa ya X1 Y1 s of Inl r \<Rightarrow> r = lpaint s
    | Inr s' \<Rightarrow> line_inv p X0 Y0 X1 Y1 s' \<and> line_dist X1 Y1 s' < line_dist X1 Y1 s"
proof (cases "dy \<le> 2 * Esp s \<and> lx s \<noteq> X1")
  case True
  let ?t = "s\<lparr>Esp := Esp s + dy, lx := to_u16 (int (lx s) + xa)\<rparr>"
  have "to_u16 (int (lx s) + xa) = nat (int (lx s) + xa)" "0 \<le> int (lx s) + xa"
    using assms True by (auto simp: line_inv_def to_u16_id)
  then have "line_inv p X0 Y0 X1 Y1 ?t" "line_dist X1 Y1 ?t < line_dist X1 Y1 s"
    using assms(1,5) True by (auto simp: line_dist_def line_inv_def split: if_splits)
  with line_move_y_dec[OF this(1) assms(3,6), of dx] True show ?thesis
    by (auto simp: line_move_def split: sum.splits)
next
  case False
  have "2 * Esp s \<le> dx" if "\<not> dy \<le> 2 * Esp s" using that assms(4) by linarith
  with line_move_y_dec[OF assms(1,3,6), of dx] False show ?thesis
    by (auto simp: line_move_def split: sum.splits)
qed



text \<open>Straight lines.\<close>

definition run_x :: "nat \<Rightarrow> int \<Rightarrow> nat \<Rightarrow> nat list" where
  "run_x x a n = map (\<lambda>i. nat (int x + a * int i)) [0..<Suc n]"

lemma run_x_Suc: "0 \<le> int x + a \<Longrightarrow> run_x x a (Suc n) = x # run_x (nat (int x + a)) a n"
  unfolding run_x_def
  by (simp only: upt_conv_Cons map_Suc_upt[symmetric] list.map) (simp add: algebra_simps del: upt_Suc)

lemma hline_loop:
  assumes "0 < dx" and "a = 1 \<or> a = - 1" and "int X1 = int (lx s) + a * int n" and "Esp s = dx"
    and "lx s < 65536" "X1 < 65536" "n < k"
  shows "(case run_loop k (\<lambda>s. map_option (line_move dx 0 a ya X1 Y1) (line_plot c w LINE_STYLE_SOLID s)) s of
      Some (Inl p') \<Rightarrow> Some p' | _ \<Rightarrow> None) =
    for_each (\<lambda>x. Paint_DrawPoint x (ly s) c w DOT_FILL_AROUND) (run_x (lx s) a n) (lpaint s)"
  using assms(3-)
proof (induction n arbitrary: s k)
  case 0
  then obtain k' where "k = Suc k'" by (cases k) auto
  with 0 show ?case
    using assms(1)
    by (cases "Paint_DrawPoint (lx s) (ly s) c w DOT_FILL_AROUND (lpaint s)")
      (auto simp: run_x_def line_plot_def line_move_def line_move_y_def Let_def)
next
  case (Suc n)
  then obtain k' where k: "k = Suc k'" "n < k'" by (cases k) auto
  have pos: "0 \<le> int (lx s) + a" "int (lx s) + a < 65536"
    using Suc.prems assms(2) by (auto split: if_splits)
  have ne: "lx s \<noteq> X1" using Suc.prems(1) assms(2) by auto
  show ?case
  proof (cases "Paint_DrawPoint (lx s) (ly s) c w DOT_FILL_AROUND (lpaint s)")
    case (Some p)
    let ?t = "s\<lparr>Dotted_Len := to_u8 (int (Dotted_Len s) + 1), lpaint := p, lx := nat (int (lx s) + a)\<rparr>"
    have "map_option (line_move dx 0 a ya X1 Y1) (line_plot c w LINE_STYLE_SOLID s) = Some (Inr ?t)"
      using Suc.prems(2) Some ne assms(1) pos by (simp add: line_plot_def line_move_def line_move_y_def to_u16_id)
    moreover note Suc.IH[of ?t k']
    moreover have "int X1 = int (lx ?t) + a * int n" "lx ?t < 65536"
      using Suc.prems(1) pos by (auto simp: algebra_simps)
    ultimately show ?thesis
      using Suc.prems k Some pos by (auto simp: run_x_Suc)
  qed (use k pos in \<open>simp add: run_x_Suc line_plot_def Let_def\<close>)
qed

lemma hline_draw:
  assumes "X0 \<le> Width p" "X1 \<le> Width p" "Y \<le> Height p" "X0 \<noteq> X1" "Width p < 65536"
    and "nat \<bar>int X1 - int X0\<bar> < fuel"
  shows "Paint_DrawLine fuel X0 Y X1 Y c w LINE_STYLE_SOLID p =
    for_each (\<lambda>x. Paint_DrawPoint x Y c w DOT_FILL_AROUND)
      (run_x X0 (if X0 < X1 then 1 else - 1) (nat \<bar>int X1 - int X0\<bar>)) p"
proof -
  let ?a = "if X0 < X1 then 1 else - 1 :: int" and ?n = "nat \<bar>int X1 - int X0\<bar>"
  let ?dx = "if int X1 - int X0 \<ge> 0 then int X1 - int X0 else int X0 - int X1"
  let ?s = "\<lparr>lx = X0, ly = Y, Esp = ?dx, Dotted_Len = 0, lpaint = p\<rparr>"
  have "int X1 = int (lx ?s) + ?a * int ?n" "0 < ?dx" using assms(4) by auto
  from hline_loop[OF this(2) _ this(1), of fuel "- 1" Y c w] assms
  show ?thesis by (simp add: Paint_DrawLine_def Let_def)
qed

lemma set_run_x:
  "set (run_x X0 (if X0 < X1 then 1 else - 1) (nat \<bar>int X1 - int X0\<bar>)) = {min X0 X1..max X0 X1}"
proof (intro set_eqI iffI)
  fix x
  assume x: "x \<in> {min X0 X1..max X0 X1}"
  have "x = nat (int X0 + (if X0 < X1 then 1 else - 1) * int (nat \<bar>int x - int X0\<bar>))"
    "nat \<bar>int x - int X0\<bar> < Suc (nat \<bar>int X1 - int X0\<bar>)" using x by auto
  then show "x \<in> set (run_x X0 (if X0 < X1 then 1 else - 1) (nat \<bar>int X1 - int X0\<bar>))"
    unfolding run_x_def set_map set_upt image_iff by (metis atLeast0LessThan lessThan_iff)
qed (auto simp: run_x_def)

text \<open>
  A horizontal line of width one paints exactly the pixels of its segment, in either direction:
  column \<open>x\<close> of the drawing area corresponds to the coordinate \<open>x + 1\<close>, coordinate 0 lies outside.
\<close>

theorem draw_line_horizontal:
  assumes "wf_paint p" and "X0 \<le> Width p" "X1 \<le> Width p" "Y \<le> Height p" and "X0 \<noteq> X1" and "color_ok p c"
    and "nat \<bar>int X1 - int X0\<bar> < fuel"
  shows "\<exists>p'. Paint_DrawLine fuel X0 Y X1 Y c 1 LINE_STYLE_SOLID p = Some p' \<and> wf_paint p' \<and> settings p' = settings p \<and>
    (\<forall>q. inside p q \<longrightarrow> get_pixel p' q =
       (if snd q + 1 = Y \<and> min X0 X1 \<le> fst q + 1 \<and> fst q + 1 \<le> max X0 X1 then shade p c else get_pixel p q))"
proof -
  let ?xs = "run_x X0 (if X0 < X1 then 1 else - 1) (nat \<bar>int X1 - int X0\<bar>)"
  let ?qs = "concat (map (\<lambda>x. dot1 x Y) ?xs)"
  have "for_each (\<lambda>x. Paint_DrawPoint x Y c 1 DOT_FILL_AROUND) xs r =
      for_each (\<lambda>x. for_each (\<lambda>q. Paint_SetPixel (fst q) (snd q) c) (dot1 x Y)) xs r"
    if "wf_paint r" "settings r = settings p" "\<forall>x \<in> set xs. x \<le> Width p" for xs r
    using that
  proof (induction xs arbitrary: r)
    case (Cons x xs)
    note e = settings_eq[OF Cons.prems(2)]
    from e have b: "x \<le> Width r" "Y \<le> Height r" "color_ok r c" using Cons.prems(3) assms(4,6) by auto
    from draw_point1_get[OF Cons.prems(1) b] obtain r' where
      "Paint_DrawPoint x Y c 1 DOT_FILL_AROUND r = Some r'" "wf_paint r'" "settings r' = settings p"
      using Cons.prems(2) by auto
    with Cons.IH[of r'] Cons.prems(3) draw_point1[OF Cons.prems(1) b(1,2), of c] show ?case by simp
  qed simp
  from this[OF assms(1) refl, of ?xs] have e: "Paint_DrawLine fuel X0 Y X1 Y c 1 LINE_STYLE_SOLID p =
      for_each (\<lambda>q. Paint_SetPixel (fst q) (snd q) c) ?qs p"
    using hline_draw[OF assms(2-5) _ assms(7)] wf_width[OF assms(1)] set_run_x[of X0 X1] assms(2,3)
    by (auto simp: for_each_concat_map)
  have q: "q \<in> set ?qs \<longleftrightarrow> snd q + 1 = Y \<and> min X0 X1 \<le> fst q + 1 \<and> fst q + 1 \<le> max X0 X1" for q
  proof -
    have "q \<in> set ?qs \<longleftrightarrow> (\<exists>x \<in> {min X0 X1..max X0 X1}. q \<in> set (dot1 x Y))"
      by (simp only: set_concat set_map set_run_x UN_iff image_iff bex_simps)
    also have "\<dots> \<longleftrightarrow> snd q + 1 = Y \<and> min X0 X1 \<le> fst q + 1 \<and> fst q + 1 \<le> max X0 X1"
      by (auto simp: dot1_def prod_eq_iff intro!: bexI[of _ "fst q + 1"] split: if_splits)
    finally show ?thesis .
  qed
  have "\<forall>q \<in> set ?qs. inside p q" using assms(2-4) unfolding Ball_def q by (auto simp: inside_def)
  from paint_points[OF assms(1) this assms(6)] show ?thesis unfolding e q .
qed

theorem draw_line_horizontal_witness:
  "\<exists>p'. Paint_DrawLine 5 3 4 0 4 WHITE 1 LINE_STYLE_SOLID demo_paint = Some p' \<and> wf_paint p' \<and> settings p' = settings demo_paint \<and>
    (\<forall>q. inside demo_paint q \<longrightarrow> get_pixel p' q =
       (if snd q + 1 = 4 \<and> min 3 0 \<le> fst q + 1 \<and> fst q + 1 \<le> max 3 0 then shade demo_paint WHITE else get_pixel demo_paint q))"
  by (rule draw_line_horizontal) (simp_all add: demo_paint_wf color_ok_def)

text \<open>
  The line loop may leave before its last point is drawn: whatever the image, the line from
  \<open>(X, Y)\<close> to \<open>(X + 2, Y + 1)\<close> paints its first two points and never its end point.
\<close>

theorem draw_line_misses_end:
  assumes "wf_paint p" and "1 \<le> X" "1 \<le> Y" "X + 2 \<le> Width p" "Y + 1 \<le> Height p" and "color_ok p c"
  shows "\<exists>p'. Paint_DrawLine 2 X Y (X + 2) (Y + 1) c 1 LINE_STYLE_SOLID p = Some p' \<and>
    (\<forall>q. inside p q \<longrightarrow> get_pixel p' q = (if q \<in> {(X - 1, Y - 1), (X, Y)} then shade p c else get_pixel p q))"
proof -
  let ?put = "\<lambda>q. Paint_SetPixel (fst q) (snd q) c"
  have "\<forall>q \<in> set [(X - 1, Y - 1), (X, Y)]. inside p q" using assms by (auto simp: inside_def)
  from paint_points[OF assms(1) this assms(6)] obtain p' where
    p': "for_each ?put [(X - 1, Y - 1), (X, Y)] p = Some p'"
    "\<forall>q. inside p q \<longrightarrow> get_pixel p' q = (if q \<in> set [(X - 1, Y - 1), (X, Y)] then shade p c else get_pixel p q)" by blast
  have "\<exists>p1. Paint_DrawPoint X Y c 1 DOT_FILL_AROUND p = Some p1 \<and> wf_paint p1 \<and> settings p1 = settings p"
    using draw_point1_get[of p X Y c] assms by auto
  then obtain p1 where p1: "Paint_DrawPoint X Y c 1 DOT_FILL_AROUND p = Some p1" "wf_paint p1" "settings p1 = settings p" by blast
  have "Paint_SetPixel (X - 1) (Y - 1) c p = Some p1"
    using draw_point1[of p X Y c] assms p1(1) by (simp add: dot1_def)
  moreover have "Paint_DrawPoint (X + 1) (Y + 1) c 1 DOT_FILL_AROUND p1 = Paint_SetPixel X Y c p1"
    using draw_point1[OF p1(2), of "X + 1" "Y + 1" c] settings_eq[OF p1(3)] assms by (simp add: dot1_def)
  ultimately have p2: "Paint_DrawPoint (X + 1) (Y + 1) c 1 DOT_FILL_AROUND p1 = Some p'" using p'(1) by simp
  have u: "to_u16 (int X + 1) = X + 1" "to_u16 (int Y + 1) = Y + 1" "to_u16 (int X + 2) = X + 2"
    using wf_width[OF assms(1)] assms by (auto simp: to_u16_id)
  have "Paint_DrawLine 2 X Y (X + 2) (Y + 1) c 1 LINE_STYLE_SOLID p = Some p'"
    using assms p1(1) p2 u
    by (simp add: Paint_DrawLine_def numeral_2_eq_2 line_plot_def line_move_def line_move_y_def Let_def)
  then show ?thesis using p'(2) by simp
qed

theorem draw_line_misses_end_witness:
  "\<exists>p'. Paint_DrawLine 2 1 1 (1 + 2) (1 + 1) WHITE 1 LINE_STYLE_SOLID demo_paint = Some p' \<and>
    (\<forall>q. inside demo_paint q \<longrightarrow> get_pixel p' q = (if q \<in> {(1 - 1, 1 - 1), (1, 1)} then shade demo_paint WHITE else get_pixel demo_paint q))"
  by (rule draw_line_misses_end) (simp_all add: demo_paint_wf color_ok_def)


section \<open>Properties of characters and numbers\<close>

text \<open>The writes a glyph causes: the cell of one bit, a row, and all rows.\<close>

definition glyph_bit :: "bytes \<Rightarrow> nat \<Rightarrow> nat \<Rightarrow> bool" where
  "glyph_bit tab ptr i \<longleftrightarrow> tab ! (ptr + i div 8) AND drop_bit (i mod 8) 0x80 \<noteq> 0"

definition glyph_cell :: "bytes \<Rightarrow> u16 \<Rightarrow> u16 \<Rightarrow> nat \<Rightarrow> nat \<Rightarrow> nat \<Rightarrow> nat \<Rightarrow> ((nat \<times> nat) \<times> u16) list" where
  "glyph_cell tab fg bg x y ptr i =
     (if glyph_bit tab ptr i then [((x + i, y), fg)]
      else if FONT_BACKGROUND = bg then [] else [((x + i, y), bg)])"

definition glyph_writes ::
  "bytes \<Rightarrow> nat \<Rightarrow> nat \<Rightarrow> nat \<Rightarrow> u16 \<Rightarrow> u16 \<Rightarrow> nat \<Rightarrow> nat \<Rightarrow> ((nat \<times> nat) \<times> u16) list" where
  "glyph_writes tab off w h fg bg x y =
     concat (map (\<lambda>j. concat (map (glyph_cell tab fg bg x (y + j) (off + j * per_byte w 8)) [0..<w])) [0..<h])"

abbreviation put_px :: "(nat \<times> nat) \<times> u16 \<Rightarrow> PAINT \<Rightarrow> PAINT option" where
  "put_px \<equiv> \<lambda>(q, v). Paint_SetPixel (fst q) (snd q) v"

lemma glyph_row_writes:
  assumes "x + n \<le> 65536" and "y < 65536" and "n = 0 \<or> ptr + (n - 1) div 8 < length tab"
  shows "for_each (glyph_pixel tab fg bg (int x) (int y)) [0..<n] (ptr, p) =
    map_option (Pair (ptr + n div 8)) (for_each put_px (concat (map (glyph_cell tab fg bg x y ptr) [0..<n])) p)"
  using assms(1,3)
proof (induction n)
  case (Suc n)
  have b: "ptr + n div 8 < length tab" using Suc.prems(2) by simp
  moreover have "n = 0 \<or> ptr + (n - 1) div 8 < length tab"
    using b div_le_mono[of "n - 1" n 8] by linarith
  ultimately have IH: "for_each (glyph_pixel tab fg bg (int x) (int y)) [0..<n] (ptr, p) =
      map_option (Pair (ptr + n div 8)) (for_each put_px (concat (map (glyph_cell tab fg bg x y ptr) [0..<n])) p)"
    using Suc by simp
  have u: "to_u16 (int x + int n) = x + n" "to_u16 (int y) = y"
    using Suc.prems(1) assms(2) by (auto simp: to_u16_id)
  have "glyph_pixel tab fg bg (int x) (int y) n (ptr + n div 8, r) =
      map_option (Pair (ptr + Suc n div 8)) (for_each put_px (glyph_cell tab fg bg x y ptr n) r)" for r
  proof -
    have "(if n mod 8 = 7 then Suc (n div 8) else n div 8) = Suc n div 8" by (simp add: div_Suc mod_Suc)
    then have "(if n mod 8 = 7 then ptr + n div 8 + 1 else ptr + n div 8) = ptr + Suc n div 8" by presburger
    then show ?thesis
      using b u by (cases "Paint_SetPixel (x + n) y fg r"; cases "Paint_SetPixel (x + n) y bg r")
        (simp_all add: glyph_pixel_def load_def glyph_cell_def glyph_bit_def)
  qed
  then show ?case
    by (cases "for_each put_px (concat (map (glyph_cell tab fg bg x y ptr) [0..<n])) p")
      (simp_all add: for_each_append IH)
qed simp

lemma glyph_rows_writes:
  assumes "x + w \<le> 65536" and "y + n \<le> 65536" and "off + n * per_byte w 8 \<le> length tab" and "0 < w"
  shows "for_each (glyph_row tab w fg bg (int x) (int y)) [0..<n] (off, p) =
    map_option (Pair (off + n * per_byte w 8)) (for_each put_px (glyph_writes tab off w n fg bg x y) p)"
  using assms(2,3)
proof (induction n)
  case (Suc n)
  let ?ptr = "off + n * per_byte w 8"
  have "(w - 1) div 8 < per_byte w 8" using assms(4) by (intro per_byte_div) auto
  then have b: "?ptr + (w - 1) div 8 < length tab" using Suc.prems(2) by simp
  have e: "?ptr + w div 8 + (if w mod 8 \<noteq> 0 then 1 else 0) = off + Suc n * per_byte w 8" by (simp add: per_byte_def)
  have "glyph_row tab w fg bg (int x) (int y) n (?ptr, r) = map_option (Pair (off + Suc n * per_byte w 8))
      (for_each put_px (concat (map (glyph_cell tab fg bg x (y + n) ?ptr) [0..<w])) r)" for r
    using glyph_row_writes[OF assms(1), of "y + n" ?ptr tab fg bg r] b Suc.prems(1) e
    by (cases "for_each put_px (concat (map (glyph_cell tab fg bg x (y + n) ?ptr) [0..<w])) r")
      (auto simp: glyph_row_def)
  then show ?case
    using Suc by (cases "for_each put_px (glyph_writes tab off w n fg bg x y) p")
      (simp_all add: for_each_append glyph_writes_def)
qed (simp add: glyph_writes_def)

lemma map_of_functional:
  assumes "\<And>q v v'. (q, v) \<in> set ws \<Longrightarrow> (q, v') \<in> set ws \<Longrightarrow> v = v'"
  shows "map_of ws q = Some v \<longleftrightarrow> (q, v) \<in> set ws"
  using assms by (metis map_of_SomeD weak_map_of_SomeI)

definition glyph_color ::
  "bytes \<Rightarrow> nat \<Rightarrow> nat \<Rightarrow> nat \<Rightarrow> u16 \<Rightarrow> u16 \<Rightarrow> nat \<Rightarrow> nat \<Rightarrow> nat \<times> nat \<Rightarrow> u16 option" where
  "glyph_color tab off w h fg bg x y q =
     (if x \<le> fst q \<and> fst q < x + w \<and> y \<le> snd q \<and> snd q < y + h then
        if glyph_bit tab (off + (snd q - y) * per_byte w 8) (fst q - x) then Some fg
        else if bg = FONT_BACKGROUND then None else Some bg
      else None)"

lemma glyph_cell_color:
  assumes "i < w" and "j < h"
  shows "set (glyph_cell tab fg bg x (y + j) (off + j * per_byte w 8) i) =
    {(q, v). q = (x + i, y + j) \<and> glyph_color tab off w h fg bg x y q = Some v}"
  using assms by (auto simp: glyph_cell_def glyph_color_def)

lemma set_glyph_writes:
  "set (glyph_writes tab off w h fg bg x y) = {(q, v). glyph_color tab off w h fg bg x y q = Some v}"
proof -
  have "set (glyph_writes tab off w h fg bg x y) =
      (\<Union>j \<in> {0..<h}. \<Union>i \<in> {0..<w}. {(q, v). q = (x + i, y + j) \<and> glyph_color tab off w h fg bg x y q = Some v})"
    by (simp add: glyph_writes_def glyph_cell_color)
  also have "\<dots> = {(q, v). glyph_color tab off w h fg bg x y q = Some v}"
  proof (intro set_eqI iffI)
    fix e
    assume "e \<in> {(q, v). glyph_color tab off w h fg bg x y q = Some v}"
    then obtain q v where e: "e = (q, v)" "glyph_color tab off w h fg bg x y q = Some v" by blast
    then have "fst q - x < w" "snd q - y < h" "q = (x + (fst q - x), y + (snd q - y))"
      by (auto simp: glyph_color_def prod_eq_iff split: if_splits)
    with e show "e \<in> (\<Union>j \<in> {0..<h}. \<Union>i \<in> {0..<w}.
        {(q, v). q = (x + i, y + j) \<and> glyph_color tab off w h fg bg x y q = Some v})"
      by (intro UN_I[of "snd q - y"] UN_I[of "fst q - x"]) auto
  qed auto
  finally show ?thesis .
qed

lemma draw_glyph_get:
  assumes "wf_paint p" and "0 < w" and "x + w \<le> Width p" and "y + h \<le> Height p"
    and "off + h * per_byte w 8 \<le> length tab" and "color_ok p fg" and "color_ok p bg"
  shows "\<exists>p'. draw_glyph tab off w h fg bg (int x) (int y) p = Some p' \<and> wf_paint p' \<and> settings p' = settings p \<and>
    (\<forall>q. inside p q \<longrightarrow> get_pixel p' q =
       (if x \<le> fst q \<and> fst q < x + w \<and> y \<le> snd q \<and> snd q < y + h then
          if glyph_bit tab (off + (snd q - y) * per_byte w 8) (fst q - x) then shade p fg
          else if bg = FONT_BACKGROUND then get_pixel p q else shade p bg
        else get_pixel p q))"
proof -
  let ?ws = "glyph_writes tab off w h fg bg x y"
  have s: "\<forall>(q, v) \<in> set ?ws. inside (settings p) q \<and> color_ok (settings p) v"
    using assms(3,4,6,7) by (auto simp: set_glyph_writes glyph_color_def inside_def split: if_splits)
  have "map_of (rev ?ws) q = Some v \<longleftrightarrow> glyph_color tab off w h fg bg x y q = Some v" for q v
    by (subst map_of_functional) (auto simp: set_glyph_writes)
  then have m: "map_of (rev ?ws) = glyph_color tab off w h fg bg x y"
    by (metis ext not_Some_eq)
  have v: "(case map_of (rev ?ws) q of None \<Rightarrow> get_pixel p q | Some v \<Rightarrow> shade p v) =
      (if x \<le> fst q \<and> fst q < x + w \<and> y \<le> snd q \<and> snd q < y + h then
          if glyph_bit tab (off + (snd q - y) * per_byte w 8) (fst q - x) then shade p fg
          else if bg = FONT_BACKGROUND then get_pixel p q else shade p bg
        else get_pixel p q)" for q
    by (simp add: m glyph_color_def)
  have "draw_glyph tab off w h fg bg (int x) (int y) p = for_each put_px ?ws p"
    using glyph_rows_writes[of x w y h off tab fg bg p] assms wf_width[OF assms(1)]
    by (cases "for_each put_px ?ws p") (auto simp: draw_glyph_def)
  with pix.put_all[OF assms(1) s] show ?thesis unfolding settings_simps v by simp
qed

text \<open>
  C37. Drawing a character whose cell fits the drawing area shows exactly the glyph stored in the font
  table: a set bit of row \<open>j\<close>, column \<open>i\<close> gives pixel \<open>(x + i, y + j)\<close> the foreground colour, a clear
  bit the background colour unless that is the colour of an empty image; nothing else changes.
\<close>

theorem draw_char_glyph:
  assumes "wf_paint p" and "0 < fWidth f" and "x + fWidth f \<le> Width p" and "y + fHeight f \<le> Height p"
    and "32 \<le> ch" and "Char_Offset f ch + fHeight f * per_byte (fWidth f) 8 \<le> length (table f)"
    and "color_ok p fg" and "color_ok p bg"
  shows "\<exists>p'. Paint_DrawChar x y ch f fg bg p = Some p' \<and> wf_paint p' \<and> settings p' = settings p \<and>
    (\<forall>q. inside p q \<longrightarrow> get_pixel p' q =
       (if x \<le> fst q \<and> fst q < x + fWidth f \<and> y \<le> snd q \<and> snd q < y + fHeight f then
          if glyph_bit (table f) (Char_Offset f ch + (snd q - y) * per_byte (fWidth f) 8) (fst q - x) then shade p fg
          else if bg = FONT_BACKGROUND then get_pixel p q else shade p bg
        else get_pixel p q))"
  using draw_glyph_get[OF assms(1-4,6-8)] assms(3,4) by (simp add: Paint_DrawChar_def)

definition demo_font :: sFONT where
  "demo_font = \<lparr>table = [0, 0, 0xE0, 0x40], fWidth = 3, fHeight = 2\<rparr>"

theorem draw_char_glyph_witness:
  "\<exists>p'. Paint_DrawChar 0 5 33 demo_font WHITE BLACK demo_paint = Some p' \<and> wf_paint p' \<and> settings p' = settings demo_paint \<and>
    (\<forall>q. inside demo_paint q \<longrightarrow> get_pixel p' q =
       (if 0 \<le> fst q \<and> fst q < 0 + fWidth demo_font \<and> 5 \<le> snd q \<and> snd q < 5 + fHeight demo_font then
          if glyph_bit (table demo_font) (Char_Offset demo_font 33 + (snd q - 5) * per_byte (fWidth demo_font) 8) (fst q - 0)
          then shade demo_paint WHITE
          else if BLACK = FONT_BACKGROUND then get_pixel demo_paint q else shade demo_paint BLACK
        else get_pixel demo_paint q))"
  by (rule draw_char_glyph)
    (simp_all add: demo_paint_wf demo_font_def color_ok_def Char_Offset_def per_byte_def to_u32_def)

text \<open>Decimal numbers.\<close>

definition num_value :: "bytes \<Rightarrow> int" where
  "num_value s = foldl (\<lambda>a d. 10 * a + (int (unat d) - 48)) 0 s"

lemma num_value_snoc: "num_value (s @ [d]) = 10 * num_value s + (int (unat d) - 48)"
  by (simp add: num_value_def)

lemma digit_byte: "0 \<le> r \<Longrightarrow> r < 10 \<Longrightarrow> unat (of_int (r + 48) :: u8) = nat r + 48"
  by (simp add: unat_eq_nat_uint take_bit_int_eq_self_iff uint_word_of_int nat_add_distrib
    flip: of_int_add)

lemma num_array_nonneg:
  assumes "0 \<le> n"
  shows "num_array n = of_int (n mod 10 + 48) # (if n div 10 \<noteq> 0 then num_array (n div 10) else [])"
  using assms by (subst num_array.simps) (simp add: cdiv_nonneg cmod_nonneg)

lemma num_array_value:
  assumes "0 \<le> n"
  shows "num_value (rev (num_array n)) = n \<and> (\<forall>d \<in> set (num_array n). 48 \<le> unat d \<and> unat d < 58) \<and>
    num_array n \<noteq> [] \<and> (last (num_array n) = 48 \<longrightarrow> n = 0)"
  using assms
proof (induction n rule: num_array.induct)
  case (1 n)
  note e = num_array_nonneg[OF 1(2)]
  have u: "unat (of_int (n mod 10 + 48) :: u8) = nat (n mod 10) + 48" by (rule digit_byte) auto
  show ?case
  proof (cases "n div 10 = 0")
    case True
    then have m: "n mod 10 = n" using 1(2) by auto
    then have "n = 0" if "(of_int (n mod 10 + 48) :: u8) = 48" using u that 1(2) by simp
    moreover have "n < 10" using m by (metis pos_mod_bound zero_less_numeral)
    moreover define b :: u8 where "b = of_int (n mod 10 + 48)"
    moreover have "num_array n = [b]" using e True by (simp add: b_def)
    moreover have "uint b = n + 48" using u 1(2) m unfolding uint_nat b_def by simp
    ultimately show ?thesis using u 1(2) m by (simp add: num_value_def nat_less_iff)
  next
    case False
    moreover have "cdiv n 10 = n div 10" using 1(2) by (simp add: cdiv_nonneg)
    ultimately have IH: "num_value (rev (num_array (n div 10))) = n div 10 \<and>
        (\<forall>d \<in> set (num_array (n div 10)). 48 \<le> unat d \<and> unat d < 58) \<and>
        num_array (n div 10) \<noteq> [] \<and> (last (num_array (n div 10)) = 48 \<longrightarrow> n div 10 = 0)"
      using 1 by simp
    have "num_array n = of_int (n mod 10 + 48) # num_array (n div 10)" using e False by simp
    then show ?thesis using False IH 1(2) u by (simp add: num_value_snoc)
  qed
qed

lemma num_array_length:
  assumes "0 \<le> n" and "n < 10 ^ Suc k"
  shows "length (num_array n) \<le> Suc k"
  using assms
proof (induction k arbitrary: n)
  case 0
  then show ?case by (simp add: num_array_nonneg)
next
  case (Suc k)
  then have "n div 10 < 10 ^ Suc k" by auto
  with Suc.IH[of "n div 10"] Suc.prems show ?case by (simp add: num_array_nonneg[of n])
qed

text \<open>
  A non-negative number is drawn as its decimal digits: the characters are digits, have no
  leading zero, evaluate to the number, are at most ten and so never leave the local arrays; they are
  handed to the string routine with the two colours exchanged.
\<close>

theorem draw_num_decimal:
  assumes "0 \<le> n" and "n < 2 ^ 31"
  shows "\<exists>s. s \<noteq> [] \<and> length s \<le> 10 \<and> (\<forall>d \<in> set s. 48 \<le> unat d \<and> unat d < 58) \<and> num_value s = n \<and>
    (hd s = 48 \<longrightarrow> n = 0) \<and>
    Paint_DrawNum x y n f fg bg p =
      (if x > Width p \<or> y > Height p then Some p
       else Paint_DrawString_EN x y (s @ replicate (255 - length s) 0) f bg fg p)"
proof -
  let ?s = "rev (num_array n)"
  note v = num_array_value[OF assms(1)]
  have l: "length (num_array n) \<le> 10" using num_array_length[of n 9] assms by simp
  then have "memcpy (replicate ARRAY_LEN 0) 0 ?s 0 (length (num_array n)) = Some (?s @ replicate (255 - length ?s) 0)"
    by (simp add: memcpy_def ARRAY_LEN_def)
  then show ?thesis
    using v l by (intro exI[of _ ?s]) (simp add: Paint_DrawNum_def hd_rev)
qed

theorem draw_num_decimal_witness:
  "\<exists>s. s \<noteq> [] \<and> length s \<le> 10 \<and> (\<forall>d \<in> set s. 48 \<le> unat d \<and> unat d < 58) \<and> num_value s = 2026 \<and>
    (hd s = 48 \<longrightarrow> (2026 :: int) = 0) \<and>
    Paint_DrawNum 1 1 2026 demo_font BLACK WHITE demo_paint =
      (if 1 > Width demo_paint \<or> 1 > Height demo_paint then Some demo_paint
       else Paint_DrawString_EN 1 1 (s @ replicate (255 - length s) 0) demo_font WHITE BLACK demo_paint)"
  by (rule draw_num_decimal) simp_all

end
