(* ===== verification/Epd.thy ===== *)
theory Epd
  imports Prelude
begin

text \<open>
  The driver of the e-paper panel, \<^verbatim>\<open>src/components/epaper/driver/EPD_2in7_V2.c\<close>, on the pin and
  SPI functions of \<^verbatim>\<open>src/components/epaper/config/DEV_Config.c\<close>. What the driver does is the
  sequence of its accesses to the hardware: pin levels, bytes on the SPI bus and delays. What it
  reads, the level of the busy pin, comes from a list of the levels the next readings return; a
  wait that outlasts this list is \<open>None\<close>, like a failed assertion or a read outside the image.

  A decoder of the access sequence, the receiving end of the protocol, says what commands with what
  data the panel gets; all statements about the driver are in terms of these commands.
\<close>

section \<open>Pins and bus\<close>

datatype epd_pin = EPD_RST_PIN | EPD_DC_PIN | EPD_CS_PIN

datatype epd_event = Pin epd_pin bool | Spi u8 | Delay nat

record epd =
  events :: "epd_event list"
  busy :: "bool list"
  spi_epaper :: bool

type_synonym action = "epd \<Rightarrow> epd option"

definition emit :: "epd_event \<Rightarrow> action" where
  "emit e s = Some (s\<lparr>events := events s @ [e]\<rparr>)"

definition DEV_Digital_Write :: "epd_pin \<Rightarrow> bool \<Rightarrow> action" where
  "DEV_Digital_Write pin level = emit (Pin pin level)"

definition DEV_Delay_ms :: "nat \<Rightarrow> action" where
  "DEV_Delay_ms xms = emit (Delay xms)"

definition DEV_SPI_WriteByte :: "u8 \<Rightarrow> action" where
  "DEV_SPI_WriteByte value s = (if spi_epaper s then emit (Spi value) s else None)"

text \<open>A sequence of calls.\<close>

definition run_all :: "action list \<Rightarrow> action" where
  "run_all = for_each (\<lambda>a. a)"

definition DEV_Module_Init :: action where
  "DEV_Module_Init = run_all
     [DEV_Digital_Write EPD_DC_PIN False, DEV_Digital_Write EPD_CS_PIN False,
      DEV_Digital_Write EPD_RST_PIN True]"

definition DEV_Module_Exit :: action where
  "DEV_Module_Exit = run_all
     [DEV_Digital_Write EPD_DC_PIN False, DEV_Digital_Write EPD_CS_PIN False,
      DEV_Digital_Write EPD_RST_PIN False]"

section \<open>Commands\<close>

definition EPD_2IN7_V2_WIDTH :: nat where "EPD_2IN7_V2_WIDTH = 176"
definition EPD_2IN7_V2_HEIGHT :: nat where "EPD_2IN7_V2_HEIGHT = 264"

definition LUT_DATA_4Gray :: bytes where
  "LUT_DATA_4Gray =
    [0x40, 0x48, 0x80, 0, 0, 0, 0, 0, 0, 0, 0, 0, 0x08, 0x48, 0x10, 0, 0, 0, 0, 0, 0, 0, 0, 0,
     0x02, 0x48, 0x04, 0, 0, 0, 0, 0, 0, 0, 0, 0, 0x20, 0x48, 0x01, 0, 0, 0, 0, 0, 0, 0, 0, 0, 0,
     0, 0, 0, 0, 0, 0, 0, 0, 0, 0, 0, 0x0A, 0x19, 0, 0x03, 0x08, 0, 0, 0x14, 0x01, 0, 0x14, 0x01,
     0, 0x03, 0x0A, 0x03, 0, 0x08, 0x19, 0, 0, 0x01, 0, 0, 0, 0, 0, 0x01, 0, 0, 0, 0, 0, 0, 0, 0,
     0, 0, 0, 0, 0, 0, 0, 0, 0, 0, 0, 0, 0, 0, 0, 0, 0, 0, 0, 0, 0, 0, 0, 0, 0, 0, 0, 0, 0, 0, 0,
     0, 0, 0, 0, 0, 0, 0, 0, 0, 0, 0, 0, 0, 0, 0, 0, 0, 0x22, 0x22, 0x22, 0x22, 0x22, 0x22, 0, 0,
     0, 0x22, 0x17, 0x41, 0, 0x32, 0x1C]"

definition EPD_2IN7_V2_Reset :: action where
  "EPD_2IN7_V2_Reset = run_all
     [DEV_Digital_Write EPD_RST_PIN True, DEV_Delay_ms 20, DEV_Digital_Write EPD_RST_PIN False,
      DEV_Delay_ms 2, DEV_Digital_Write EPD_RST_PIN True, DEV_Delay_ms 20]"

definition EPD_2IN7_V2_SendCommand :: "u8 \<Rightarrow> action" where
  "EPD_2IN7_V2_SendCommand Reg = run_all
     [DEV_Digital_Write EPD_DC_PIN False, DEV_Digital_Write EPD_CS_PIN False,
      DEV_SPI_WriteByte Reg, DEV_Digital_Write EPD_CS_PIN True]"

definition EPD_2IN7_V2_SendData :: "u8 \<Rightarrow> action" where
  "EPD_2IN7_V2_SendData Data = run_all
     [DEV_Digital_Write EPD_DC_PIN True, DEV_Digital_Write EPD_CS_PIN False,
      DEV_SPI_WriteByte Data, DEV_Digital_Write EPD_CS_PIN True]"

text \<open>The polling loop, by recursion over the coming levels of the busy pin.\<close>

fun read_busy :: "bool list \<Rightarrow> action" where
  "read_busy [] s = None"
| "read_busy (level # levels) s =
     (if \<not> level then DEV_Delay_ms 20 (s\<lparr>busy := levels\<rparr>)
      else Option.bind (DEV_Delay_ms 10 s) (read_busy levels))"

definition EPD_2IN7_V2_ReadBusy :: action where
  "EPD_2IN7_V2_ReadBusy s = read_busy (busy s) s"

definition EPD_2IN7_V2_TurnOnDisplay :: action where
  "EPD_2IN7_V2_TurnOnDisplay = run_all
     [EPD_2IN7_V2_SendCommand 0x22, EPD_2IN7_V2_SendData 0xF7, EPD_2IN7_V2_SendCommand 0x20,
      EPD_2IN7_V2_ReadBusy]"

definition EPD_2IN7_V2_TurnOnDisplay_Fast :: action where
  "EPD_2IN7_V2_TurnOnDisplay_Fast = run_all
     [EPD_2IN7_V2_SendCommand 0x22, EPD_2IN7_V2_SendData 0xC7, EPD_2IN7_V2_SendCommand 0x20,
      EPD_2IN7_V2_ReadBusy]"

definition EPD_2IN7_V2_TurnOnDisplay_Partial :: action where
  "EPD_2IN7_V2_TurnOnDisplay_Partial = run_all
     [EPD_2IN7_V2_SendCommand 0x22, EPD_2IN7_V2_SendData 0xFF, EPD_2IN7_V2_SendCommand 0x20,
      EPD_2IN7_V2_ReadBusy]"

definition EPD_2IN7_V2_TurnOnDisplay_4GRAY :: action where
  "EPD_2IN7_V2_TurnOnDisplay_4GRAY = run_all
     [EPD_2IN7_V2_SendCommand 0x22, EPD_2IN7_V2_SendData 0xC7, EPD_2IN7_V2_SendCommand 0x20,
      EPD_2IN7_V2_ReadBusy]"

definition EPD_2IN7_V2_Lut :: action where
  "EPD_2IN7_V2_Lut s = do {
     s \<leftarrow> EPD_2IN7_V2_SendCommand 0x32 s;
     for_each (\<lambda>count s. do { b \<leftarrow> load LUT_DATA_4Gray count; EPD_2IN7_V2_SendData b s }) [0..<153] s }"

definition EPD_2IN7_V2_Init :: action where
  "EPD_2IN7_V2_Init = run_all
     [EPD_2IN7_V2_Reset, EPD_2IN7_V2_ReadBusy, EPD_2IN7_V2_SendCommand 0x12,
      EPD_2IN7_V2_ReadBusy, EPD_2IN7_V2_SendCommand 0x45, EPD_2IN7_V2_SendData 0x00,
      EPD_2IN7_V2_SendData 0x00, EPD_2IN7_V2_SendData 0xB0, EPD_2IN7_V2_SendData 0x00,
      EPD_2IN7_V2_SendCommand 0x44, EPD_2IN7_V2_SendData 0x00, EPD_2IN7_V2_SendData 0x20,
      EPD_2IN7_V2_SendCommand 0x4F, EPD_2IN7_V2_SendData 0x00, EPD_2IN7_V2_SendData 0x00,
      EPD_2IN7_V2_SendCommand 0x11, EPD_2IN7_V2_SendData 0x03, EPD_2IN7_V2_ReadBusy]"

definition EPD_2IN7_V2_Init_Fast :: action where
  "EPD_2IN7_V2_Init_Fast = run_all
     [EPD_2IN7_V2_Reset, EPD_2IN7_V2_ReadBusy, EPD_2IN7_V2_SendCommand 0x12,
      EPD_2IN7_V2_ReadBusy, EPD_2IN7_V2_SendCommand 0x18, EPD_2IN7_V2_SendData 0x80,
      EPD_2IN7_V2_SendCommand 0x22, EPD_2IN7_V2_SendData 0xB1, EPD_2IN7_V2_SendCommand 0x20,
      EPD_2IN7_V2_ReadBusy, EPD_2IN7_V2_SendCommand 0x1A, EPD_2IN7_V2_SendData 0x64,
      EPD_2IN7_V2_SendData 0x00, EPD_2IN7_V2_SendCommand 0x45, EPD_2IN7_V2_SendData 0x00,
      EPD_2IN7_V2_SendData 0x00, EPD_2IN7_V2_SendData 0x07, EPD_2IN7_V2_SendData 0x01,
      EPD_2IN7_V2_SendCommand 0x4F, EPD_2IN7_V2_SendData 0x00, EPD_2IN7_V2_SendData 0x00,
      EPD_2IN7_V2_SendCommand 0x11, EPD_2IN7_V2_SendData 0x03, EPD_2IN7_V2_SendCommand 0x22,
      EPD_2IN7_V2_SendData 0x91, EPD_2IN7_V2_SendCommand 0x20, EPD_2IN7_V2_ReadBusy]"

definition EPD_2IN7_V2_Init_4GRAY :: action where
  "EPD_2IN7_V2_Init_4GRAY = run_all
     [EPD_2IN7_V2_Reset, EPD_2IN7_V2_ReadBusy, EPD_2IN7_V2_SendCommand 0x12,
      EPD_2IN7_V2_ReadBusy, EPD_2IN7_V2_SendCommand 0x74, EPD_2IN7_V2_SendData 0x54,
      EPD_2IN7_V2_SendCommand 0x7E, EPD_2IN7_V2_SendData 0x3B, EPD_2IN7_V2_SendCommand 0x01,
      EPD_2IN7_V2_SendData 0x07, EPD_2IN7_V2_SendData 0x01, EPD_2IN7_V2_SendData 0x00,
      EPD_2IN7_V2_SendCommand 0x11, EPD_2IN7_V2_SendData 0x03, EPD_2IN7_V2_SendCommand 0x44,
      EPD_2IN7_V2_SendData 0x00, EPD_2IN7_V2_SendData 0x15, EPD_2IN7_V2_SendCommand 0x45,
      EPD_2IN7_V2_SendData 0x00, EPD_2IN7_V2_SendData 0x00, EPD_2IN7_V2_SendData 0x07,
      EPD_2IN7_V2_SendData 0x01, EPD_2IN7_V2_SendCommand 0x3C, EPD_2IN7_V2_SendData 0x00,
      EPD_2IN7_V2_SendCommand 0x2C, EPD_2IN7_V2_SendData (LUT_DATA_4Gray ! 158),
      EPD_2IN7_V2_SendCommand 0x3F, EPD_2IN7_V2_SendData (LUT_DATA_4Gray ! 153),
      EPD_2IN7_V2_SendCommand 0x03, EPD_2IN7_V2_SendData (LUT_DATA_4Gray ! 154),
      EPD_2IN7_V2_SendCommand 0x04, EPD_2IN7_V2_SendData (LUT_DATA_4Gray ! 155),
      EPD_2IN7_V2_SendData (LUT_DATA_4Gray ! 156), EPD_2IN7_V2_SendData (LUT_DATA_4Gray ! 157),
      EPD_2IN7_V2_Lut, EPD_2IN7_V2_SendCommand 0x4E, EPD_2IN7_V2_SendData 0x00,
      EPD_2IN7_V2_SendCommand 0x4F, EPD_2IN7_V2_SendData 0x00, EPD_2IN7_V2_SendData 0x00,
      EPD_2IN7_V2_ReadBusy]"

definition EPD_2IN7_V2_Sleep :: action where
  "EPD_2IN7_V2_Sleep = run_all [EPD_2IN7_V2_SendCommand 0x10, EPD_2IN7_V2_SendData 0x01]"

section \<open>Images\<close>

definition row_bytes :: nat where
  "row_bytes = (if EPD_2IN7_V2_WIDTH mod 8 = 0 then EPD_2IN7_V2_WIDTH div 8 else EPD_2IN7_V2_WIDTH div 8 + 1)"

text \<open>The two nested loops that send one byte per address of the panel.\<close>

definition send_rows :: "(nat \<Rightarrow> u8 option) \<Rightarrow> action" where
  "send_rows byte =
     for_each (\<lambda>j. for_each (\<lambda>i s. do { b \<leftarrow> byte (i + j * row_bytes); EPD_2IN7_V2_SendData b s }) [0..<row_bytes])
       [0..<EPD_2IN7_V2_HEIGHT]"

definition EPD_2IN7_V2_Clear :: action where
  "EPD_2IN7_V2_Clear = run_all
     [EPD_2IN7_V2_SendCommand 0x24, send_rows (\<lambda>_. Some 0xFF), EPD_2IN7_V2_TurnOnDisplay]"

definition EPD_2IN7_V2_Display :: "bytes \<Rightarrow> action" where
  "EPD_2IN7_V2_Display img = run_all
     [EPD_2IN7_V2_SendCommand 0x24, send_rows (load img), EPD_2IN7_V2_TurnOnDisplay]"

definition EPD_2IN7_V2_Display_Fast :: "bytes \<Rightarrow> action" where
  "EPD_2IN7_V2_Display_Fast img = run_all
     [EPD_2IN7_V2_SendCommand 0x24, send_rows (load img), EPD_2IN7_V2_TurnOnDisplay_Fast]"

definition EPD_2IN7_V2_Display_Base :: "bytes \<Rightarrow> action" where
  "EPD_2IN7_V2_Display_Base img = run_all
     [EPD_2IN7_V2_SendCommand 0x24, send_rows (load img),
      EPD_2IN7_V2_SendCommand 0x26, send_rows (load img), EPD_2IN7_V2_TurnOnDisplay]"

definition EPD_2IN7_V2_Display_Base_color :: "u8 \<Rightarrow> action" where
  "EPD_2IN7_V2_Display_Base_color color = run_all
     [EPD_2IN7_V2_SendCommand 0x24, send_rows (\<lambda>_. Some color),
      EPD_2IN7_V2_SendCommand 0x26, send_rows (\<lambda>_. Some color)]"

text \<open>The byte columns of a partial update, both ends reduced to bytes.\<close>

definition partial_columns :: "nat \<Rightarrow> nat \<Rightarrow> nat \<times> nat" where
  "partial_columns Xstart Xend =
     (if Xstart mod 8 + Xend mod 8 = 8 \<and> Xstart mod 8 > Xend mod 8 \<or> Xstart mod 8 + Xend mod 8 = 0 \<or>
         cmod (int Xend - int Xstart) 8 = 0
      then (Xstart div 8, Xend div 8)
      else (Xstart div 8, if Xend mod 8 = 0 then Xend div 8 else Xend div 8 + 1))"

definition lo_byte :: "nat \<Rightarrow> u8" where
  "lo_byte n = of_nat (n AND 0xFF)"

definition hi_bit :: "nat \<Rightarrow> u8" where
  "hi_bit n = of_nat (drop_bit 8 n AND 0x01)"

definition EPD_2IN7_V2_Display_Partial :: "bytes \<Rightarrow> nat \<Rightarrow> nat \<Rightarrow> nat \<Rightarrow> nat \<Rightarrow> action" where
  "EPD_2IN7_V2_Display_Partial img Xstart Ystart Xend Yend =
     (case partial_columns Xstart Xend of (Xstart, Xend) \<Rightarrow>
        let Width = to_u16 (int Xend - int Xstart);
            IMAGE_COUNTER = to_u16 (int Width * (int Yend - int Ystart));
            Xend = to_u16 (int Xend - 1);
            Yend = to_u16 (int Yend - 1)
        in run_all
          [EPD_2IN7_V2_Reset,
           EPD_2IN7_V2_SendCommand 0x3C, EPD_2IN7_V2_SendData 0x80,
           EPD_2IN7_V2_SendCommand 0x44, EPD_2IN7_V2_SendData (lo_byte Xstart), EPD_2IN7_V2_SendData (lo_byte Xend),
           EPD_2IN7_V2_SendCommand 0x45, EPD_2IN7_V2_SendData (lo_byte Ystart), EPD_2IN7_V2_SendData (hi_bit Ystart),
           EPD_2IN7_V2_SendData (lo_byte Yend), EPD_2IN7_V2_SendData (hi_bit Yend),
           EPD_2IN7_V2_SendCommand 0x4E, EPD_2IN7_V2_SendData (lo_byte Xstart),
           EPD_2IN7_V2_SendCommand 0x4F, EPD_2IN7_V2_SendData (lo_byte Ystart), EPD_2IN7_V2_SendData (hi_bit Ystart),
           EPD_2IN7_V2_SendCommand 0x24,
           for_each (\<lambda>i s. do { b \<leftarrow> load img i; EPD_2IN7_V2_SendData b s }) [0..<IMAGE_COUNTER],
           EPD_2IN7_V2_TurnOnDisplay_Partial])"

section \<open>Four grey levels\<close>

text \<open>
  A pixel of two bits gives one bit to each of the two planes; \<open>gray_pixel\<close> is the decision of the
  inner loops, \<open>gray_pair\<close> one round of the innermost loop and \<open>gray_byte\<close> the byte of a plane that
  is packed from two bytes of the image.
\<close>

definition gray_pixel :: "bool \<Rightarrow> u8 \<Rightarrow> u8" where
  "gray_pixel old temp1 =
     (let temp2 = temp1 AND 0xC0 in
      if temp2 = 0xC0 then 0x00
      else if temp2 = 0x00 then 0x01
      else if temp2 = 0x80 then (if old then 0x01 else 0x00)
      else (if old then 0x00 else 0x01))"

definition gray_pair :: "bool \<Rightarrow> bool \<Rightarrow> u8 \<times> u8 \<Rightarrow> u8 \<times> u8" where
  "gray_pair old final st =
     (case st of (temp1, temp3) \<Rightarrow>
        let temp3 = temp3 OR gray_pixel old temp1;
            temp3 = push_bit 1 temp3;
            temp1 = push_bit 2 temp1;
            temp3 = temp3 OR gray_pixel old temp1;
            temp3 = (if final then temp3 else push_bit 1 temp3);
            temp1 = push_bit 2 temp1
        in (temp1, temp3))"

definition gray_byte :: "bool \<Rightarrow> u8 \<Rightarrow> u8 \<Rightarrow> u8" where
  "gray_byte old b0 b1 =
     (let (_, temp3) = gray_pair old False (gray_pair old False (b0, 0));
          (_, temp3) = gray_pair old True (gray_pair old False (b1, temp3))
      in temp3)"

definition send_gray :: "bool \<Rightarrow> bytes \<Rightarrow> action" where
  "send_gray old img =
     for_each (\<lambda>i s. do {
         b0 \<leftarrow> load img (i * 2);
         b1 \<leftarrow> load img (i * 2 + 1);
         EPD_2IN7_V2_SendData (gray_byte old b0 b1) s }) [0..<5808]"

definition EPD_2IN7_V2_4GrayDisplay :: "bytes \<Rightarrow> action" where
  "EPD_2IN7_V2_4GrayDisplay img = run_all
     [EPD_2IN7_V2_SendCommand 0x24, send_gray True img,
      EPD_2IN7_V2_SendCommand 0x26, send_gray False img, EPD_2IN7_V2_TurnOnDisplay_4GRAY]"


section \<open>The receiving end\<close>

text \<open>
  A byte on the bus counts while the chip is selected (level low); it is a command if the data pin is
  low and otherwise belongs to the data of the last command.
\<close>

type_synonym command = "u8 \<times> bytes"

record panel =
  dc :: bool
  selected :: bool
  commands :: "command list"

definition add_data :: "u8 \<Rightarrow> command list \<Rightarrow> command list" where
  "add_data b l = (if l = [] then [] else butlast l @ [(fst (last l), snd (last l) @ [b])])"

fun panel_step :: "epd_event \<Rightarrow> panel \<Rightarrow> panel" where
  "panel_step (Pin EPD_DC_PIN level) p = p\<lparr>dc := level\<rparr>"
| "panel_step (Pin EPD_CS_PIN level) p = p\<lparr>selected := \<not> level\<rparr>"
| "panel_step (Spi b) p =
     (if selected p then p\<lparr>commands := (if dc p then add_data b (commands p) else commands p @ [(b, [])])\<rparr> else p)"
| "panel_step _ p = p"

definition received :: "epd_event list \<Rightarrow> command list" where
  "received es = commands (fold panel_step es \<lparr>dc = False, selected = False, commands = []\<rparr>)"

lemma add_data_append: "l \<noteq> [] \<Longrightarrow> add_data b (k @ l) = k @ add_data b l \<and> add_data b l \<noteq> []"
  by (simp add: add_data_def butlast_append)

lemma add_data_all_append: "l \<noteq> [] \<Longrightarrow> fold add_data es (k @ l) = k @ fold add_data es l"
  by (induction es arbitrary: l) (simp_all add: add_data_append)

lemma add_data_simps [simp]:
  "add_data b [(c, ds)] = [(c, ds @ [b])]"
  "add_data b (x # y # l) = x # add_data b (y # l)"
  "add_data b (k @ x # l) = k @ add_data b (x # l)"
  by (simp_all add: add_data_append) (simp_all add: add_data_def)

lemma add_data_all [simp]:
  "fold add_data es [(c, ds)] = [(c, ds @ es)]"
  "fold add_data es (x # y # l) = x # fold add_data es (y # l)"
  "fold add_data es (k @ x # l) = k @ fold add_data es (x # l)"
proof -
  show "fold add_data es [(c, ds)] = [(c, ds @ es)]" by (induction es arbitrary: ds) simp_all
qed (use add_data_all_append[of "y # l" es "[x]"] in simp, simp add: add_data_all_append)

text \<open>The levels that are left after a number of waits, if each of them comes to an end.\<close>

definition wait_busy :: "bool list \<Rightarrow> bool list option" where
  "wait_busy levels = (case dropWhile (\<lambda>l. l) levels of [] \<Rightarrow> None | _ # rest \<Rightarrow> Some rest)"

fun waits :: "nat \<Rightarrow> bool list \<Rightarrow> bool list option" where
  "waits 0 levels = Some levels"
| "waits (Suc n) levels = Option.bind (wait_busy levels) (waits n)"

lemma waits_add: "waits (n + m) levels = Option.bind (waits n levels) (waits m)"
proof (induction n arbitrary: levels)
  case (Suc n)
  then show ?case by (cases "wait_busy levels") auto
qed simp

lemma read_busy_delays:
  "read_busy levels s =
     map_option (\<lambda>rest. s\<lparr>busy := rest,
       events := events s @ replicate (length (takeWhile (\<lambda>l. l) levels)) (Delay 10) @ [Delay 20]\<rparr>)
     (wait_busy levels)"
  by (induction levels arbitrary: s)
    (auto simp: wait_busy_def DEV_Delay_ms_def emit_def split: list.splits)

lemma received_delays: "set ds \<subseteq> range Delay \<Longrightarrow> fold panel_step ds p = p"
  by (induction ds arbitrary: p) auto

section \<open>What an action sends\<close>

text \<open>
  \<open>drives n a f\<close>: with the bus attached and a panel that lets \<open>n\<close> waits end, the action \<open>a\<close> returns
  and turns the commands received so far by \<open>f\<close>.
\<close>

definition drives :: "nat \<Rightarrow> action \<Rightarrow> (command list \<Rightarrow> command list) \<Rightarrow> bool" where
  "drives n a f \<longleftrightarrow>
     (\<forall>s rest. spi_epaper s \<longrightarrow> waits n (busy s) = Some rest \<longrightarrow>
        (\<exists>s'. a s = Some s' \<and> spi_epaper s' \<and> busy s' = rest \<and> received (events s') = f (received (events s))))"

named_theorems drives_rules \<open>what the actions of the driver send\<close>

lemma drives_weaken: "drives n a f \<Longrightarrow> n = m \<Longrightarrow> (\<And>l. f l = g l) \<Longrightarrow> drives m a g"
  by (auto simp: drives_def)

lemma drives_Nil [drives_rules]: "drives 0 (run_all []) (\<lambda>l. l)"
  by (simp add: drives_def run_all_def)

lemma drives_Cons [drives_rules]:
  assumes "drives n a f" and "drives m (run_all as) g"
  shows "drives (n + m) (run_all (a # as)) (\<lambda>l. g (f l))"
  unfolding drives_def
proof (intro allI impI)
  fix s :: epd and rest
  assume s: "spi_epaper s" "waits (n + m) (busy s) = Some rest"
  then obtain r where r: "waits n (busy s) = Some r" "waits m r = Some rest" by (auto simp: waits_add bind_Some_iff)
  from assms(1) s(1) r(1) obtain t where t: "a s = Some t" "spi_epaper t" "busy t = r"
    "received (events t) = f (received (events s))" by (auto simp: drives_def)
  from assms(2) t(2,3) r(2) obtain u where "run_all as t = Some u" "spi_epaper u" "busy u = rest"
    "received (events u) = g (received (events t))" by (auto simp: drives_def)
  with t show "\<exists>s'. run_all (a # as) s = Some s' \<and> spi_epaper s' \<and> busy s' = rest \<and>
      received (events s') = g (f (received (events s)))" by (simp add: run_all_def)
qed

lemma drives_SendCommand [drives_rules]: "drives 0 (EPD_2IN7_V2_SendCommand c) (\<lambda>l. l @ [(c, [])])"
  by (simp add: drives_def EPD_2IN7_V2_SendCommand_def run_all_def DEV_Digital_Write_def DEV_SPI_WriteByte_def
    emit_def received_def)

lemma drives_SendData [drives_rules]: "drives 0 (EPD_2IN7_V2_SendData b) (add_data b)"
  by (simp add: drives_def EPD_2IN7_V2_SendData_def run_all_def DEV_Digital_Write_def DEV_SPI_WriteByte_def
    emit_def received_def)

lemma drives_Reset [drives_rules]: "drives 0 EPD_2IN7_V2_Reset (\<lambda>l. l)"
  by (simp add: drives_def EPD_2IN7_V2_Reset_def run_all_def DEV_Digital_Write_def DEV_Delay_ms_def emit_def received_def)

lemma drives_ReadBusy [drives_rules]: "drives 1 EPD_2IN7_V2_ReadBusy (\<lambda>l. l)"
proof -
  have "fold panel_step (replicate n (Delay 10) @ [Delay 20]) p = p" for n p
    by (rule received_delays) auto
  then show ?thesis
    by (auto simp: drives_def EPD_2IN7_V2_ReadBusy_def read_busy_delays received_def bind_Some_iff)
qed

lemma drives_bytes:
  assumes "\<And>i. i \<in> set xs \<Longrightarrow> byte i = Some (g i)"
  shows "drives 0 (for_each (\<lambda>i s. Option.bind (byte i) (\<lambda>b. EPD_2IN7_V2_SendData b s)) xs) (fold add_data (map g xs))"
  using assms
proof (induction xs)
  case Nil
  show ?case by (simp add: drives_def)
next
  case (Cons x xs)
  then have "drives 0 (for_each (\<lambda>i s. Option.bind (byte i) (\<lambda>b. EPD_2IN7_V2_SendData b s)) xs) (fold add_data (map g xs))"
    by simp
  with drives_SendData[of "g x"] Cons.prems[of x] show ?case
    unfolding drives_def by (fastforce simp: bind_Some_iff)
qed

lemmas turn_on_defs = EPD_2IN7_V2_TurnOnDisplay_def EPD_2IN7_V2_TurnOnDisplay_Fast_def
  EPD_2IN7_V2_TurnOnDisplay_Partial_def EPD_2IN7_V2_TurnOnDisplay_4GRAY_def

lemma drives_TurnOnDisplay [drives_rules]:
  "drives 1 EPD_2IN7_V2_TurnOnDisplay (\<lambda>l. l @ [(0x22, [0xF7]), (0x20, [])])"
  "drives 1 EPD_2IN7_V2_TurnOnDisplay_Fast (\<lambda>l. l @ [(0x22, [0xC7]), (0x20, [])])"
  "drives 1 EPD_2IN7_V2_TurnOnDisplay_Partial (\<lambda>l. l @ [(0x22, [0xFF]), (0x20, [])])"
  "drives 1 EPD_2IN7_V2_TurnOnDisplay_4GRAY (\<lambda>l. l @ [(0x22, [0xC7]), (0x20, [])])"
  unfolding turn_on_defs by (rule drives_weaken, (rule drives_rules)+, simp, simp)+

lemma panel_size: "row_bytes = 22" "EPD_2IN7_V2_HEIGHT = 264"
  by (simp_all add: row_bytes_def EPD_2IN7_V2_WIDTH_def EPD_2IN7_V2_HEIGHT_def)

lemma send_rows_eq:
  "send_rows byte = for_each (\<lambda>a s. Option.bind (byte a) (\<lambda>b. EPD_2IN7_V2_SendData b s)) [0..<5808]"
proof
  fix s
  have "for_each (\<lambda>a s. Option.bind (byte a) (\<lambda>b. EPD_2IN7_V2_SendData b s))
      (concat (map (\<lambda>j. map (\<lambda>i. i + j * 22) [0..<22]) [0..<264])) s = send_rows byte s"
    by (simp only: for_each_concat_map for_each_map send_rows_def panel_size)
  then show "send_rows byte s = for_each (\<lambda>a s. Option.bind (byte a) (\<lambda>b. EPD_2IN7_V2_SendData b s)) [0..<5808] s"
    by (simp only: rows_upt) simp
qed

lemma drives_send_rows: "(\<And>i. i < 5808 \<Longrightarrow> byte i = Some (g i)) \<Longrightarrow> drives 0 (send_rows byte) (fold add_data (map g [0..<5808]))"
  unfolding send_rows_eq by (rule drives_bytes) simp

section \<open>Properties\<close>

lemma map_nth_upt: "n \<le> length xs \<Longrightarrow> map ((!) xs) [0..<n] = take n xs"
  using map_nth_take[of n xs] by simp

text \<open>
  C16. Showing a full image sends the panel exactly the 5808 bytes of the image in order as the data
  of one write command and then starts the refresh; the variant for later partial updates writes the
  same bytes to both memories. Both return once the panel is no longer busy, and both are undefined
  for a shorter image.
\<close>

theorem display_commands:
  assumes "spi_epaper s" and "waits 1 (busy s) = Some rest" and "5808 \<le> length img" and "length short < 5808"
  shows "(\<exists>s'. EPD_2IN7_V2_Display img s = Some s' \<and> busy s' = rest \<and>
      received (events s') = received (events s) @ [(0x24, take 5808 img), (0x22, [0xF7]), (0x20, [])]) \<and>
    (\<exists>s'. EPD_2IN7_V2_Display_Base img s = Some s' \<and> busy s' = rest \<and>
      received (events s') = received (events s) @
        [(0x24, take 5808 img), (0x26, take 5808 img), (0x22, [0xF7]), (0x20, [])]) \<and>
    EPD_2IN7_V2_Display short s = None \<and> EPD_2IN7_V2_Display_Base short s = None"
proof -
  have l: "drives 0 (send_rows (load img)) (fold add_data (take 5808 img))"
    using drives_send_rows[of "load img" "(!) img"] assms(3) by (simp add: load_def map_nth_upt)
  have "drives 1 (EPD_2IN7_V2_Display img) (\<lambda>l. l @ [(0x24, take 5808 img), (0x22, [0xF7]), (0x20, [])])"
    unfolding EPD_2IN7_V2_Display_def
    by (rule drives_weaken, (rule drives_rules l)+) simp_all
  moreover have "drives 1 (EPD_2IN7_V2_Display_Base img)
      (\<lambda>l. l @ [(0x24, take 5808 img), (0x26, take 5808 img), (0x22, [0xF7]), (0x20, [])])"
    unfolding EPD_2IN7_V2_Display_Base_def
    by (rule drives_weaken, (rule drives_rules l)+) simp_all
  moreover have n: "send_rows (load short) t = None" for t
    unfolding send_rows_eq using assms(4) by (intro for_each_None[of "length short"]) (auto simp: load_def)
  have "EPD_2IN7_V2_Display short s = None"
    unfolding EPD_2IN7_V2_Display_def run_all_def
    by (rule for_each_None[of "send_rows (load short)"]) (simp_all add: n)
  moreover have "EPD_2IN7_V2_Display_Base short s = None"
    unfolding EPD_2IN7_V2_Display_Base_def run_all_def
    by (rule for_each_None[of "send_rows (load short)"]) (simp_all add: n)
  ultimately show ?thesis using assms(1,2) unfolding drives_def by blast
qed

theorem display_commands_witness:
  "(\<exists>s'. EPD_2IN7_V2_Display (replicate 5808 7) \<lparr>events = [], busy = [True, False], spi_epaper = True\<rparr> = Some s' \<and> busy s' = [] \<and>
      received (events s') = received [] @ [(0x24, take 5808 (replicate 5808 7)), (0x22, [0xF7]), (0x20, [])]) \<and>
    (\<exists>s'. EPD_2IN7_V2_Display_Base (replicate 5808 7) \<lparr>events = [], busy = [True, False], spi_epaper = True\<rparr> = Some s' \<and> busy s' = [] \<and>
      received (events s') = received [] @
        [(0x24, take 5808 (replicate 5808 7)), (0x26, take 5808 (replicate 5808 7)), (0x22, [0xF7]), (0x20, [])]) \<and>
    EPD_2IN7_V2_Display [1] \<lparr>events = [], busy = [True, False], spi_epaper = True\<rparr> = None \<and>
    EPD_2IN7_V2_Display_Base [1] \<lparr>events = [], busy = [True, False], spi_epaper = True\<rparr> = None"
  using display_commands[of "\<lparr>events = [], busy = [True, False], spi_epaper = True\<rparr>" "[]" "replicate 5808 7" "[1]"]
  by (simp add: wait_busy_def)

text \<open>
  C38. Waiting for the panel returns exactly if the busy pin is released at some reading; it then has
  polled once per 10 ms and gives the panel 20 ms more. A panel that stays busy holds the calling
  thread forever: no reading ends the wait.
\<close>

theorem read_busy_returns:
  "(EPD_2IN7_V2_ReadBusy s \<noteq> None \<longleftrightarrow> False \<in> set (busy s)) \<and>
   EPD_2IN7_V2_ReadBusy (s\<lparr>busy := replicate k True @ False # rest\<rparr>) =
     Some (s\<lparr>busy := rest, events := events s @ replicate k (Delay 10) @ [Delay 20]\<rparr>)"
proof -
  have "wait_busy l \<noteq> None \<longleftrightarrow> False \<in> set l" for l
    by (induction l) (auto simp: wait_busy_def)
  then have "EPD_2IN7_V2_ReadBusy s \<noteq> None \<longleftrightarrow> False \<in> set (busy s)"
    by (simp add: EPD_2IN7_V2_ReadBusy_def read_busy_delays)
  moreover have "takeWhile (\<lambda>l. l) (replicate k True @ False # rest) = replicate k True"
    "dropWhile (\<lambda>l. l) (replicate k True @ False # rest) = False # rest"
    by (induction k) auto
  ultimately show ?thesis by (simp add: EPD_2IN7_V2_ReadBusy_def read_busy_delays wait_busy_def)
qed

text \<open>Grey levels.\<close>

lemma and_0xC0:
  "t AND 0xC0 = (if bit t 7 then 0x80 else 0) OR (if bit t 6 then 0x40 else 0)" for t :: u8
proof (rule bit_word_eqI)
  fix n :: nat
  assume "n < LENGTH(8)"
  then have "n = 0 \<or> n = 1 \<or> n = 2 \<or> n = 3 \<or> n = 4 \<or> n = 5 \<or> n = 6 \<or> n = 7" by auto
  then show "bit (t AND 0xC0) n = bit ((if bit t 7 then 0x80 else 0) OR (if bit t 6 then 0x40 else 0) :: u8) n"
    by (elim disjE; cases "bit t 7"; cases "bit t 6") (simp_all add: bit_simps del: bit_0)
qed

lemma gray_pixel_bit: "gray_pixel old t = of_bool (\<not> bit t (if old then 6 else 7))"
  unfolding gray_pixel_def Let_def and_0xC0 by simp

lemma gray_byte_bit:
  assumes "m < 8"
  shows "bit (gray_byte old b0 b1) (7 - m) \<longleftrightarrow>
    \<not> bit (if m < 4 then b0 else b1) (6 - 2 * (m mod 4) + of_bool (\<not> old))"
proof -
  have "m = 0 \<or> m = 1 \<or> m = 2 \<or> m = 3 \<or> m = 4 \<or> m = 5 \<or> m = 6 \<or> m = 7" using assms by linarith
  then show ?thesis
    by (elim disjE; cases old)
      (simp_all add: gray_byte_def gray_pair_def gray_pixel_bit Let_def bit_simps del: bit_0)
qed

text \<open>
  In the four-level mode the eight pixels of two image bytes, two bits each, become one byte per
  memory: the first memory gets the inverted low bits and the second the inverted high bits, the
  leftmost pixel in the highest bit. The panel gets the 5808 bytes of each memory in order.
\<close>

theorem gray_display_planes:
  assumes "spi_epaper s" and "waits 1 (busy s) = Some rest" and "11616 \<le> length img"
  shows "\<exists>s' low high. EPD_2IN7_V2_4GrayDisplay img s = Some s' \<and> busy s' = rest \<and>
    received (events s') = received (events s) @ [(0x24, low), (0x26, high), (0x22, [0xC7]), (0x20, [])] \<and>
    length low = 5808 \<and> length high = 5808 \<and>
    (\<forall>i m. i < 5808 \<and> m < 8 \<longrightarrow>
       bit (low ! i) (7 - m) = (\<not> bit (img ! (2 * i + m div 4)) (6 - 2 * (m mod 4))) \<and>
       bit (high ! i) (7 - m) = (\<not> bit (img ! (2 * i + m div 4)) (7 - 2 * (m mod 4))))"
proof -
  define plane where "plane old = map (\<lambda>i. gray_byte old (img ! (i * 2)) (img ! (i * 2 + 1))) [0..<5808]" for old
  have l: "drives 0 (send_gray old img) (fold add_data (plane old))" for old
  proof -
    have e: "send_gray old img = for_each (\<lambda>i s. Option.bind (Option.bind (load img (i * 2))
        (\<lambda>b0. Option.bind (load img (i * 2 + 1)) (\<lambda>b1. Some (gray_byte old b0 b1))))
        (\<lambda>b. EPD_2IN7_V2_SendData b s)) [0..<5808]"
      by (simp add: send_gray_def)
    show ?thesis unfolding e plane_def
      by (rule drives_bytes) (use assms(3) in \<open>auto simp: load_def\<close>)
  qed
  have "drives 1 (EPD_2IN7_V2_4GrayDisplay img)
      (\<lambda>l. l @ [(0x24, plane True), (0x26, plane False), (0x22, [0xC7]), (0x20, [])])"
    unfolding EPD_2IN7_V2_4GrayDisplay_def
    by (rule drives_weaken, (rule drives_rules l)+) simp_all
  moreover have "bit (plane True ! i) (7 - m) = (\<not> bit (img ! (2 * i + m div 4)) (6 - 2 * (m mod 4))) \<and>
      bit (plane False ! i) (7 - m) = (\<not> bit (img ! (2 * i + m div 4)) (7 - 2 * (m mod 4)))"
    if "i < 5808" "m < 8" for i m
  proof -
    have "m div 4 = (if m < 4 then 0 else 1)" using that(2) by auto
    moreover have "6 - 2 * (m mod 4) + 1 = 7 - 2 * (m mod 4)"
    proof -
      have "m mod 4 < 4" by simp
      then show ?thesis by linarith
    qed
    ultimately show ?thesis
      using that gray_byte_bit[OF that(2), of True] gray_byte_bit[OF that(2), of False]
      by (simp add: plane_def mult.commute)
  qed
  moreover have "length (plane old) = 5808" for old by (simp add: plane_def)
  ultimately show ?thesis using assms(1,2) unfolding drives_def by blast
qed

theorem gray_display_planes_witness:
  "\<exists>s' low high. EPD_2IN7_V2_4GrayDisplay (replicate 11616 0x1B) \<lparr>events = [], busy = [False], spi_epaper = True\<rparr> = Some s' \<and> busy s' = [] \<and>
    received (events s') = received (events \<lparr>events = [], busy = [False], spi_epaper = True\<rparr>) @
      [(0x24, low), (0x26, high), (0x22, [0xC7]), (0x20, [])] \<and>
    length low = 5808 \<and> length high = 5808 \<and>
    (\<forall>i m. i < 5808 \<and> m < 8 \<longrightarrow>
       bit (low ! i) (7 - m) = (\<not> bit (replicate 11616 (0x1B :: u8) ! (2 * i + m div 4)) (6 - 2 * (m mod 4))) \<and>
       bit (high ! i) (7 - m) = (\<not> bit (replicate 11616 (0x1B :: u8) ! (2 * i + m div 4)) (7 - 2 * (m mod 4))))"
  by (rule gray_display_planes) (simp_all add: wait_busy_def)

text \<open>Partial updates.\<close>

lemma partial_columns_bound:
  assumes "Xstart < Xend" and "Xend \<le> 176" and "partial_columns Xstart Xend = (xs, xe)"
  shows "xs = Xstart div 8 \<and> xs \<le> xe \<and> xe \<le> 22"
proof -
  have "Xstart div 8 \<le> Xend div 8" using assms(1) by (simp add: div_le_mono)
  moreover have "Xend div 8 + 1 \<le> 22" if "Xend mod 8 \<noteq> 0" using that assms(2) by presburger
  moreover have "Xend div 8 \<le> 22" using assms(2) by linarith
  ultimately show ?thesis using assms(3) by (auto simp: partial_columns_def split: if_splits)
qed

lemma partial_sizes:
  assumes "Xstart < Xend" and "Xend \<le> 176" and "Ystart < Yend" and "Yend \<le> 264"
    and "partial_columns Xstart Xend = (xs, xe)" and "xs < xe"
  shows "to_u16 (int (xe - xs) * (int Yend - int Ystart)) = (xe - xs) * (Yend - Ystart) \<and>
    to_u16 (int xe - int xs) = xe - xs \<and> to_u16 (int xe - 1) = xe - 1 \<and> to_u16 (int Yend - 1) = Yend - 1"
proof (intro conjI)
  note b = partial_columns_bound[OF assms(1,2,5)]
  have "(xe - xs) * (Yend - Ystart) \<le> 22 * 264" using b assms(4) by (intro mult_le_mono) auto
  moreover have "int (xe - xs) * (int Yend - int Ystart) = int ((xe - xs) * (Yend - Ystart))"
    using assms(3) by (simp add: of_nat_diff)
  ultimately show "to_u16 (int (xe - xs) * (int Yend - int Ystart)) = (xe - xs) * (Yend - Ystart)"
    by (simp add: to_u16_id del: of_nat_mult of_nat_diff)
  show "to_u16 (int xe - int xs) = xe - xs" "to_u16 (int xe - 1) = xe - 1" "to_u16 (int Yend - 1) = Yend - 1"
    using assms(3,4,6) b by (auto simp: to_u16_id)
qed

lemma Display_Partial_short:
  assumes "Xstart < Xend" and "Xend \<le> 176" and "Ystart < Yend" and "Yend \<le> 264"
    and "partial_columns Xstart Xend = (xs, xe)" and "xs < xe" and "length img < (xe - xs) * (Yend - Ystart)"
  shows "EPD_2IN7_V2_Display_Partial img Xstart Ystart Xend Yend s = None"
proof -
  let ?send = "for_each (\<lambda>i s. Option.bind (load img i) (\<lambda>b. EPD_2IN7_V2_SendData b s)) [0..<(xe - xs) * (Yend - Ystart)]"
  have "?send t = None" for t
    using assms(7) by (intro for_each_None[of "length img"]) (auto simp: load_def)
  then show ?thesis
    using partial_sizes[OF assms(1-6)]
    by (simp only: EPD_2IN7_V2_Display_Partial_def assms(5) prod.case Let_def run_all_def)
      (rule for_each_None[of ?send]; simp)
qed

lemma drives_Display_Partial:
  assumes "Xstart < Xend" and "Xend \<le> 176" and "Ystart < Yend" and "Yend \<le> 264"
    and "partial_columns Xstart Xend = (xs, xe)" and "xs < xe" and "(xe - xs) * (Yend - Ystart) \<le> length img"
  shows "drives 1 (EPD_2IN7_V2_Display_Partial img Xstart Ystart Xend Yend)
    (\<lambda>l. l @ [(0x3C, [0x80]), (0x44, [lo_byte xs, lo_byte (xe - 1)]),
      (0x45, [lo_byte Ystart, hi_bit Ystart, lo_byte (Yend - 1), hi_bit (Yend - 1)]),
      (0x4E, [lo_byte xs]), (0x4F, [lo_byte Ystart, hi_bit Ystart]),
      (0x24, take ((xe - xs) * (Yend - Ystart)) img), (0x22, [0xFF]), (0x20, [])])"
proof -
  note w = partial_sizes[OF assms(1-6)]
  have l: "drives 0 (for_each (\<lambda>i s. Option.bind (load img i) (\<lambda>b. EPD_2IN7_V2_SendData b s))
      [0..<(xe - xs) * (Yend - Ystart)]) (fold add_data (take ((xe - xs) * (Yend - Ystart)) img))"
    using drives_bytes[of "[0..<(xe - xs) * (Yend - Ystart)]" "load img" "(!) img"] assms(7)
    by (simp add: load_def map_nth_upt)
  show ?thesis
    unfolding EPD_2IN7_V2_Display_Partial_def assms(5) prod.case Let_def w[THEN conjunct1] w[THEN conjunct2, THEN conjunct1]
      w[THEN conjunct2, THEN conjunct2, THEN conjunct1] w[THEN conjunct2, THEN conjunct2, THEN conjunct2]
    by (rule drives_weaken, (rule drives_rules l)+) simp_all
qed

text \<open>
  A partial update announces a window and sends exactly as many bytes as the window has, one
  contiguous piece of the image buffer; if the first column is a multiple of eight, the window
  covers all requested columns. An image buffer smaller than the window is read behind its end.
\<close>

theorem partial_window:
  assumes "spi_epaper s" and "waits 1 (busy s) = Some rest"
    and "Xstart < Xend" and "Xend \<le> 176" and "Ystart < Yend" and "Yend \<le> 264"
    and "partial_columns Xstart Xend = (xs, xe)" and "xs < xe"
    and "(xe - xs) * (Yend - Ystart) \<le> length img" and "length short < (xe - xs) * (Yend - Ystart)"
  shows "(\<exists>s'. EPD_2IN7_V2_Display_Partial img Xstart Ystart Xend Yend s = Some s' \<and> busy s' = rest \<and>
      received (events s') = received (events s) @
        [(0x3C, [0x80]), (0x44, [lo_byte xs, lo_byte (xe - 1)]),
         (0x45, [lo_byte Ystart, hi_bit Ystart, lo_byte (Yend - 1), hi_bit (Yend - 1)]),
         (0x4E, [lo_byte xs]), (0x4F, [lo_byte Ystart, hi_bit Ystart]),
         (0x24, take ((xe - xs) * (Yend - Ystart)) img), (0x22, [0xFF]), (0x20, [])]) \<and>
    EPD_2IN7_V2_Display_Partial short Xstart Ystart Xend Yend s = None \<and>
    (Xstart mod 8 = 0 \<longrightarrow> 8 * xs = Xstart \<and> Xend \<le> 8 * xe)"
proof (intro conjI impI)
  show "\<exists>s'. EPD_2IN7_V2_Display_Partial img Xstart Ystart Xend Yend s = Some s' \<and> busy s' = rest \<and>
      received (events s') = received (events s) @
        [(0x3C, [0x80]), (0x44, [lo_byte xs, lo_byte (xe - 1)]),
         (0x45, [lo_byte Ystart, hi_bit Ystart, lo_byte (Yend - 1), hi_bit (Yend - 1)]),
         (0x4E, [lo_byte xs]), (0x4F, [lo_byte Ystart, hi_bit Ystart]),
         (0x24, take ((xe - xs) * (Yend - Ystart)) img), (0x22, [0xFF]), (0x20, [])]"
    using drives_Display_Partial[OF assms(3-9)] assms(1,2) unfolding drives_def by blast
  show "EPD_2IN7_V2_Display_Partial short Xstart Ystart Xend Yend s = None"
    by (rule Display_Partial_short[OF assms(3-8,10)])
  assume a: "Xstart mod 8 = 0"
  have "cmod (int Xend - int Xstart) 8 = (int Xend - int Xstart) mod 8" using assms(3) by (simp add: cmod_nonneg)
  with a assms(7) show "8 * xs = Xstart" "Xend \<le> 8 * xe"
    by (auto simp: partial_columns_def split: if_splits; presburger)+
qed

theorem partial_window_witness:
  "(\<exists>s'. EPD_2IN7_V2_Display_Partial (replicate 8 0xA5) 16 1 27 5 \<lparr>events = [], busy = [False], spi_epaper = True\<rparr> = Some s' \<and> busy s' = [] \<and>
      received (events s') = received [] @
        [(0x3C, [0x80]), (0x44, [lo_byte 2, lo_byte (4 - 1)]),
         (0x45, [lo_byte 1, hi_bit 1, lo_byte (5 - 1), hi_bit (5 - 1)]),
         (0x4E, [lo_byte 2]), (0x4F, [lo_byte 1, hi_bit 1]),
         (0x24, take ((4 - 2) * (5 - 1)) (replicate 8 0xA5)), (0x22, [0xFF]), (0x20, [])]) \<and>
    EPD_2IN7_V2_Display_Partial [0] 16 1 27 5 \<lparr>events = [], busy = [False], spi_epaper = True\<rparr> = None"
  using partial_window[of "\<lparr>events = [], busy = [False], spi_epaper = True\<rparr>" "[]" 16 27 1 5 2 4 "replicate 8 0xA5" "[0]"]
  by (simp add: wait_busy_def partial_columns_def cmod_def cdiv_def)

end
