(* ===== verification/Display.thy ===== *)
theory Display
  imports Paint Epd
begin

text \<open>
  The display port of LVGL, \<^verbatim>\<open>src/applications/lvgl/lv_port_disp.c\<close>: an area that LVGL has rendered
  is drawn into a rotated one-bit image with the drawing library and sent to the panel as a partial
  update. The heap of LVGL is the argument \<open>lv_mem_alloc\<close>, which gives the contents of the memory it
  hands out; the debug printouts are left out.
\<close>

section \<open>Areas and colours\<close>

record lv_area_t =
  x1 :: int
  y1 :: int
  x2 :: int
  y2 :: int

text \<open>Colours have depth one: a colour is its byte.\<close>

type_synonym lv_color_t = u8

definition lv_color_to1 :: "lv_color_t \<Rightarrow> u8" where
  "lv_color_to1 color = color"

record disp =
  dev :: epd
  flush_ready :: nat

section \<open>Operations\<close>

fun wait_idle :: "bool list \<Rightarrow> action" where
  "wait_idle [] s = None"
| "wait_idle (level # levels) s =
     (if level then Option.bind (DEV_Delay_ms 10 s) (wait_idle levels) else Some (s\<lparr>busy := levels\<rparr>))"

definition wait_for_idle :: action where
  "wait_for_idle s = wait_idle (busy s) s"

definition area_w :: "lv_area_t \<Rightarrow> nat" where
  "area_w area = to_u32 (x2 area - x1 area + 1)"

definition area_h :: "lv_area_t \<Rightarrow> nat" where
  "area_h area = to_u32 (y2 area - y1 area + 1)"

definition area_bytes :: "lv_area_t \<Rightarrow> nat" where
  "area_bytes area = to_u32 (int ((area_h area + 7) div 8 * area_w area))"

text \<open>The loop that copies the rendered pixels into the image.\<close>

definition copy_pixels :: "nat \<Rightarrow> nat \<Rightarrow> lv_color_t list \<Rightarrow> PAINT \<Rightarrow> PAINT option" where
  "copy_pixels w h color_p =
     for_each (\<lambda>y. for_each (\<lambda>x p. do {
         c \<leftarrow> load color_p (x + y * w);
         if lv_color_to1 c = 0 then Paint_SetPixel (to_u16 (int x)) (to_u16 (int y)) BLACK p
         else Paint_SetPixel (to_u16 (int x)) (to_u16 (int y)) WHITE p })
       [0..<w]) [0..<h]"

definition memset_image :: "nat \<Rightarrow> PAINT \<Rightarrow> PAINT option" where
  "memset_image n p =
     (if n \<le> length (Image p) then Some (p\<lparr>Image := replicate n 0xFF @ drop n (Image p)\<rparr>) else None)"

definition show_area :: "bytes \<Rightarrow> lv_area_t \<Rightarrow> action" where
  "show_area img area = EPD_2IN7_V2_Display_Partial img
     (to_u16 (y1 area)) (to_u16 (x1 area)) (to_u16 (y2 area)) (to_u16 (x2 area))"

definition disp_flush ::
  "(nat \<Rightarrow> bytes option) \<Rightarrow> lv_area_t \<Rightarrow> lv_color_t list \<Rightarrow> disp \<Rightarrow> disp option" where
  "disp_flush lv_mem_alloc area color_p d =
     (let w = area_w area; h = area_h area; buf_size = area_bytes area in
      case lv_mem_alloc buf_size of
        None \<Rightarrow> Some d
      | Some temp_buf \<Rightarrow> do {
          e \<leftarrow> EPD_2IN7_V2_Init (dev d);
          p \<leftarrow> Paint_Clear WHITE (Paint_SelectImage temp_buf (Paint_NewImage temp_buf (to_u16 (int h)) (to_u16 (int w)) 270 WHITE));
          p \<leftarrow> memset_image buf_size p;
          e \<leftarrow> show_area (Image p) area e;
          p \<leftarrow> copy_pixels w h color_p p;
          e \<leftarrow> show_area (Image p) area e;
          e \<leftarrow> wait_for_idle e;
          e \<leftarrow> EPD_2IN7_V2_Sleep e;
          Some (d\<lparr>dev := e, flush_ready := flush_ready d + 1\<rparr>) })"

text \<open>
  Attaching the SPI device: the error codes of the attachment and of the bus configuration and
  whether the device is found are the results of the operating system.
\<close>

definition ele_ds_epaper_init :: "int \<Rightarrow> bool \<Rightarrow> int \<Rightarrow> epd \<Rightarrow> int \<times> epd" where
  "ele_ds_epaper_init attach_err found config_err s =
     (if attach_err \<noteq> 0 then (- attach_err, s)
      else if \<not> found then (- RT_ERROR, s)
      else let s = s\<lparr>spi_epaper := True\<rparr> in
        if config_err \<noteq> 0 then (- config_err, s) else (0, s))"

definition disp_init :: "int \<Rightarrow> bool \<Rightarrow> int \<Rightarrow> action" where
  "disp_init attach_err found config_err s =
     (case ele_ds_epaper_init attach_err found config_err s of (err, s) \<Rightarrow>
        if err \<noteq> 0 then Some s
        else run_all [DEV_Module_Init, EPD_2IN7_V2_Init, EPD_2IN7_V2_Clear] s)"

definition cmd_clean_screen :: action where
  "cmd_clean_screen = run_all [EPD_2IN7_V2_Init, EPD_2IN7_V2_Clear]"


section \<open>Copying the pixels\<close>

definition mono_color :: "lv_color_t \<Rightarrow> u16" where
  "mono_color c = (if lv_color_to1 c = 0 then BLACK else WHITE)"

definition pixel_writes :: "nat \<Rightarrow> nat \<Rightarrow> lv_color_t list \<Rightarrow> ((nat \<times> nat) \<times> u16) list" where
  "pixel_writes w h color_p =
     concat (map (\<lambda>y. map (\<lambda>x. ((x, y), mono_color (color_p ! (x + y * w)))) [0..<w]) [0..<h])"

lemma copy_pixels_writes:
  assumes "w < 65536" and "h < 65536" and "w * h \<le> length color_p"
  shows "copy_pixels w h color_p = for_each put_px (pixel_writes w h color_p)"
proof -
  have e: "(\<lambda>p. Option.bind (load color_p (x + y * w)) (\<lambda>c.
        if lv_color_to1 c = 0 then Paint_SetPixel (to_u16 (int x)) (to_u16 (int y)) BLACK p
        else Paint_SetPixel (to_u16 (int x)) (to_u16 (int y)) WHITE p)) =
      put_px ((x, y), mono_color (color_p ! (x + y * w)))" if "x < w" "y < h" for x y
  proof -
    have "x + y * w < length color_p" using row_addr_less[OF that] assms(3) by linarith
    then show ?thesis using that assms(1,2) by (auto simp: load_def mono_color_def to_u16_id)
  qed
  show ?thesis
    unfolding copy_pixels_def pixel_writes_def for_each_concat_map for_each_map
    by (intro for_each_cong) (use e in auto)
qed

lemma set_pixel_writes:
  "(q, v) \<in> set (pixel_writes w h color_p) \<longleftrightarrow> fst q < w \<and> snd q < h \<and> v = mono_color (color_p ! (fst q + snd q * w))"
  by (cases q) (auto simp: pixel_writes_def image_iff)

lemma copy_pixels_get:
  assumes "wf_paint p" and "Width p = w" and "Height p = h" and "Scale p = 2" and "w * h \<le> length color_p"
  shows "\<exists>p'. copy_pixels w h color_p p = Some p' \<and> wf_paint p' \<and> settings p' = settings p \<and>
    (\<forall>x y. x < w \<longrightarrow> y < h \<longrightarrow> get_pixel p' (x, y) = (if color_p ! (x + y * w) = 0 then 0 else 1))"
proof -
  let ?ws = "pixel_writes w h color_p"
  have s: "\<forall>(q, v) \<in> set ?ws. inside (settings p) q \<and> color_ok (settings p) v"
    using assms(2-4) by (auto simp: set_pixel_writes inside_def color_ok_def)
  have m: "map_of (rev ?ws) q = Some v \<longleftrightarrow> fst q < w \<and> snd q < h \<and> v = mono_color (color_p ! (fst q + snd q * w))" for q v
    by (subst map_of_functional) (auto simp: set_pixel_writes)
  have c: "copy_pixels w h color_p = for_each put_px ?ws"
    using copy_pixels_writes wf_width[OF assms(1)] assms(2,3,5) by blast
  from pix.put_all[OF assms(1) s] obtain p' where p': "for_each put_px ?ws p = Some p'" "wf_paint p'" "settings p' = settings p"
    "\<forall>q. inside p q \<longrightarrow> get_pixel p' q = (case map_of (rev ?ws) q of None \<Rightarrow> get_pixel p q | Some v \<Rightarrow> shade p v)"
    unfolding settings_simps by blast
  have "get_pixel p' (x, y) = (if color_p ! (x + y * w) = 0 then 0 else 1)" if "x < w" "y < h" for x y
  proof -
    have "map_of (rev ?ws) (x, y) = Some (mono_color (color_p ! (x + y * w)))" using m that by simp
    moreover have "inside p (x, y)" using that assms(2,3) by (simp add: inside_def)
    ultimately show ?thesis
      using p'(4) assms(4) by (simp add: shade_def mono_color_def lv_color_to1_def WHITE_def BLACK_def)
  qed
  then show ?thesis using p' c by auto
qed

section \<open>The flushed area\<close>

definition on_screen :: "lv_area_t \<Rightarrow> bool" where
  "on_screen area \<longleftrightarrow> 0 \<le> x1 area \<and> x1 area \<le> x2 area \<and> x2 area < 264 \<and>
     0 \<le> y1 area \<and> y1 area \<le> y2 area \<and> y2 area < 176"

lemma area_sizes:
  assumes "on_screen area"
  shows "area_w area = nat (x2 area - x1 area) + 1" "area_h area = nat (y2 area - y1 area) + 1"
    "area_bytes area = (area_h area + 7) div 8 * area_w area" "area_w area \<le> 264" "area_h area \<le> 176"
proof -
  show w: "area_w area = nat (x2 area - x1 area) + 1" "area_h area = nat (y2 area - y1 area) + 1"
    using assms by (auto simp: on_screen_def area_w_def area_h_def to_u32_id)
  then show b: "area_w area \<le> 264" "area_h area \<le> 176" using assms by (auto simp: on_screen_def)
  then have "(area_h area + 7) div 8 * area_w area \<le> 22 * 264" by (intro mult_le_mono) auto
  then show "area_bytes area = (area_h area + 7) div 8 * area_w area"
    by (simp add: area_bytes_def to_u32_id del: of_nat_mult)
qed

lemma per_byte_8: "per_byte h 8 = (h + 7) div 8"
  unfolding per_byte_def by presburger

definition flush_image :: "lv_area_t \<Rightarrow> bytes \<Rightarrow> PAINT" where
  "flush_image area temp_buf =
     Paint_SelectImage temp_buf (Paint_NewImage temp_buf (area_h area) (area_w area) 270 WHITE)"

lemma flush_image_wf:
  assumes "on_screen area" and "length temp_buf = area_bytes area"
  shows "wf_paint (flush_image area temp_buf)" "Width (flush_image area temp_buf) = area_w area"
    "Height (flush_image area temp_buf) = area_h area" "Scale (flush_image area temp_buf) = 2"
    "length (Image (flush_image area temp_buf)) = area_bytes area"
  using area_sizes[OF assms(1)] assms(2)
  by (auto simp: flush_image_def Paint_SelectImage_def Paint_NewImage_def wf_paint_def density_def rotate_defs
    mirror_defs per_byte_8)

lemma flush_image_place:
  assumes "settings p = settings (flush_image area temp_buf)" and "x < area_w area" "area_w area < 65536"
  shows "get_pixel p (x, y) = read_bits 1 (y mod 8) (Image p ! (y div 8 + (area_w area - Suc x) * ((area_h area + 7) div 8)))"
proof -
  have e: "p = (flush_image area temp_buf)\<lparr>Image := Image p\<rparr>"
  proof -
    have "p = (settings p)\<lparr>Image := Image p\<rparr>" by (simp add: settings_def)
    also have "\<dots> = (flush_image area temp_buf)\<lparr>Image := Image p\<rparr>" using assms(1) by (simp add: settings_def)
    finally show ?thesis .
  qed
  have "place (flush_image area temp_buf) (x, y) = (y, area_w area - Suc x)"
    using assms(2,3)
    by (simp add: place_def rotate_point_def mirror_point_def flush_image_def Paint_SelectImage_def Paint_NewImage_def
      mirror_defs rotate_defs to_u16_flip)
  moreover have "density (flush_image area temp_buf) = 8" "pixel_bits (flush_image area temp_buf) = 1"
    "WidthByte (flush_image area temp_buf) = (area_h area + 7) div 8"
    by (simp_all add: density_def pixel_bits_def flush_image_def Paint_SelectImage_def Paint_NewImage_def per_byte_8)
  ultimately show ?thesis by (subst e) (simp add: get_pixel_def pixel_addr_def)
qed

text \<open>\<open>Paint_Clear\<close> and the \<open>memset\<close> that follows leave an image of ones.\<close>

lemma flush_image_clear:
  assumes "on_screen area" and "length temp_buf = area_bytes area"
  shows "Option.bind (Paint_Clear WHITE (flush_image area temp_buf)) (memset_image (area_bytes area)) =
    Some ((flush_image area temp_buf)\<lparr>Image := replicate (area_bytes area) 0xFF\<rparr>)"
  using clear_image[OF flush_image_wf(1)[OF assms], of WHITE] flush_image_wf(5)[OF assms]
  by (auto simp: memset_image_def)

lemma drives_wait_for_idle [drives_rules]: "drives 1 wait_for_idle (\<lambda>l. l)"
proof -
  have "wait_idle levels s = map_option (\<lambda>rest. s\<lparr>busy := rest,
      events := events s @ replicate (length (takeWhile (\<lambda>l. l) levels)) (Delay 10)\<rparr>) (wait_busy levels)" for levels s
    by (induction levels arbitrary: s) (auto simp: wait_busy_def DEV_Delay_ms_def emit_def split: list.splits)
  moreover have "fold panel_step (replicate n (Delay 10)) p = p" for n p
    by (rule received_delays) auto
  ultimately show ?thesis
    by (auto simp: drives_def wait_for_idle_def received_def bind_Some_iff)
qed

definition init_commands :: "command list" where
  "init_commands = [(0x12, []), (0x45, [0x00, 0x00, 0xB0, 0x00]), (0x44, [0x00, 0x20]), (0x4F, [0x00, 0x00]), (0x11, [0x03])]"

lemma drives_Init [drives_rules]: "drives 3 EPD_2IN7_V2_Init (\<lambda>l. l @ init_commands)"
  unfolding EPD_2IN7_V2_Init_def init_commands_def
  by (rule drives_weaken, (rule drives_rules)+) simp_all

lemma drives_Sleep [drives_rules]: "drives 0 EPD_2IN7_V2_Sleep (\<lambda>l. l @ [(0x10, [0x01])])"
  unfolding EPD_2IN7_V2_Sleep_def by (rule drives_weaken, (rule drives_rules)+) simp_all

text \<open>Under what conditions the flush is the sequence of its accesses to the panel.\<close>

lemma disp_flush_eq:
  assumes "on_screen area" and "lv_mem_alloc (area_bytes area) = Some temp_buf" "length temp_buf = area_bytes area"
    and "copy_pixels (area_w area) (area_h area) color_p
      ((flush_image area temp_buf)\<lparr>Image := replicate (area_bytes area) 0xFF\<rparr>) = Some p"
  shows "disp_flush lv_mem_alloc area color_p d =
    map_option (\<lambda>e. d\<lparr>dev := e, flush_ready := flush_ready d + 1\<rparr>)
      (run_all [EPD_2IN7_V2_Init, show_area (replicate (area_bytes area) 0xFF) area, show_area (Image p) area,
        wait_for_idle, EPD_2IN7_V2_Sleep] (dev d))"
proof -
  have "to_u16 (int (area_h area)) = area_h area" "to_u16 (int (area_w area)) = area_w area"
    using area_sizes(4,5)[OF assms(1)] by (auto simp: to_u16_id)
  then have i: "Paint_SelectImage temp_buf (Paint_NewImage temp_buf (to_u16 (int (area_h area))) (to_u16 (int (area_w area))) 270 WHITE) =
      flush_image area temp_buf" by (simp add: flush_image_def)
  obtain c where c: "Paint_Clear WHITE (flush_image area temp_buf) = Some c"
    "memset_image (area_bytes area) c = Some ((flush_image area temp_buf)\<lparr>Image := replicate (area_bytes area) 0xFF\<rparr>)"
    using flush_image_clear[OF assms(1,3)] by (auto simp: bind_Some_iff)
  show ?thesis
    unfolding disp_flush_def Let_def assms(2) i option.case run_all_def
    by (simp add: c assms(4) map_option_bind_lam) (simp add: map_conv_bind_option comp_def)
qed

text \<open>The commands of one partial update of an area whose rows start at a byte boundary.\<close>

definition area_commands :: "lv_area_t \<Rightarrow> bytes \<Rightarrow> command list" where
  "area_commands area img =
     [(0x3C, [0x80]), (0x44, [lo_byte (nat (y1 area) div 8), lo_byte (nat (y2 area) div 8)]),
      (0x45, [lo_byte (nat (x1 area)), hi_bit (nat (x1 area)), lo_byte (nat (x2 area) - 1), hi_bit (nat (x2 area) - 1)]),
      (0x4E, [lo_byte (nat (y1 area) div 8)]), (0x4F, [lo_byte (nat (x1 area)), hi_bit (nat (x1 area))]),
      (0x24, take ((area_h area + 7) div 8 * (area_w area - 1)) img), (0x22, [0xFF]), (0x20, [])]"

definition byte_rows :: "lv_area_t \<Rightarrow> bool" where
  "byte_rows area \<longleftrightarrow> y1 area mod 8 = 0 \<and> y2 area mod 8 \<noteq> 0"

lemma area_columns:
  assumes "on_screen area" and "byte_rows area"
  shows "partial_columns (nat (y1 area)) (nat (y2 area)) = (nat (y1 area) div 8, nat (y2 area) div 8 + 1)"
    "nat (y2 area) div 8 + 1 - nat (y1 area) div 8 = (area_h area + 7) div 8" "nat (y1 area) < nat (y2 area)"
proof -
  define a b where d: "a = nat (y1 area)" "b = nat (y2 area)"
  have ab: "y1 area = int a" "y2 area = int b" "a \<le> b" "b < 176"
    using assms(1) by (auto simp: on_screen_def d)
  have m: "a mod 8 = 0" "b mod 8 \<noteq> 0"
    using assms(2) unfolding byte_rows_def ab(1,2) by presburger+
  then have "a < b" using ab(3) by (metis le_neq_implies_less)
  moreover have "cmod (int b - int a) 8 \<noteq> 0"
    using ab(3) m by (simp add: cmod_nonneg) presburger
  moreover have "b mod 8 \<noteq> 8" by (metis mod_less_divisor less_irrefl zero_less_numeral)
  ultimately show "partial_columns (nat (y1 area)) (nat (y2 area)) = (nat (y1 area) div 8, nat (y2 area) div 8 + 1)"
    "nat (y1 area) < nat (y2 area)"
    using ab m by (simp_all add: partial_columns_def)
  have "area_h area = b - a + 1" using area_sizes(2)[OF assms(1)] ab by simp
  moreover obtain k where "a = 8 * k" using m(1) by auto
  moreover obtain j where "b = a + j" using ab(3) le_Suc_ex by blast
  ultimately show "nat (y2 area) div 8 + 1 - nat (y1 area) div 8 = (area_h area + 7) div 8"
    unfolding d[symmetric] by simp
qed

lemma drives_show_area:
  assumes "on_screen area" and "byte_rows area" and "x1 area < x2 area" and "length img = area_bytes area"
  shows "drives 1 (show_area img area) (\<lambda>l. l @ area_commands area img)"
proof -
  note c = area_columns[OF assms(1,2)] and z = area_sizes[OF assms(1)]
  have b: "nat (y2 area) \<le> 176" "nat (x1 area) < nat (x2 area)" "nat (x2 area) \<le> 264"
    using assms(1,3) by (auto simp: on_screen_def)
  have u: "to_u16 (y1 area) = nat (y1 area)" "to_u16 (x1 area) = nat (x1 area)"
    "to_u16 (y2 area) = nat (y2 area)" "to_u16 (x2 area) = nat (x2 area)"
    using assms(1) by (auto simp: on_screen_def to_u16_id)
  have w: "nat (x2 area) - nat (x1 area) = area_w area - 1" using z(1) assms(1) by (simp add: on_screen_def nat_diff_distrib)
  have "(nat (y2 area) div 8 + 1 - nat (y1 area) div 8) * (nat (x2 area) - nat (x1 area)) \<le> length img"
    unfolding c(2) w assms(4) z(3) by (intro mult_le_mono2) simp
  moreover have "nat (y1 area) div 8 < nat (y2 area) div 8 + 1" using div_le_mono[OF less_imp_le[OF c(3)], of 8] by simp
  ultimately have "drives 1 (EPD_2IN7_V2_Display_Partial img (nat (y1 area)) (nat (x1 area)) (nat (y2 area)) (nat (x2 area)))
      (\<lambda>l. l @ area_commands area img)"
    using drives_Display_Partial[OF c(3) b c(1), of img] unfolding area_commands_def c(2) w by simp
  then show ?thesis by (simp only: show_area_def u)
qed


definition demo_area :: lv_area_t where
  "demo_area = \<lparr>x1 = 5, y1 = 8, x2 = 7, y2 = 10\<rparr>"

definition demo_disp :: disp where
  "demo_disp = \<lparr>dev = \<lparr>events = [], busy = replicate 6 False, spi_epaper = True\<rparr>, flush_ready = 0\<rparr>"

lemma demo_area_sizes: "on_screen demo_area" "byte_rows demo_area" "area_w demo_area = 3" "area_h demo_area = 3"
  "area_bytes demo_area = 3"
  by (simp_all add: demo_area_def on_screen_def byte_rows_def area_w_def area_h_def area_bytes_def to_u32_def)


text \<open>
  An area of eight rows that starts two or more rows behind a byte boundary and is at least three
  columns wide has an image of one byte per column, but the partial update takes two bytes per column
  for it: whatever is rendered, the flush reads behind the end of its buffer.
\<close>

theorem flush_overread:
  assumes "on_screen area" and "2 \<le> y1 area mod 8" and "y2 area = y1 area + 7" and "x1 area + 2 \<le> x2 area"
    and "lv_mem_alloc (area_bytes area) = Some temp_buf" and "length temp_buf = area_bytes area"
  shows "disp_flush lv_mem_alloc area color_p d = None"
proof -
  note z = area_sizes[OF assms(1)]
  define a where "a = nat (y1 area)"
  have a: "y1 area = int a" "y2 area = int (a + 7)" "a + 7 < 176"
    using assms(1,3) by (auto simp: on_screen_def a_def)
  have r: "2 \<le> a mod 8" using assms(2) a(1) by presburger
  have h: "area_h area = 8" "area_bytes area = area_w area" using z(2,3) assms(3) by auto
  have "cmod (int (a + 7) - int a) 8 = 7" by (simp add: cmod_nonneg)
  moreover have m: "(a + 7) mod 8 = a mod 8 - 1" "(a + 7) div 8 = a div 8 + 1" using r by presburger+
  moreover have "a mod 8 + (a mod 8 - 1) \<noteq> 8" by presburger
  ultimately have c: "partial_columns a (a + 7) = (a div 8, a div 8 + 2)"
    using r by (auto simp: partial_columns_def)
  have u: "to_u16 (y1 area) = a" "to_u16 (y2 area) = a + 7" "to_u16 (x1 area) = nat (x1 area)" "to_u16 (x2 area) = nat (x2 area)"
    using assms(1) a by (auto simp: on_screen_def to_u16_id)
  have "nat (x1 area) < nat (x2 area)" "nat (x2 area) \<le> 264" "area_w area < 2 * (nat (x2 area) - nat (x1 area))"
    using assms(1,4) z(1) by (auto simp: on_screen_def nat_diff_distrib)
  then have n: "show_area (replicate (area_bytes area) 0xFF) area e = None" for e
    unfolding show_area_def u using a(3) h(2)
    by (intro Display_Partial_short[OF _ _ _ _ c]) simp_all
  have i: "Paint_SelectImage temp_buf (Paint_NewImage temp_buf (to_u16 (int (area_h area))) (to_u16 (int (area_w area))) 270 WHITE) =
      flush_image area temp_buf" using z(4,5) by (simp add: flush_image_def to_u16_id)
  obtain c where "Paint_Clear WHITE (flush_image area temp_buf) = Some c"
    "memset_image (area_bytes area) c = Some ((flush_image area temp_buf)\<lparr>Image := replicate (area_bytes area) 0xFF\<rparr>)"
    using flush_image_clear[OF assms(1,6)] by (auto simp: bind_Some_iff)
  then show ?thesis
    unfolding disp_flush_def Let_def assms(5) i option.case
    by (cases "EPD_2IN7_V2_Init (dev d)") (simp_all add: n)
qed

theorem flush_overread_witness:
  "disp_flush (\<lambda>n. Some (replicate n 0)) \<lparr>x1 = 10, y1 = 4, x2 = 40, y2 = 11\<rparr> [] demo_disp = None"
  by (rule flush_overread[where temp_buf = "replicate (area_bytes \<lparr>x1 = 10, y1 = 4, x2 = 40, y2 = 11\<rparr>) 0"])
    (simp_all add: on_screen_def)

end
