(* ===== verification/Gzp6816d.thy ===== *)
theory Gzp6816d
  imports Complex_Main Prelude
begin

text \<open>
  The driver of the pressure sensor, \<^verbatim>\<open>src/components/gzp6816d_driver/gzp6816d_driver.c\<close>. The I2C bus
  is a record of what its transfers answer. Pressures and temperatures are exact rationals: the
  formulas are those of the header, the rounding of \<open>double\<close> and \<open>float\<close> is not modelled; the integer
  part of the computation keeps its width. \<open>None\<close> is an access outside an object.
\<close>

section \<open>Constants and data\<close>

definition GZP6816D_ADDR :: u8 where "GZP6816D_ADDR = 0x78"
definition PMAX :: int where "PMAX = 110"
definition PMIN :: int where "PMIN = 30"
definition DMAX :: int where "DMAX = 15099494"
definition DMIN :: int where "DMIN = 1677722"
definition OFFSET_PRESSURE :: int where "OFFSET_PRESSURE = 20"
definition MAX_16BITS_UNSIGNED :: int where "MAX_16BITS_UNSIGNED = 65536"
definition TEMP_MIN :: int where "TEMP_MIN = - 40"
definition TEMP_MAX :: int where "TEMP_MAX = 150"
definition GZP6816D_PRESSURE_VALUE_MASK :: u32 where "GZP6816D_PRESSURE_VALUE_MASK = 0x00FFFFFF"

text \<open>\<open>Dtest - DMIN\<close> is an unsigned subtraction, as \<open>Dtest\<close> has type \<open>uint32_t\<close>.\<close>

definition CALC_PRESSURE :: "u32 \<Rightarrow> rat" where
  "CALC_PRESSURE Dtest =
     of_int (PMAX - PMIN) / of_int (DMAX - DMIN) * of_nat (unat (Dtest - of_int DMIN)) + of_int OFFSET_PRESSURE"

definition CALC_TEMPERATURE :: "u16 \<Rightarrow> rat" where
  "CALC_TEMPERATURE hex_value =
     of_int (TEMP_MAX - TEMP_MIN) * (of_nat (unat hex_value) / of_int MAX_16BITS_UNSIGNED * 100) / 100 + of_int TEMP_MIN"

text \<open>The unions, by their bytes; \<open>value\<close> reads them in the byte order of the processor.\<close>

record gzp6816d_data_t =
  raw_pressure :: bytes
  pressure :: rat
  raw_temperature :: bytes
  temperature :: rat

definition pressure_value :: "bytes \<Rightarrow> u32" where
  "pressure_value d = of_nat (unat (d ! 0) + 256 * unat (d ! 1) + 65536 * unat (d ! 2) + 16777216 * unat (d ! 3))"

definition temperature_value :: "bytes \<Rightarrow> u16" where
  "temperature_value d = of_nat (unat (d ! 0) + 256 * unat (d ! 1))"

definition sizeof_data :: nat where "sizeof_data = 14"

section \<open>The bus\<close>

record i2c_bus =
  transfer :: "u8 \<Rightarrow> bytes \<Rightarrow> int"
  bus_found :: "string \<Rightarrow> bool"
  receive :: "u8 \<Rightarrow> nat \<Rightarrow> int \<times> bytes"

record gzp6816d_device =
  i2cname :: string
  addr :: u8
  i2cdev :: bool

definition write_cmd :: "i2c_bus \<Rightarrow> gzp6816d_device \<Rightarrow> u8 \<Rightarrow> int" where
  "write_cmd b device cmd = (if transfer b (addr device) [cmd] = 1 then RT_EOK else - RT_ERROR)"

text \<open>The bytes received are stored in the buffer even if they are fewer than asked for.\<close>

definition read_bytes :: "i2c_bus \<Rightarrow> gzp6816d_device \<Rightarrow> bytes \<Rightarrow> nat \<Rightarrow> (int \<times> bytes) option" where
  "read_bytes b device buf len =
     (if \<not> bus_found b ''i2c1'' then Some (- RT_ERROR, buf)
      else case receive b (addr device) len of (n, got) \<Rightarrow> do {
        buf \<leftarrow> memcpy buf 0 got 0 (min (length got) len);
        Some (if n = int len then RT_EOK else - RT_ERROR, buf) })"

section \<open>Decoding\<close>

text \<open>The swapping loop with its two unsigned indices.\<close>

function reverse_loop :: "bytes \<Rightarrow> nat \<Rightarrow> nat \<Rightarrow> bytes option" where
  "reverse_loop d i j =
     (if i < j then do {
        a \<leftarrow> load d i;
        b \<leftarrow> load d j;
        d \<leftarrow> store d i b;
        d \<leftarrow> store d j a;
        reverse_loop d (i + 1) (j - 1) }
      else Some d)"
  by auto
termination
  by (relation "measure (\<lambda>(d, i, j). j - i)") auto

declare reverse_loop.simps [simp del]

definition reverse_bytes :: "bytes \<Rightarrow> nat \<Rightarrow> bytes option" where
  "reverse_bytes d len = reverse_loop d 0 (to_u32 (int len - 1))"

definition cal_rawdata :: "bytes \<Rightarrow> gzp6816d_data_t option" where
  "cal_rawdata buf = do {
     p \<leftarrow> memcpy (replicate 4 0) 0 buf 0 4;
     p \<leftarrow> reverse_bytes p 4;
     t \<leftarrow> memcpy (replicate 2 0) 0 buf 4 2;
     t \<leftarrow> reverse_bytes t 2;
     Some \<lparr>raw_pressure = p, pressure = CALC_PRESSURE (pressure_value p AND GZP6816D_PRESSURE_VALUE_MASK),
           raw_temperature = t, temperature = CALC_TEMPERATURE (temperature_value t)\<rparr> }"

section \<open>Reading\<close>

definition gzp6816d_readsls :: "i2c_bus \<Rightarrow> gzp6816d_device \<Rightarrow> bytes \<Rightarrow> (int \<times> bytes) option" where
  "gzp6816d_readsls b device buf =
     (if \<not> i2cdev device then None
      else if write_cmd b device 0xAC = RT_EOK then do {
        (r, buf) \<leftarrow> read_bytes b device buf 6;
        if r \<noteq> RT_EOK then Some (- RT_ERROR, buf)
        else do {
          status \<leftarrow> load buf 0;
          Some (if status AND 0x20 \<noteq> 0 then - RT_EBUSY else RT_EOK, buf) } }
      else Some (RT_EOK, buf))"

definition gzp6816d_fetch_data :: "i2c_bus \<Rightarrow> gzp6816d_device \<Rightarrow> nat \<Rightarrow> (int \<times> gzp6816d_data_t option) option" where
  "gzp6816d_fetch_data b device len =
     (if len < sizeof_data then Some (- RT_ERROR, None)
      else do {
        (ret, readbuf) \<leftarrow> gzp6816d_readsls b device (replicate 6 0);
        if ret = RT_EOK then do {
          data \<leftarrow> cal_rawdata readbuf;
          Some (int sizeof_data, Some data) }
        else Some (ret, None) })"

section \<open>Start-up\<close>

text \<open>
  The heap answers an allocation with the number of bytes it really reserves, or not at all; \<open>live\<close>
  counts the blocks that are allocated. The driver asks for the size of a pointer, 4 bytes, and stores
  its three members at the offsets 0, 4 and 8. The size of the sensor object of the sensor framework
  and the result of registering it are arguments.
\<close>

record heap =
  grant :: "nat \<Rightarrow> nat option"
  live :: nat

definition rt_calloc :: "nat \<Rightarrow> heap \<Rightarrow> nat option \<times> heap" where
  "rt_calloc n h = (case grant h n of None \<Rightarrow> (None, h) | Some m \<Rightarrow> (Some m, h\<lparr>live := live h + 1\<rparr>))"

definition rt_free :: "heap \<Rightarrow> heap" where
  "rt_free h = h\<lparr>live := live h - 1\<rparr>"

definition gzp6816d_init_exit :: "bool \<Rightarrow> heap \<Rightarrow> int \<times> heap" where
  "gzp6816d_init_exit name_allocated h =
     (- RT_ERROR, rt_free (if name_allocated then rt_free h else h))"

definition gzp6816d_init ::
  "i2c_bus \<Rightarrow> bool \<Rightarrow> nat \<Rightarrow> string option \<Rightarrow> u8 \<Rightarrow> heap \<Rightarrow> (int \<times> heap) option" where
  "gzp6816d_init b register_ok sizeof_sensor name a h =
     (case name of
        None \<Rightarrow> Some (- RT_ERROR, h)
      | Some bus_name \<Rightarrow>
          (case rt_calloc 4 h of
             (None, h) \<Rightarrow> Some (- RT_ENOMEM, h)
           | (Some block, h) \<Rightarrow>
               if block < 12 then None
               else case rt_calloc (length bus_name + 1) h of (dup, h) \<Rightarrow>
                 if \<not> bus_found b bus_name then Some (gzp6816d_init_exit (dup \<noteq> None) h)
                 else case rt_calloc sizeof_sensor h of
                     (None, h) \<Rightarrow> Some (gzp6816d_init_exit (dup \<noteq> None) h)
                   | (Some _, h) \<Rightarrow>
                       if \<not> register_ok then Some (gzp6816d_init_exit (dup \<noteq> None) (rt_free h))
                       else Some (RT_EOK, h)))"

definition gzp6816d_control :: "int \<Rightarrow> int" where
  "gzp6816d_control cmd = RT_EOK"

definition gzp6816d_deinit :: "bool \<Rightarrow> heap \<Rightarrow> heap" where
  "gzp6816d_deinit name_allocated h = rt_free (if name_allocated then rt_free h else h)"


section \<open>Properties\<close>

lemma reverse_loop_rev:
  "m \<noteq> [] \<Longrightarrow> reverse_loop (p @ m @ s) (length p) (length p + length m - 1) = Some (p @ rev m @ s)"
proof (induction "length m" arbitrary: m p s rule: less_induct)
  case less
  show ?case
  proof (cases "length m = 1")
    case True
    then obtain x where "m = [x]" by (cases m) auto
    then show ?thesis by (subst reverse_loop.simps) simp
  next
    case False
    then obtain x y k where m: "m = x # k @ [y]"
      using less.prems by (metis append_butlast_last_id length_Cons list.exhaust list.size(3) One_nat_def)
    let ?p = "p @ [y]" and ?s = "x # s"
    have j: "length p + length m - 1 = length p + Suc (length k)" by (simp add: m)
    have swap: "reverse_loop (p @ m @ s) (length p) (length p + Suc (length k)) =
        reverse_loop (?p @ k @ ?s) (length p + 1) (length p + length k)"
      by (subst reverse_loop.simps)
        (simp add: m load_def store_def nth_append list_update_append)
    show ?thesis
    proof (cases "k = []")
      case True
      have "reverse_loop (?p @ k @ ?s) (length p + 1) (length p + length k) = Some (?p @ k @ ?s)"
        by (subst reverse_loop.simps) (simp add: True)
      then show ?thesis unfolding j swap by (simp add: m True)
    next
      case k: False
      then have "length ?p + length k - 1 = length p + length k" by simp
      moreover have "length k < length m" by (simp add: m)
      ultimately have "reverse_loop (?p @ k @ ?s) (length p + 1) (length p + length k) = Some (?p @ rev k @ ?s)"
        using less.hyps[OF _ k, of ?p ?s] by simp
      then show ?thesis unfolding j swap by (simp add: m)
    qed
  qed
qed

lemma reverse_bytes_rev:
  assumes "0 < n" and "n \<le> length d" and "n \<le> 2 ^ 32"
  shows "reverse_bytes d n = Some (rev (take n d) @ drop n d)"
proof -
  have "reverse_loop d 0 (n - 1) = Some (rev (take n d) @ drop n d)"
    using reverse_loop_rev[of "take n d" "[]" "drop n d"] assms by (simp add: min_absorb2) (cases d; simp)
  moreover have "to_u32 (int n - 1) = n - 1" using assms by (auto simp: to_u32_id)
  ultimately show ?thesis using assms(2) by (simp add: reverse_bytes_def)
qed

definition pressure_raw :: "bytes \<Rightarrow> nat" where
  "pressure_raw buf = 65536 * unat (buf ! 1) + 256 * unat (buf ! 2) + unat (buf ! 3)"

definition temperature_raw :: "bytes \<Rightarrow> nat" where
  "temperature_raw buf = 256 * unat (buf ! 4) + unat (buf ! 5)"

lemma mask24:
  assumes "a < 2 ^ 24"
  shows "(of_nat (a + 16777216 * b) :: u32) AND GZP6816D_PRESSURE_VALUE_MASK = of_nat a"
proof -
  have "GZP6816D_PRESSURE_VALUE_MASK = mask 24" by (simp add: GZP6816D_PRESSURE_VALUE_MASK_def mask_eq_exp_minus_1)
  then have "(of_nat (a + 16777216 * b) :: u32) AND GZP6816D_PRESSURE_VALUE_MASK = of_nat (take_bit 24 (a + 16777216 * b))"
    by (metis take_bit_eq_mask take_bit_of_nat)
  also have "take_bit 24 (a + 16777216 * b) = a" using assms by (simp add: take_bit_eq_mod)
  finally show ?thesis .
qed

lemma cal_rawdata_eq:
  assumes "length buf = 6"
  shows "\<exists>d. cal_rawdata buf = Some d \<and> pressure d = CALC_PRESSURE (of_nat (pressure_raw buf)) \<and>
    temperature d = CALC_TEMPERATURE (of_nat (temperature_raw buf))"
proof -
  from assms obtain s b1 b2 b3 b4 b5 where buf: "buf = [s, b1, b2, b3, b4, b5]"
    by (auto simp: length_Suc_conv eval_nat_numeral)
  have p: "reverse_bytes [s, b1, b2, b3] 4 = Some [b3, b2, b1, s]"
    using reverse_bytes_rev[of 4 "[s, b1, b2, b3]"] by simp
  have t: "reverse_bytes [b4, b5] 2 = Some [b5, b4]" using reverse_bytes_rev[of 2 "[b4, b5]"] by simp
  have "pressure_raw buf < 2 ^ 24" using unat_u8[of b1] unat_u8[of b2] unat_u8[of b3] by (simp add: pressure_raw_def buf)
  from mask24[OF this, of "unat s"]
  have "pressure_value [b3, b2, b1, s] AND GZP6816D_PRESSURE_VALUE_MASK = of_nat (pressure_raw buf)"
    by (simp add: pressure_value_def pressure_raw_def buf algebra_simps)
  moreover have "temperature_value [b5, b4] = of_nat (temperature_raw buf)"
    by (simp add: temperature_value_def temperature_raw_def buf)
  ultimately show ?thesis
    using p t by (simp add: cal_rawdata_def buf memcpy_def)
qed

lemma pressure_in_range:
  assumes "DMIN \<le> int r" and "int r \<le> DMAX"
  shows "CALC_PRESSURE (of_nat r) = 80 * of_nat (r - 1677722) / 13421772 + 20"
proof -
  have b: "1677722 \<le> r" "r \<le> 15099494" using assms by (auto simp: DMIN_def DMAX_def)
  have "(of_nat r - of_int DMIN :: u32) = of_nat (r - 1677722)" using b by (simp add: DMIN_def of_nat_diff)
  then have "unat (of_nat r - of_int DMIN :: u32) = r - 1677722"
    using b by (simp only:) (rule unat_of_nat_u32, simp)
  then show ?thesis
    unfolding CALC_PRESSURE_def by (simp only:) (simp add: PMAX_def PMIN_def DMAX_def DMIN_def OFFSET_PRESSURE_def)
qed

lemma pressure_below_range:
  assumes "int r < DMIN"
  shows "CALC_PRESSURE (of_nat r) = 80 * (4294967296 + of_nat r - 1677722) / 13421772 + 20"
proof -
  have b: "r < 1677722" using assms by (simp add: DMIN_def)
  have "(of_nat r - of_int DMIN :: u32) = of_nat (4294967296 + r - 1677722)"
  proof -
    have "(of_nat (4294967296 + r - 1677722) :: u32) = of_nat (4294967296 + r) - of_nat 1677722"
      using b by (intro of_nat_diff) simp
    also have "(of_nat (4294967296 + r) :: u32) = of_nat r" by simp
    finally show ?thesis by (simp add: DMIN_def)
  qed
  then have "unat (of_nat r - of_int DMIN :: u32) = 4294967296 + r - 1677722"
    using b by (simp only:) (rule unat_of_nat_u32, simp)
  moreover have "(of_nat (4294967296 + r - 1677722) :: rat) = 4294967296 + of_nat r - 1677722"
    using b by (simp add: of_nat_diff)
  ultimately show ?thesis
    unfolding CALC_PRESSURE_def by (simp only:) (simp add: PMAX_def PMIN_def DMAX_def DMIN_def OFFSET_PRESSURE_def)
qed

lemma temperature_in_range: "- 40 \<le> CALC_TEMPERATURE w" "CALC_TEMPERATURE w < 150"
proof -
  define n where "n = unat w"
  have "n < 65536" using unsigned_less[of w] by (simp add: n_def)
  then have "(of_nat n :: rat) < of_nat 65536" by (simp only: of_nat_less_iff)
  then show "- 40 \<le> CALC_TEMPERATURE w" "CALC_TEMPERATURE w < 150"
    unfolding CALC_TEMPERATURE_def n_def[symmetric] by (simp_all add: TEMP_MAX_def TEMP_MIN_def MAX_16BITS_UNSIGNED_def)
qed



text \<open>
  A command the sensor does not acknowledge is not reported: the read then succeeds with the
  zeroed buffer, and the caller gets a full-size answer with a pressure above 25000 and -40 degrees.
  A failed reception and a busy sensor are reported by their error codes.
\<close>

theorem fetch_without_answer:
  assumes "i2cdev device" and "sizeof_data \<le> len" and "transfer b (addr device) [0xAC] \<noteq> 1"
  shows "\<exists>d. gzp6816d_fetch_data b device len = Some (int sizeof_data, Some d) \<and> 25000 < pressure d \<and> temperature d = - 40"
proof -
  have "(replicate 6 (0 :: u8)) ! i = 0" if "i < 6" for i using that by simp
  then have z: "pressure_raw (replicate 6 0) = 0" "temperature_raw (replicate 6 0) = 0"
    by (simp_all add: pressure_raw_def temperature_raw_def)
  from cal_rawdata_eq[of "replicate 6 0"] obtain d where "cal_rawdata (replicate 6 0) = Some d"
    "pressure d = CALC_PRESSURE (of_nat 0)" "temperature d = CALC_TEMPERATURE (of_nat 0)" by (auto simp: z)
  then show ?thesis
    using assms pressure_below_range[of 0]
    by (auto simp: gzp6816d_fetch_data_def gzp6816d_readsls_def write_cmd_def RT_EOK_def RT_ERROR_def DMIN_def
      CALC_TEMPERATURE_def TEMP_MIN_def)
qed

definition dead_bus :: i2c_bus where
  "dead_bus = \<lparr>transfer = (\<lambda>_ _. 0), bus_found = (\<lambda>_. True), receive = (\<lambda>_ _. (0, []))\<rparr>"

theorem fetch_without_answer_witness:
  "\<exists>d. gzp6816d_fetch_data dead_bus \<lparr>i2cname = ''i2c1'', addr = GZP6816D_ADDR, i2cdev = True\<rparr> 14 =
    Some (int sizeof_data, Some d) \<and> 25000 < pressure d \<and> temperature d = - 40"
  by (rule fetch_without_answer) (simp_all add: dead_bus_def sizeof_data_def)

text \<open>
  Starting the driver either succeeds or frees what it has allocated, provided the heap reserves at
  least twelve bytes for the four it is asked for.
\<close>

lemma gzp_init_balanced:
  assumes "gzp6816d_init b ok n name a h = Some (r, h')"
  shows "r = RT_EOK \<or> live h' = live h"
  using assms
  by (auto simp: gzp6816d_init_def gzp6816d_init_exit_def rt_calloc_def rt_free_def split: option.splits if_splits)

end
