(* ===== verification/Calendar.thy ===== *)
theory Calendar
  imports Prelude
begin

text \<open>
  Calendar time: \<^verbatim>\<open>gmtime_r\<close>, \<^verbatim>\<open>localtime_r\<close>, \<^verbatim>\<open>timegm\<close> and \<^verbatim>\<open>mktime\<close> of
  \<^verbatim>\<open>src/rt-thread/components/libc/compilers/common/ctime.c\<close>, which the alarms and the clock of the
  firmware use. \<^verbatim>\<open>time_t\<close> is the unsigned 32-bit type of the ARM compiler, a \<open>nat\<close> here, reduced where
  the code computes with it; the fields of \<^verbatim>\<open>struct tm\<close> are signed.
\<close>

section \<open>Data\<close>

record tm =
  tm_sec :: int
  tm_min :: int
  tm_hour :: int
  tm_mday :: int
  tm_mon :: int
  tm_year :: int
  tm_wday :: int
  tm_yday :: int
  tm_isdst :: int

definition spm :: "int list" where
  "spm = [0, 31, 59, 90, 120, 151, 181, 212, 243, 273, 304, 334, 365]"

definition isleap :: "int \<Rightarrow> bool" where
  "isleap year \<longleftrightarrow> cmod year 4 = 0 \<and> (cmod year 100 \<noteq> 0 \<or> cmod year 400 = 0)"

section \<open>From a time stamp to a date\<close>

definition year_days :: "nat \<Rightarrow> nat" where
  "year_days i = (if isleap (int i) then 366 else 365)"

function year_loop :: "nat \<Rightarrow> nat \<Rightarrow> nat \<times> nat" where
  "year_loop i work = (if work \<ge> year_days i then year_loop (i + 1) (work - year_days i) else (i, work))"
  by auto
termination
  by (relation "measure snd") (auto simp: year_days_def split: if_splits)

declare year_loop.simps [simp del]

fun month_loop :: "nat \<Rightarrow> int \<Rightarrow> nat" where
  "month_loop 0 work = 0" |
  "month_loop (Suc i) work = (if spm ! Suc i > work then month_loop i work else Suc i)"

definition rt_tz_is_dst :: int where "rt_tz_is_dst = 0"

definition rt_tz_get :: int where "rt_tz_get = 8 * 3600"

text \<open>The part of the date that depends on the day of the year.\<close>

definition day_of_year :: "bool \<Rightarrow> int \<Rightarrow> int \<times> int" where
  "day_of_year leap work =
     (let mday = (if leap \<and> work = 59 then 2 else 1);
          work = (if leap \<and> work > 58 then work - 1 else work);
          i = month_loop 11 work
      in (int i, mday + work - spm ! i))"

definition gmtime_r :: "nat \<Rightarrow> tm" where
  "gmtime_r t =
     (let work = t mod (24 * 60 * 60);
          sec = work mod 60;
          work = work div 60;
          day = t div (24 * 60 * 60);
          (i, yday) = year_loop 1970 day;
          (mon, mday) = day_of_year (isleap (int i)) (int yday)
      in \<lparr>tm_sec = int sec, tm_min = int (work mod 60), tm_hour = int (work div 60), tm_mday = mday, tm_mon = mon,
          tm_year = int i - 1900, tm_wday = int ((4 + day) mod 7), tm_yday = int yday, tm_isdst = rt_tz_is_dst\<rparr>)"

definition localtime_r :: "nat \<Rightarrow> tm" where
  "localtime_r t = gmtime_r (to_u32 (int t + rt_tz_get))"

section \<open>From a date to a time stamp\<close>

text \<open>
  \<^verbatim>\<open>timegm\<close> also leaves the normalised date in its argument; the model returns the time stamp only.
\<close>

lemma spm_pos: "1 \<le> i \<Longrightarrow> i \<le> 12 \<Longrightarrow> 31 \<le> spm ! i"
  by (auto simp: spm_def nth_Cons' eval_nat_numeral)

text \<open>The normalisation of the day; \<open>None\<close> is an access outside the table of months.\<close>

function mday_loop :: "tm \<Rightarrow> tm option" where
  "mday_loop t =
     (if \<not> (0 \<le> 1 + tm_mon t \<and> 1 + tm_mon t \<le> 12) then None
      else if tm_mday t > spm ! nat (1 + tm_mon t) then
        if tm_mon t < 0 then None
        else let t = (if tm_mon t = 1 \<and> isleap (tm_year t + 1900) then t\<lparr>tm_mday := tm_mday t - 1\<rparr> else t);
             t = t\<lparr>tm_mday := tm_mday t - spm ! nat (tm_mon t)\<rparr>;
             t = t\<lparr>tm_mon := tm_mon t + 1\<rparr>;
             t = (if tm_mon t > 11 then t\<lparr>tm_mon := 0, tm_year := tm_year t + 1\<rparr> else t)
        in mday_loop t
      else Some t)"
  by auto

termination
proof (relation "measures [\<lambda>t. nat (tm_mday t), \<lambda>t. nat (12 - tm_mon t)]", goal_cases)
  case (2 t t1 t2 t3 t4)
  have m: "31 \<le> spm ! nat (1 + tm_mon t)" using 2 by (intro spm_pos) auto
  show ?case
  proof (cases "tm_mon t = 0")
    case True
    then show ?thesis using 2 by (auto simp: spm_def)
  next
    case False
    then have "31 \<le> spm ! nat (tm_mon t)" using 2 by (intro spm_pos) auto
    then show ?thesis using 2 m by auto
  qed
qed auto

declare mday_loop.simps [simp del]

definition carry_fields :: "tm \<Rightarrow> tm" where
  "carry_fields t =
     (let t = (if tm_sec t > 60 then t\<lparr>tm_min := tm_min t + cdiv (tm_sec t) 60, tm_sec := cmod (tm_sec t) 60\<rparr> else t);
          t = (if tm_min t \<ge> 60 then t\<lparr>tm_hour := tm_hour t + cdiv (tm_min t) 60, tm_min := cmod (tm_min t) 60\<rparr> else t);
          t = (if tm_hour t \<ge> 24 then t\<lparr>tm_mday := tm_mday t + cdiv (tm_hour t) 24, tm_hour := cmod (tm_hour t) 24\<rparr> else t)
      in if tm_mon t \<ge> 12 then t\<lparr>tm_year := tm_year t + cdiv (tm_mon t) 12, tm_mon := cmod (tm_mon t) 12\<rparr> else t)"

definition days_of_years :: "nat \<Rightarrow> int" where
  "days_of_years years =
     (let day = to_u32 (int years * 365 + int (to_u32 (int years + 1)) div 4) in
      if years \<ge> 131 then
        let y = (years - 131) div 100;
            day = int day - int (y div 4 * 3 + 1);
            y = y mod 4
        in day - int (if y = 3 then y - 1 else y)
      else int day)"

definition timegm :: "tm \<Rightarrow> nat option" where
  "timegm t =
     (let years = to_u32 (tm_year t - 70) in
      case mday_loop (carry_fields t) of
        None \<Rightarrow> None
      | Some t \<Rightarrow>
          if tm_year t < 70 then Some (to_u32 (- 1))
          else if tm_mon t < 0 then None
          else
            let yday = spm ! nat (tm_mon t) + tm_mday t - 1 + (if isleap (tm_year t + 1900) \<and> tm_mon t > 1 then 1 else 0);
                day = days_of_years years + yday
            in Some (to_u32 (((day * 24 + tm_hour t) * 60 + tm_min t) * 60 + tm_sec t)))"

definition mktime :: "tm \<Rightarrow> nat option" where
  "mktime t = map_option (\<lambda>s. to_u32 (int s - rt_tz_get)) (timegm t)"

section \<open>Properties\<close>

fun days_before :: "nat \<Rightarrow> nat" where
  "days_before 0 = 0" |
  "days_before (Suc n) = days_before n + year_days (1970 + n)"

lemma isleap_nat: "isleap (int y) \<longleftrightarrow> y mod 4 = 0 \<and> (y mod 100 \<noteq> 0 \<or> y mod 400 = 0)"
proof -
  have "cmod (int y) (int k) = int (y mod k)" if "0 < k" for k
    using that by (cases "y = 0") (simp_all add: cmod_def cdiv_def zmod_int zdiv_int minus_div_mult_eq_mod)
  from this[of 4] this[of 100] this[of 400] show ?thesis by (simp add: isleap_def)
qed

lemma year_days_nat: "year_days y = (if y mod 4 = 0 \<and> (y mod 100 \<noteq> 0 \<or> y mod 400 = 0) then 366 else 365)"
  by (simp add: year_days_def isleap_nat)

lemma year_loop_spec:
  "year_loop (1970 + n) work = (i, r) \<Longrightarrow>
    \<exists>m. i = 1970 + m \<and> n \<le> m \<and> days_before n + work = days_before m + r \<and> r < year_days (1970 + m)"
proof (induction "1970 + n" work arbitrary: n rule: year_loop.induct)
  case (1 work)
  show ?case
  proof (cases "year_days (1970 + n) \<le> work")
    case True
    have "year_loop (1970 + Suc n) (work - year_days (1970 + n)) = (i, r)"
      using 1(2) True by (subst (asm) year_loop.simps) simp
    from 1(1)[OF True _ this] True show ?thesis by (auto intro: Suc_leD)
  next
    case False
    then show ?thesis using 1(2) by (subst (asm) year_loop.simps) auto
  qed
qed

lemma days_before_formula: "n \<le> 136 \<Longrightarrow> int (days_before n) = int n * 365 + int (n + 1) div 4 - (if 131 \<le> n then 1 else 0)"
proof (induction n)
  case (Suc n)
  have "list_all (\<lambda>y. year_days y = (if y mod 4 = 0 \<and> y \<noteq> 2100 then 366 else 365)) [1970..<2106]"
    by (simp add: year_days_nat)
  then have "year_days (1970 + n) = (if (1970 + n) mod 4 = 0 \<and> 1970 + n \<noteq> 2100 then 366 else 365)"
    using Suc.prems by (simp only: list_all_iff set_upt Ball_def atLeastLessThan_iff) simp
  moreover have "(1970 + n) mod 4 = 0 \<longleftrightarrow> n mod 4 = 2" by presburger
  ultimately have y: "year_days (1970 + n) = (if n mod 4 = 2 \<and> n \<noteq> 130 then 366 else 365)" by simp
  have q: "int (Suc n + 1) div 4 = int (n + 1) div 4 + (if n mod 4 = 2 then 1 else 0)" by presburger
  have "n < 130 \<or> 131 \<le> n \<or> n mod 4 = 2" by (cases "n = 130") auto
  then show ?case using Suc by (simp only: days_before.simps y q) (auto split: if_splits)
qed simp

lemma days_before_mono: "m \<le> n \<Longrightarrow> days_before m \<le> days_before n"
  by (induction n) (auto simp: le_Suc_eq)

lemma days_of_years_eq: "n \<le> 136 \<Longrightarrow> days_of_years n = int (days_before n)"
  by (subst days_before_formula) (auto simp: days_of_years_def Let_def to_u32_id)

lemma month_loop_11:
  "month_loop 11 w = (if 334 \<le> w then 11 else if 304 \<le> w then 10 else if 273 \<le> w then 9 else if 243 \<le> w then 8
     else if 212 \<le> w then 7 else if 181 \<le> w then 6 else if 151 \<le> w then 5 else if 120 \<le> w then 4
     else if 90 \<le> w then 3 else if 59 \<le> w then 2 else if 31 \<le> w then 1 else 0)"
  by (simp add: eval_nat_numeral spm_def not_less not_le)

lemma day_of_year_valid:
  assumes "0 \<le> w" and "w < (if leap then 366 else 365)" and "day_of_year leap w = (mon, mday)"
  shows "0 \<le> mon \<and> mon \<le> 11 \<and> 1 \<le> mday \<and> mday \<le> 31 \<and> spm ! nat mon + mday - 1 + (if leap \<and> mon > 1 then 1 else 0) = w"
  using assms unfolding day_of_year_def Let_def month_loop_11
  by (auto simp: spm_def split: if_splits)

lemma carry_fields_id:
  "tm_sec t \<le> 60 \<Longrightarrow> tm_min t < 60 \<Longrightarrow> tm_hour t < 24 \<Longrightarrow> tm_mon t < 12 \<Longrightarrow> carry_fields t = t"
  by (simp add: carry_fields_def)

lemma mday_loop_id:
  assumes "0 \<le> tm_mon t" and "tm_mon t \<le> 11" and "tm_mday t \<le> 31"
  shows "mday_loop t = Some t"
proof -
  have "31 \<le> spm ! nat (1 + tm_mon t)" using assms by (intro spm_pos) auto
  then show ?thesis using assms by (subst mday_loop.simps) simp
qed

definition valid_tm :: "tm \<Rightarrow> bool" where
  "valid_tm t \<longleftrightarrow> 0 \<le> tm_sec t \<and> tm_sec t < 60 \<and> 0 \<le> tm_min t \<and> tm_min t < 60 \<and> 0 \<le> tm_hour t \<and> tm_hour t < 24 \<and>
     1 \<le> tm_mday t \<and> tm_mday t \<le> 31 \<and> 0 \<le> tm_mon t \<and> tm_mon t \<le> 11 \<and> 0 \<le> tm_wday t \<and> tm_wday t < 7 \<and>
     0 \<le> tm_yday t \<and> tm_yday t < 366"

lemma gmtime_fields:
  assumes "t < 2 ^ 32"
  shows "\<exists>m r. m \<le> 136 \<and> t div 86400 = days_before m + r \<and> tm_year (gmtime_r t) = int m + 70 \<and>
    spm ! nat (tm_mon (gmtime_r t)) + tm_mday (gmtime_r t) - 1 +
      (if isleap (1970 + int m) \<and> tm_mon (gmtime_r t) > 1 then 1 else 0) = int r \<and>
    valid_tm (gmtime_r t) \<and>
    tm_sec (gmtime_r t) = int (t mod 86400 mod 60) \<and> tm_min (gmtime_r t) = int (t mod 86400 div 60 mod 60) \<and>
    tm_hour (gmtime_r t) = int (t mod 86400 div 60 div 60)"
proof -
  obtain i r where y: "year_loop (1970 + 0) (t div 86400) = (i, r)" by fastforce
  from year_loop_spec[OF this] obtain m where m: "i = 1970 + m" "t div 86400 = days_before m + r" "r < year_days (1970 + m)"
    by auto
  have "m \<le> 136"
  proof (rule ccontr)
    assume "\<not> m \<le> 136"
    then have "days_before 137 \<le> days_before m" by (intro days_before_mono) simp
    moreover have "days_before 137 = days_before 136 + year_days (1970 + 136)" using days_before.simps(2)[of 136] by simp
    moreover have "days_before 136 = 49673" using days_before_formula[of 136] by simp
    ultimately show False using m(2) assms by (simp add: year_days_nat)
  qed
  obtain mon mday where d: "day_of_year (isleap (int i)) (int r) = (mon, mday)" by fastforce
  have "r < (if isleap (int i) then 366 else 365)" using m by (simp add: year_days_def split: if_splits)
  then have v: "0 \<le> mon \<and> mon \<le> 11 \<and> 1 \<le> mday \<and> mday \<le> 31 \<and>
      spm ! nat mon + mday - 1 + (if isleap (int i) \<and> mon > 1 then 1 else 0) = int r"
    by (intro day_of_year_valid[OF _ _ d]) auto
  have "r < 366" using m(3) by (simp add: year_days_def split: if_splits)
  then have "valid_tm (gmtime_r t)"
    using y d v by (simp add: valid_tm_def gmtime_r_def Let_def)
  then show ?thesis
    using m \<open>m \<le> 136\<close> y d v by (intro exI[of _ m] exI[of _ r]) (simp add: gmtime_r_def Let_def)
qed

lemma time_digits:
  "t = d * 86400 + w \<Longrightarrow> w = v * 60 + s \<Longrightarrow> v = h * 60 + n \<Longrightarrow> ((d * 24 + h) * 60 + n) * 60 + s = (t :: nat)"
  by simp

lemma timegm_gmtime:
  assumes "t < 2 ^ 32"
  shows "timegm (gmtime_r t) = Some t"
proof -
  let ?g = "gmtime_r t"
  from gmtime_fields[OF assms] obtain m r where g: "m \<le> 136" "t div 86400 = days_before m + r" "tm_year ?g = int m + 70"
    "spm ! nat (tm_mon ?g) + tm_mday ?g - 1 + (if isleap (1970 + int m) \<and> tm_mon ?g > 1 then 1 else 0) = int r"
    "valid_tm ?g" "tm_sec ?g = int (t mod 86400 mod 60)" "tm_min ?g = int (t mod 86400 div 60 mod 60)"
    "tm_hour ?g = int (t mod 86400 div 60 div 60)" by blast
  have "carry_fields ?g = ?g" "mday_loop ?g = Some ?g"
    using g(5) by (auto simp: valid_tm_def intro: carry_fields_id mday_loop_id)
  moreover have "to_u32 (tm_year ?g - 70) = m" using g(1,3) by (simp add: to_u32_id)
  moreover have "isleap (tm_year ?g + 1900) = isleap (1970 + int m)" by (simp add: g(3) add.commute)
  moreover have "\<not> tm_mon ?g < 0" using g(5) by (simp add: valid_tm_def)
  ultimately have "timegm ?g = Some (to_u32 ((((int (days_before m) + int r) * 24 + tm_hour ?g) * 60 + tm_min ?g) * 60 + tm_sec ?g))"
    unfolding timegm_def Let_def g(4)[symmetric] by (simp add: g(3) days_of_years_eq[OF g(1)])
  also have "int (days_before m) + int r = int (t div 86400)" using g(2) by simp
  also have "((int (t div 86400) * 24 + tm_hour ?g) * 60 + tm_min ?g) * 60 + tm_sec ?g = int t"
  proof -
    have "((t div 86400 * 24 + t mod 86400 div 60 div 60) * 60 + t mod 86400 div 60 mod 60) * 60 + t mod 86400 mod 60 = t"
      by (rule time_digits[OF div_mult_mod_eq[symmetric] div_mult_mod_eq[symmetric] div_mult_mod_eq[symmetric]])
    then have "int (((t div 86400 * 24 + t mod 86400 div 60 div 60) * 60 + t mod 86400 div 60 mod 60) * 60 + t mod 86400 mod 60) = int t"
      by (rule arg_cong)
    then show ?thesis unfolding g(6-8) by (simp only: of_nat_add of_nat_mult of_nat_numeral)
  qed
  finally show ?thesis using assms by (simp add: to_u32_id)
qed

text \<open>
  C26. Every time stamp up to 2106 is converted to a valid date, and converting the date back gives
  the time stamp again, in universal and in local time; the local one wraps around with \<^verbatim>\<open>time_t\<close>.
\<close>

theorem calendar_roundtrip:
  assumes "t < 2 ^ 32"
  shows "valid_tm (gmtime_r t) \<and> timegm (gmtime_r t) = Some t \<and> valid_tm (localtime_r t) \<and> mktime (localtime_r t) = Some t"
proof -
  have v: "valid_tm (gmtime_r s)" if "s < 2 ^ 32" for s using gmtime_fields[OF that] by blast
  define s where "s = to_u32 (int t + rt_tz_get)"
  have s: "s < 2 ^ 32" by (simp add: s_def to_u32_def nat_less_iff)
  have "to_u32 (int s - rt_tz_get) = t"
  proof -
    have "(int s - rt_tz_get) mod 2 ^ 32 = int t mod 2 ^ 32"
      by (simp add: s_def to_u32_def mod_diff_left_eq)
    then show ?thesis using assms by (simp add: to_u32_def)
  qed
  then show ?thesis
    using v[OF assms] v[OF s] timegm_gmtime[OF assms] timegm_gmtime[OF s]
    by (simp add: localtime_r_def mktime_def s_def)
qed

theorem calendar_roundtrip_witness:
  "timegm (gmtime_r 1749600000) = Some 1749600000 \<and> mktime (localtime_r 4294967295) = Some 4294967295"
  using calendar_roundtrip[of 1749600000] calendar_roundtrip[of 4294967295] by simp

end
