(* ===== verification/Alarmsvc.thy ===== *)
theory Alarmsvc
  imports Calendar
begin

text \<open>
  The alarm service of RT-Thread (\<^verbatim>\<open>src/rt-thread/components/drivers/rtc/alarm.c\<close>) on the alarm of the
  STM32 clock (\<^verbatim>\<open>src/libraries/HAL_Drivers/drivers/drv_rtc.c\<close>): a list of alarms of which the
  hardware holds the next one. A pointer to an alarm is its handle, the flag word appears as its mode
  bits and its two state bits, and the callbacks that run are recorded in order. The mutex serialises
  the operations, so each is one step; the clock is read where the code reads it first, and again after
  the callbacks of an update, which may take seconds. Comparing a one-shot alarm with the clock also
  stores the day of the year in its date, which nothing reads; the model leaves that out. \<open>None\<close> is the use of an alarm that does not exist
  or an access outside the table of months.
\<close>

section \<open>Data\<close>

definition RT_ALARM_TM_NOW :: int where "RT_ALARM_TM_NOW = - 1"
definition RT_ALARM_ONESHOT :: nat where "RT_ALARM_ONESHOT = 0x000"
definition RT_ALARM_DAILY :: nat where "RT_ALARM_DAILY = 0x100"
definition RT_ALARM_WEEKLY :: nat where "RT_ALARM_WEEKLY = 0x200"
definition RT_ALARM_MONTHLY :: nat where "RT_ALARM_MONTHLY = 0x400"
definition RT_ALARM_YAERLY :: nat where "RT_ALARM_YAERLY = 0x800"
definition RT_ALARM_HOUR :: nat where "RT_ALARM_HOUR = 0x1000"
definition RT_ALARM_MINUTE :: nat where "RT_ALARM_MINUTE = 0x2000"
definition RT_ALARM_SECOND :: nat where "RT_ALARM_SECOND = 0x4000"
definition RT_ALARM_CTRL_MODIFY :: nat where "RT_ALARM_CTRL_MODIFY = 1"
definition RT_ALARM_DELAY :: nat where "RT_ALARM_DELAY = 2"
definition RT_RTC_YEARS_MAX :: int where "RT_RTC_YEARS_MAX = 137"

lemmas alarm_modes = RT_ALARM_ONESHOT_def RT_ALARM_DAILY_def RT_ALARM_WEEKLY_def RT_ALARM_MONTHLY_def RT_ALARM_YAERLY_def
  RT_ALARM_HOUR_def RT_ALARM_MINUTE_def RT_ALARM_SECOND_def

datatype alarm_callback = User_alarm_callback | Alarm_cb

record rt_alarm_setup =
  setup_flag :: nat
  setup_wktime :: tm

record rt_alarm =
  handle :: nat
  callback :: alarm_callback
  alarm_mode :: nat
  inited :: bool
  started :: bool
  wktime :: tm

record rt_rtc_wkalarm =
  wk_enable :: bool
  wk_sec :: int
  wk_min :: int
  wk_hour :: int
  wk_mday :: int
  wk_mon :: int
  wk_year :: int

text \<open>The clock device: its copy of the alarm, and alarm A of the hardware as hours, minutes, seconds.\<close>

record rtc_device_object =
  rtc_found :: bool
  wkalarm :: rt_rtc_wkalarm
  alarm_a :: "(int \<times> int \<times> int) option"

record alarm_service =
  next_handle :: nat
  alarm_list :: "rt_alarm list"
  current :: "nat option"
  rtc :: rtc_device_object
  rung :: "nat list"
  myalarm :: "nat option"

text \<open>
  One call: the clock at its start and after the callbacks, whether an allocation succeeds, and the
  contents of a structure on the stack before its fields are set.
\<close>

record alarm_env =
  time_now :: nat
  time_after :: nat
  malloc_ok :: bool
  stack_tm :: tm

definition find_alarm :: "nat \<Rightarrow> alarm_service \<Rightarrow> rt_alarm option" where
  "find_alarm h v = List.find (\<lambda>a. handle a = h) (alarm_list v)"

definition update_alarm :: "nat \<Rightarrow> (rt_alarm \<Rightarrow> rt_alarm) \<Rightarrow> alarm_service \<Rightarrow> alarm_service" where
  "update_alarm h f v = v\<lparr>alarm_list := map (\<lambda>a. if handle a = h then f a else a) (alarm_list v)\<rparr>"

section \<open>The clock device\<close>

definition rtc_alarm_time_set :: "rtc_device_object \<Rightarrow> rtc_device_object" where
  "rtc_alarm_time_set dev =
     (if wk_enable (wkalarm dev) then dev\<lparr>alarm_a := Some (wk_hour (wkalarm dev), wk_min (wkalarm dev), wk_sec (wkalarm dev))\<rparr>
      else dev)"

definition stm32_rtc_set_alarm :: "rt_rtc_wkalarm \<Rightarrow> rtc_device_object \<Rightarrow> int \<times> rtc_device_object" where
  "stm32_rtc_set_alarm wk dev = (RT_EOK, rtc_alarm_time_set (dev\<lparr>wkalarm := wk\<rparr>))"

definition stm32_rtc_get_alarm :: "rtc_device_object \<Rightarrow> int \<times> rt_rtc_wkalarm" where
  "stm32_rtc_get_alarm dev = (RT_EOK, wkalarm dev)"

section \<open>Programming the alarm\<close>

definition alarm_mkdaysec :: "tm \<Rightarrow> nat" where
  "alarm_mkdaysec t = to_u32 (tm_sec t + tm_min t * 60 + tm_hour t * 3600)"

definition alarm_set :: "nat \<Rightarrow> alarm_service \<Rightarrow> (int \<times> alarm_service) option" where
  "alarm_set h v =
     (if \<not> rtc_found (rtc v) then Some (RT_ERROR, v)
      else do {
        a \<leftarrow> find_alarm h v;
        let t = wktime a;
        let wk = \<lparr>wk_enable = started a, wk_sec = tm_sec t, wk_min = tm_min t, wk_hour = tm_hour t,
          wk_mday = tm_mday t, wk_mon = tm_mon t, wk_year = tm_year t\<rparr>;
        let (ret, dev) = stm32_rtc_set_alarm wk (rtc v);
        let v = v\<lparr>rtc := dev\<rparr>;
        if ret = RT_EOK \<and> wk_enable wk then
          let (ret, wk) = stm32_rtc_get_alarm (rtc v);
              v = (if ret = RT_EOK
                then update_alarm h (\<lambda>a. a\<lparr>wktime := (wktime a)\<lparr>tm_sec := wk_sec wk, tm_min := wk_min wk, tm_hour := wk_hour wk,
                  tm_mday := wk_mday wk, tm_mon := wk_mon wk, tm_year := wk_year wk\<rparr>\<rparr>) v
                else v)
          in Some (ret, v)
        else Some (ret, v) })"

section \<open>Waking up\<close>

text \<open>The time of day one second, one minute and one hour on, as the code carries it over.\<close>

definition carry_hour :: "tm \<Rightarrow> tm" where
  "carry_hour t = (if tm_hour t > 23 then t\<lparr>tm_hour := 0\<rparr> else t)"

definition carry_min :: "tm \<Rightarrow> tm" where
  "carry_min t = (if tm_min t > 59 then carry_hour (t\<lparr>tm_min := 0, tm_hour := tm_hour t + 1\<rparr>) else t)"

definition carry_sec :: "tm \<Rightarrow> tm" where
  "carry_sec t = (if tm_sec t > 59 then carry_min (t\<lparr>tm_sec := 0, tm_min := tm_min t + 1\<rparr>) else t)"

definition next_second :: "tm \<Rightarrow> tm \<Rightarrow> tm" where
  "next_second now t = carry_sec (t\<lparr>tm_hour := tm_hour now, tm_min := tm_min now, tm_sec := tm_sec now + 1\<rparr>)"

definition next_minute :: "tm \<Rightarrow> tm \<Rightarrow> tm" where
  "next_minute now t = carry_min (t\<lparr>tm_hour := tm_hour now, tm_min := tm_min now + 1\<rparr>)"

definition next_hour :: "tm \<Rightarrow> tm \<Rightarrow> tm" where
  "next_hour now t = carry_hour (t\<lparr>tm_hour := tm_hour now + 1\<rparr>)"

definition due :: "nat \<Rightarrow> nat \<Rightarrow> bool" where
  "due sec_now sec_alarm \<longleftrightarrow> to_u32 (int sec_now - int sec_alarm) \<le> RT_ALARM_DELAY"

text \<open>Whether an alarm that is started wakes up, and the alarm afterwards, apart from the one-shot alarm.\<close>

definition repeat_wakeup :: "tm \<Rightarrow> rt_alarm \<Rightarrow> bool \<times> rt_alarm" where
  "repeat_wakeup now a =
     (let w = wktime a; sec_alarm = alarm_mkdaysec w; sec_now = alarm_mkdaysec now in
      if alarm_mode a = RT_ALARM_SECOND then (True, a\<lparr>wktime := next_second now w\<rparr>)
      else if alarm_mode a = RT_ALARM_MINUTE then
        if tm_sec w = tm_sec now then (True, a\<lparr>wktime := next_minute now w\<rparr>)
        else (False, a\<lparr>wktime := w\<lparr>tm_hour := tm_hour now\<rparr>\<rparr>)
      else if alarm_mode a = RT_ALARM_HOUR then
        if tm_min w = tm_min now \<and> tm_sec w = tm_sec now then (True, a\<lparr>wktime := next_hour now w\<rparr>) else (False, a)
      else if alarm_mode a = RT_ALARM_DAILY then (due sec_now sec_alarm \<and> sec_now \<ge> sec_alarm, a)
      else if alarm_mode a = RT_ALARM_WEEKLY then
        (tm_wday w = tm_wday now \<and>
         to_u32 (int sec_now + tm_wday now * 24 * 3600) = to_u32 (int sec_alarm + tm_wday w * 24 * 3600), a)
      else if alarm_mode a = RT_ALARM_MONTHLY then (tm_mday w = tm_mday now \<and> due sec_now sec_alarm, a)
      else if alarm_mode a = RT_ALARM_YAERLY then
        (tm_mday w = tm_mday now \<and> tm_mon w = tm_mon now \<and> due sec_now sec_alarm, a)
      else (False, a))"

definition alarm_wakeup :: "tm \<Rightarrow> nat \<Rightarrow> alarm_service \<Rightarrow> alarm_service option" where
  "alarm_wakeup now h v = do {
     a \<leftarrow> find_alarm h v;
     if \<not> started a then Some v
     else do {
       (wakeup, v) \<leftarrow>
         (if alarm_mode a = RT_ALARM_ONESHOT then do {
            sec_alarm \<leftarrow> timegm (wktime a);
            sec_now \<leftarrow> timegm now;
            if due sec_now sec_alarm \<and> sec_now \<ge> sec_alarm then do {
              (_, v) \<leftarrow> alarm_set h (update_alarm h (\<lambda>a. a\<lparr>started := False\<rparr>) v);
              Some (True, v) }
            else Some (False, v) }
          else case repeat_wakeup now a of (wakeup, a') \<Rightarrow> Some (wakeup, update_alarm h (\<lambda>_. a') v));
       Some (if wakeup then v\<lparr>rung := rung v @ [h]\<rparr> else v) } }"

section \<open>Choosing the next alarm\<close>

definition scan :: "int \<Rightarrow> rt_alarm list \<Rightarrow> (int \<times> nat option) \<times> (int \<times> nat option)" where
  "scan sec_now as = fold (\<lambda>a ((sec_next, alm_next), (sec_prev, alm_prev)).
     if \<not> started a then ((sec_next, alm_next), (sec_prev, alm_prev))
     else let sec_tmp = int (alarm_mkdaysec (wktime a)) - sec_now in
       if sec_tmp > 0 then
         if sec_tmp < sec_next then ((sec_tmp, Some (handle a)), (sec_prev, alm_prev)) else ((sec_next, alm_next), (sec_prev, alm_prev))
       else
         if sec_tmp < sec_prev then ((sec_next, alm_next), (sec_tmp, Some (handle a))) else ((sec_next, alm_next), (sec_prev, alm_prev)))
     as ((24 * 3600, None), (0, None))"

definition alarm_arm :: "nat option \<Rightarrow> alarm_service \<Rightarrow> alarm_service option" where
  "alarm_arm alm v = do {
     h \<leftarrow> alm;
     (ret, v) \<leftarrow> alarm_set h v;
     Some (if ret = RT_EOK then v\<lparr>current := Some h\<rparr> else v) }"

definition alarm_update :: "alarm_env \<Rightarrow> alarm_service \<Rightarrow> alarm_service option" where
  "alarm_update e v =
     (if alarm_list v = [] then Some v
      else do {
        v \<leftarrow> for_each (alarm_wakeup (gmtime_r (time_now e))) (map handle (alarm_list v)) v;
        let sec_now = int (alarm_mkdaysec (gmtime_r (time_after e)));
        let ((sec_next, alm_next), (sec_prev, alm_prev)) = scan sec_now (alarm_list v);
        if sec_next < 24 * 3600 then alarm_arm alm_next v
        else if sec_prev < 0 then alarm_arm alm_prev v
        else (case current v of
            None \<Rightarrow> Some v
          | Some h \<Rightarrow> do {
              (_, v) \<leftarrow> alarm_set h v;
              a \<leftarrow> find_alarm h v;
              Some (if \<not> started a then v\<lparr>current := None\<rparr> else v) }) })"

section \<open>Setting up\<close>

definition days_of_year_month :: "int \<Rightarrow> int \<Rightarrow> int" where
  "days_of_year_month y mon =
     (let year = y + 1900 in
      if mon = 1 then 28 + (if cmod year 4 = 0 \<and> cmod year 100 \<noteq> 0 \<or> cmod year 400 = 0 then 1 else 0)
      else if mon \<le> 6 \<and> cmod mon 2 = 0 \<or> mon > 6 \<and> cmod mon 2 = 1 then 31
      else 30)"

definition is_valid_date :: "tm \<Rightarrow> bool" where
  "is_valid_date date \<longleftrightarrow>
     \<not> (tm_year date < 0 \<or> tm_year date > RT_RTC_YEARS_MAX) \<and> \<not> (tm_mon date < 0 \<or> tm_mon date > 11) \<and>
     \<not> (tm_mday date < 1 \<or> tm_mday date > days_of_year_month (tm_year date) (tm_mon date))"

definition yearly_mday :: "tm \<Rightarrow> tm \<Rightarrow> tm" where
  "yearly_mday now t =
     (let last = (if tm_mon t = 1 then 29
        else if tm_mon t \<le> 6 \<and> cmod (tm_mon t) 2 = 0 \<or> tm_mon t > 6 \<and> cmod (tm_mon t) 2 = 1 then 31 else 30)
      in if tm_mday t < 1 \<or> tm_mday t > last then t\<lparr>tm_mday := tm_mday now\<rparr> else t)"

text \<open>The date and time after the "don't care" values are filled in; \<open>None\<close> is a refused setup.\<close>

definition setup_time :: "nat \<Rightarrow> tm \<Rightarrow> tm \<Rightarrow> tm \<times> bool" where
  "setup_time m now t =
     (let t = (if tm_sec t > 59 \<or> tm_sec t < 0 then t\<lparr>tm_sec := tm_sec now\<rparr> else t);
          t = (if tm_min t > 59 \<or> tm_min t < 0 then t\<lparr>tm_min := tm_min now\<rparr> else t);
          t = (if tm_hour t > 23 \<or> tm_hour t < 0 then t\<lparr>tm_hour := tm_hour now\<rparr> else t)
      in if m = RT_ALARM_SECOND then (next_second now t, True)
         else if m = RT_ALARM_MINUTE then (next_minute now t, True)
         else if m = RT_ALARM_HOUR then (next_hour now t, True)
         else if m = RT_ALARM_DAILY then (t, True)
         else if m = RT_ALARM_ONESHOT then
           let t = (if tm_year t = RT_ALARM_TM_NOW then t\<lparr>tm_year := tm_year now\<rparr> else t);
               t = (if tm_mon t = RT_ALARM_TM_NOW then t\<lparr>tm_mon := tm_mon now\<rparr> else t);
               t = (if tm_mday t = RT_ALARM_TM_NOW then t\<lparr>tm_mday := tm_mday now\<rparr> else t)
           in (t, is_valid_date t)
         else if m = RT_ALARM_WEEKLY then
           (if tm_wday t < 0 \<or> tm_wday t > 6 then t\<lparr>tm_wday := tm_wday now\<rparr> else t, True)
         else if m = RT_ALARM_MONTHLY then
           (if tm_mday t < 1 \<or> tm_mday t > 31 then t\<lparr>tm_mday := tm_mday now\<rparr> else t, True)
         else if m = RT_ALARM_YAERLY then
           (yearly_mday now (if tm_mon t < 0 \<or> tm_mon t > 11 then t\<lparr>tm_mon := tm_mon now\<rparr> else t), True)
         else (t, False))"

definition ahead_of_midnight :: "tm \<Rightarrow> tm" where
  "ahead_of_midnight t =
     (if tm_hour t = 23 \<and> tm_min t = 59 \<and> tm_sec t = 59 then t\<lparr>tm_sec := 60 - int RT_ALARM_DELAY\<rparr> else t)"

definition alarm_setup :: "alarm_env \<Rightarrow> nat \<Rightarrow> tm \<Rightarrow> alarm_service \<Rightarrow> (int \<times> alarm_service) option" where
  "alarm_setup e h t v = do {
     a \<leftarrow> find_alarm h v;
     case setup_time (alarm_mode a) (gmtime_r (time_now e)) t of (t, valid) \<Rightarrow>
       if \<not> valid then Some (- RT_ERROR, update_alarm h (\<lambda>a. a\<lparr>wktime := t\<rparr>) v)
       else Some (RT_EOK, update_alarm h (\<lambda>a. a\<lparr>wktime := ahead_of_midnight t, inited := True\<rparr>) v) }"

section \<open>The interface\<close>

definition rt_alarm_start :: "alarm_env \<Rightarrow> nat \<Rightarrow> alarm_service \<Rightarrow> (int \<times> alarm_service) option" where
  "rt_alarm_start e h v = do {
     a \<leftarrow> find_alarm h v;
     if started a then Some (RT_EOK, v)
     else do {
       (ret, v) \<leftarrow> alarm_setup e h (wktime a) v;
       if ret \<noteq> RT_EOK then Some (- RT_ERROR, v)
       else do {
         let now = gmtime_r (time_now e);
         let v = update_alarm h (\<lambda>a. a\<lparr>started := True\<rparr>) v;
         a \<leftarrow> find_alarm h v;
         let sec_now = int (alarm_mkdaysec now);
         let sec_new = int (alarm_mkdaysec (wktime a));
         sooner \<leftarrow> (case current v of
             None \<Rightarrow> Some True
           | Some c \<Rightarrow> do {
               b \<leftarrow> find_alarm c v;
               let sec_old = int (alarm_mkdaysec (wktime b));
               Some (sec_new < sec_old \<and> sec_new > sec_now \<or> sec_new > sec_now \<and> sec_old < sec_now \<or>
                     sec_new < sec_old \<and> sec_old < sec_now) });
         if sooner then do {
           (ret, v) \<leftarrow> alarm_set h v;
           Some (ret, if ret = RT_EOK then v\<lparr>current := Some h\<rparr> else v) }
         else Some (RT_EOK, v) } } }"

definition rt_alarm_stop :: "alarm_env \<Rightarrow> nat \<Rightarrow> alarm_service \<Rightarrow> (int \<times> alarm_service) option" where
  "rt_alarm_stop e h v = do {
     a \<leftarrow> find_alarm h v;
     if \<not> started a then Some (RT_EOK, v)
     else do {
       let v = update_alarm h (\<lambda>a. a\<lparr>started := False\<rparr>) v;
       (ret, v) \<leftarrow> (if current v = Some h then do { (ret, v) \<leftarrow> alarm_set h v; Some (ret, v\<lparr>current := None\<rparr>) } else Some (RT_EOK, v));
       v \<leftarrow> (if ret = RT_EOK then alarm_update e v else Some v);
       Some (ret, v) } }"

definition rt_alarm_delete :: "alarm_env \<Rightarrow> nat \<Rightarrow> alarm_service \<Rightarrow> (int \<times> alarm_service) option" where
  "rt_alarm_delete e h v = do {
     _ \<leftarrow> find_alarm h v;
     let v = update_alarm h (\<lambda>a. a\<lparr>started := False\<rparr>) v;
     (ret, v) \<leftarrow> (if current v = Some h then do {
         (ret, v) \<leftarrow> alarm_set h v;
         v \<leftarrow> alarm_update e (v\<lparr>current := None\<rparr>);
         Some (ret, v) }
       else Some (RT_EOK, v));
     Some (ret, v\<lparr>alarm_list := List.filter (\<lambda>a. handle a \<noteq> h) (alarm_list v)\<rparr>) }"

definition rt_alarm_create :: "alarm_env \<Rightarrow> alarm_callback \<Rightarrow> rt_alarm_setup \<Rightarrow> alarm_service \<Rightarrow> nat option \<times> alarm_service" where
  "rt_alarm_create e cb setup v =
     (if malloc_ok e
      then (Some (next_handle v), v\<lparr>next_handle := next_handle v + 1, alarm_list :=
        \<lparr>handle = next_handle v, callback = cb, alarm_mode = setup_flag setup div 256 mod 256 * 256, inited = False, started = False,
         wktime = setup_wktime setup\<rparr> # alarm_list v\<rparr>)
      else (None, v))"

definition rt_alarm_control :: "alarm_env \<Rightarrow> nat \<Rightarrow> nat \<Rightarrow> rt_alarm_setup \<Rightarrow> alarm_service \<Rightarrow> (int \<times> alarm_service) option" where
  "rt_alarm_control e h cmd setup v =
     (if cmd = RT_ALARM_CTRL_MODIFY then do {
        (_, v) \<leftarrow> rt_alarm_stop e h v;
        let v = update_alarm h (\<lambda>a. a\<lparr>alarm_mode := setup_flag setup div 256 mod 256 * 256, inited := False, started := False,
          wktime := setup_wktime setup\<rparr>) v;
        alarm_setup e h (setup_wktime setup) v }
      else Some (- RT_ERROR, v))"


section \<open>Properties\<close>

text \<open>Every alarm that runs has a time of day, and a one-shot alarm a date as well.\<close>

definition time_ok :: "tm \<Rightarrow> bool" where
  "time_ok t \<longleftrightarrow> 0 \<le> tm_sec t \<and> tm_sec t < 60 \<and> 0 \<le> tm_min t \<and> tm_min t < 60 \<and> 0 \<le> tm_hour t \<and> tm_hour t < 24"

definition date_ok :: "tm \<Rightarrow> bool" where
  "date_ok t \<longleftrightarrow> 0 \<le> tm_mon t \<and> tm_mon t \<le> 11 \<and> tm_mday t \<le> 31"

definition alarm_ok :: "rt_alarm \<Rightarrow> bool" where
  "alarm_ok a \<longleftrightarrow> (started a \<longrightarrow> time_ok (wktime a) \<and> (alarm_mode a = RT_ALARM_ONESHOT \<longrightarrow> date_ok (wktime a)))"

definition service_ok :: "alarm_service \<Rightarrow> bool" where
  "service_ok v \<longleftrightarrow> distinct (map handle (alarm_list v)) \<and> (\<forall>a \<in> set (alarm_list v). handle a < next_handle v \<and> alarm_ok a) \<and>
     (case current v of None \<Rightarrow> True | Some h \<Rightarrow> h \<in> handle ` set (alarm_list v))"

lemma timegm_defined:
  assumes "time_ok t" and "date_ok t"
  shows "\<exists>s. timegm t = Some s \<and> s < 2 ^ 32"
proof -
  have "carry_fields t = t" "mday_loop t = Some t"
    using assms by (auto simp: time_ok_def date_ok_def intro!: carry_fields_id mday_loop_id)
  then show ?thesis using assms to_u32_bound by (auto simp: timegm_def Let_def date_ok_def)
qed

lemma gmtime_ok:
  assumes "t < 2 ^ 32"
  shows "time_ok (gmtime_r t)" "date_ok (gmtime_r t)"
  using gmtime_fields[OF assms] by (auto simp: valid_tm_def time_ok_def date_ok_def)

lemma find_alarm_mem: "find_alarm h v = Some a \<Longrightarrow> a \<in> set (alarm_list v) \<and> handle a = h"
  by (auto simp: find_alarm_def find_Some_iff)

lemma find_alarm_Some:
  assumes "distinct (map handle (alarm_list v))" and "a \<in> set (alarm_list v)"
  shows "find_alarm (handle a) v = Some a"
proof (cases "find_alarm (handle a) v")
  case None
  then show ?thesis using assms(2) by (auto simp: find_alarm_def find_None_iff)
next
  case (Some b)
  with find_alarm_mem[OF Some] assms show ?thesis by (auto simp: distinct_map dest: inj_onD)
qed

lemma find_alarm_ex:
  assumes "h \<in> handle ` set (alarm_list v)"
  shows "\<exists>a. find_alarm h v = Some a"
  using assms by (cases "find_alarm h v") (auto simp: find_alarm_def find_None_iff)

lemma update_alarm_same: "(\<And>a. a \<in> set (alarm_list v) \<Longrightarrow> handle a = h \<Longrightarrow> f a = a) \<Longrightarrow> update_alarm h f v = v"
proof -
  assume "\<And>a. a \<in> set (alarm_list v) \<Longrightarrow> handle a = h \<Longrightarrow> f a = a"
  then have "map (\<lambda>a. if handle a = h then f a else a) (alarm_list v) = alarm_list v" by (intro map_idI) auto
  then show ?thesis by (cases v) (simp add: update_alarm_def)
qed

text \<open>Programming an alarm changes the device only; a device that is there takes the alarm.\<close>

lemma alarm_set_run:
  assumes "distinct (map handle (alarm_list v))" and "find_alarm h v = Some a"
  shows "\<exists>ret dev. alarm_set h v = Some (ret, v\<lparr>rtc := dev\<rparr>) \<and> rtc_found dev = rtc_found (rtc v) \<and>
    (if rtc_found (rtc v) then ret = RT_EOK else ret = RT_ERROR) \<and>
    (rtc_found (rtc v) \<and> started a \<longrightarrow> alarm_a dev = Some (tm_hour (wktime a), tm_min (wktime a), tm_sec (wktime a)))"
proof -
  have u: "b = a" if "b \<in> set (alarm_list v)" "handle b = h" for b
    using assms find_alarm_mem[OF assms(2)] that by (auto simp: distinct_map dest: inj_onD)
  have s: "update_alarm h (\<lambda>b. b\<lparr>wktime := (wktime b)\<lparr>tm_sec := tm_sec (wktime a), tm_min := tm_min (wktime a), tm_hour := tm_hour (wktime a),
      tm_mday := tm_mday (wktime a), tm_mon := tm_mon (wktime a), tm_year := tm_year (wktime a)\<rparr>\<rparr>) (v\<lparr>rtc := d\<rparr>) = v\<lparr>rtc := d\<rparr>" for d
    by (rule update_alarm_same) (use u in auto)
  show ?thesis
  proof (cases "rtc_found (rtc v)")
    case True
    then show ?thesis
      using assms(2) s by (auto simp: alarm_set_def stm32_rtc_set_alarm_def stm32_rtc_get_alarm_def rtc_alarm_time_set_def Let_def)
  next
    case False
    then show ?thesis by (auto simp: alarm_set_def intro!: exI[of _ "rtc v"])
  qed
qed

text \<open>What an update does to one alarm, and whether it rings.\<close>

definition wake :: "tm \<Rightarrow> rt_alarm \<Rightarrow> bool \<times> rt_alarm" where
  "wake now a =
     (if \<not> started a then (False, a)
      else if alarm_mode a = RT_ALARM_ONESHOT then
        (case (timegm (wktime a), timegm now) of
           (Some sec_alarm, Some sec_now) \<Rightarrow>
             if due sec_now sec_alarm \<and> sec_now \<ge> sec_alarm then (True, a\<lparr>started := False\<rparr>) else (False, a)
         | _ \<Rightarrow> (False, a))
      else repeat_wakeup now a)"

lemma next_ok:
  assumes "time_ok now" and "time_ok t"
  shows "time_ok (next_second now t)" "time_ok (next_minute now t)" "time_ok (next_hour now t)" "time_ok (t\<lparr>tm_hour := tm_hour now\<rparr>)"
  using assms by (auto simp: time_ok_def next_second_def next_minute_def next_hour_def carry_sec_def carry_min_def carry_hour_def)

lemma wake_ok:
  assumes "alarm_ok a" and "time_ok now"
  shows "alarm_ok (snd (wake now a)) \<and> handle (snd (wake now a)) = handle a \<and> callback (snd (wake now a)) = callback a \<and>
    alarm_mode (snd (wake now a)) = alarm_mode a"
  using assms next_ok[OF assms(2)]
  by (auto simp: wake_def repeat_wakeup_def alarm_ok_def Let_def split: option.splits)


lemma alarm_wakeup_run:
  assumes "distinct (map handle (alarm_list v))" and "find_alarm h v = Some a" and "alarm_ok a" and "now = gmtime_r t" and "t < 2 ^ 32"
  shows "\<exists>dev. alarm_wakeup now h v = Some ((update_alarm h (\<lambda>_. snd (wake now a)) v)\<lparr>rtc := dev,
      rung := rung v @ (if fst (wake now a) then [h] else [])\<rparr>) \<and> rtc_found dev = rtc_found (rtc v)"
proof -
  have h: "handle a = h" using find_alarm_mem[OF assms(2)] by simp
  have u: "b = a" if "b \<in> set (alarm_list v)" "handle b = h" for b
    using assms(1,2) find_alarm_mem[OF assms(2)] that by (auto simp: distinct_map dest: inj_onD)
  have same: "update_alarm h (\<lambda>_. a) v = v" by (rule update_alarm_same) (use u in auto)
  have stop: "update_alarm h (\<lambda>a. a\<lparr>started := False\<rparr>) v = update_alarm h (\<lambda>_. a\<lparr>started := False\<rparr>) v"
    using u by (auto simp: update_alarm_def intro!: arg_cong[where f = "\<lambda>x. alarm_list_update (\<lambda>_. x) v"])
  have id: "v = v\<lparr>rtc := rtc v, rung := rung v\<rparr>" by simp
  show ?thesis
  proof (cases "started a \<and> alarm_mode a = RT_ALARM_ONESHOT")
    case True
    then obtain sa sn where s: "timegm (wktime a) = Some sa" "timegm now = Some sn"
      using assms(3) timegm_defined[of "wktime a"] timegm_defined[of now] gmtime_ok[OF assms(5)] by (auto simp: alarm_ok_def assms(4))
    show ?thesis
    proof (cases "due sn sa \<and> sa \<le> sn")
      case due: True
      let ?v = "update_alarm h (\<lambda>_. a\<lparr>started := False\<rparr>) v"
      have "map handle (alarm_list ?v) = map handle (alarm_list v)" using h by (simp add: update_alarm_def comp_def)
      then have d: "distinct (map handle (alarm_list ?v))" using assms(1) by simp
      have "h \<in> handle ` set (alarm_list v)" using find_alarm_mem[OF assms(2)] by auto
      then have "h \<in> handle ` set (alarm_list ?v)" using \<open>map handle (alarm_list ?v) = _\<close> by (metis set_map)
      then obtain b where "find_alarm h ?v = Some b" using find_alarm_ex by blast
      from alarm_set_run[OF d this] obtain ret dev where
        "alarm_set h ?v = Some (ret, ?v\<lparr>rtc := dev\<rparr>)" "rtc_found dev = rtc_found (rtc ?v)" by blast
      then show ?thesis
        using True s due assms(2) stop by (auto simp: alarm_wakeup_def wake_def update_alarm_def)
    next
      case False
      then show ?thesis using True s assms(2) same id
        by (auto simp: alarm_wakeup_def wake_def intro!: exI[of _ "rtc v"])
    qed
  next
    case False
    obtain w b where r: "repeat_wakeup now a = (w, b)" by fastforce
    show ?thesis
      using False assms(2) same r id
      by (cases "started a") (auto simp: alarm_wakeup_def wake_def update_alarm_def intro!: exI[of _ "rtc v"])
  qed
qed


text \<open>The whole round of an update: the alarms in their order, each as it was when the round began.\<close>

lemma wakeups_run:
  assumes "distinct (map handle (done @ rest))" and "alarm_list v = map (\<lambda>a. snd (wake now a)) done @ rest"
    and "list_all alarm_ok (done @ rest)" and "now = gmtime_r t" and "t < 2 ^ 32"
  shows "\<exists>dev. for_each (alarm_wakeup now) (map handle rest) v =
      Some (v\<lparr>alarm_list := map (\<lambda>a. snd (wake now a)) (done @ rest), rtc := dev,
        rung := rung v @ map handle (List.filter (\<lambda>a. fst (wake now a)) rest)\<rparr>) \<and> rtc_found dev = rtc_found (rtc v)"
  using assms
proof (induction rest arbitrary: "done" v)
  case Nil
  then show ?case by (intro exI[of _ "rtc v"]) (cases v; simp)
next
  case (Cons a rest)
  have tn: "time_ok now" using gmtime_ok(1)[OF Cons.prems(5)] Cons.prems(4) by simp
  have ok: "alarm_ok a" using Cons.prems(3) by simp
  have hd: "map handle (map (\<lambda>a. snd (wake now a)) done) = map handle done"
    using Cons.prems(3) wake_ok tn by (auto simp: list_all_iff)
  then have dist: "distinct (map handle (alarm_list v))" using Cons.prems(1) by (simp add: Cons.prems(2) del: map_map)
  then have f: "find_alarm (handle a) v = Some a" by (rule find_alarm_Some) (simp add: Cons.prems(2))
  from alarm_wakeup_run[OF dist f ok Cons.prems(4,5)] obtain dev where
    w: "alarm_wakeup now (handle a) v = Some ((update_alarm (handle a) (\<lambda>_. snd (wake now a)) v)\<lparr>rtc := dev,
      rung := rung v @ (if fst (wake now a) then [handle a] else [])\<rparr>)" "rtc_found dev = rtc_found (rtc v)" by blast
  let ?v = "(update_alarm (handle a) (\<lambda>_. snd (wake now a)) v)\<lparr>rtc := dev,
      rung := rung v @ (if fst (wake now a) then [handle a] else [])\<rparr>"
  have "handle a \<notin> handle ` set rest" "handle a \<notin> handle ` set (map (\<lambda>a. snd (wake now a)) done)"
    using dist by (auto simp: Cons.prems(2))
  then have l: "alarm_list ?v = map (\<lambda>a. snd (wake now a)) (done @ [a]) @ rest"
    by (auto simp: update_alarm_def Cons.prems(2) image_iff intro!: map_idI)
  have "\<exists>dev'. for_each (alarm_wakeup now) (map handle rest) ?v =
      Some (?v\<lparr>alarm_list := map (\<lambda>a. snd (wake now a)) ((done @ [a]) @ rest), rtc := dev',
        rung := rung ?v @ map handle (List.filter (\<lambda>a. fst (wake now a)) rest)\<rparr>) \<and> rtc_found dev' = rtc_found (rtc ?v)"
    by (rule Cons.IH[OF _ l]) (use Cons.prems in auto)
  then show ?case using w by (auto simp: update_alarm_def)
qed

text \<open>The distance of an alarm: the seconds until its time of day comes round.\<close>

definition offset :: "int \<Rightarrow> rt_alarm \<Rightarrow> int" where
  "offset sec_now a = int (alarm_mkdaysec (wktime a)) - sec_now"

definition distance :: "int \<Rightarrow> rt_alarm \<Rightarrow> int" where
  "distance sec_now a = (if offset sec_now a > 0 then offset sec_now a else offset sec_now a + 24 * 3600)"

lemma scan_spec:
  assumes "scan sec_now as = ((sn, an), (sp, ap))"
  shows "(sn = 24 * 3600 \<and> an = None \<or> sn < 24 * 3600 \<and> (\<exists>a\<in>set as. started a \<and> an = Some (handle a) \<and> offset sec_now a = sn \<and> 0 < sn)) \<and>
    (\<forall>a\<in>set as. started a \<and> 0 < offset sec_now a \<longrightarrow> sn \<le> offset sec_now a \<or> 24 * 3600 \<le> offset sec_now a) \<and>
    (sp = 0 \<and> ap = None \<or> (\<exists>a\<in>set as. started a \<and> ap = Some (handle a) \<and> offset sec_now a = sp \<and> sp < 0)) \<and>
    (\<forall>a\<in>set as. started a \<and> offset sec_now a < 0 \<longrightarrow> sp \<le> offset sec_now a)"
  using assms
proof (induction as arbitrary: sn an sp ap rule: rev_induct)
  case (snoc a as)
  obtain sn0 an0 sp0 ap0 where p: "scan sec_now as = ((sn0, an0), (sp0, ap0))" by (metis surj_pair)
  note ih = snoc.IH[OF p]
  have "((sn, an), (sp, ap)) = (if \<not> started a then ((sn0, an0), (sp0, ap0))
     else if offset sec_now a > 0 then
       if offset sec_now a < sn0 then ((offset sec_now a, Some (handle a)), (sp0, ap0)) else ((sn0, an0), (sp0, ap0))
     else
       if offset sec_now a < sp0 then ((sn0, an0), (offset sec_now a, Some (handle a))) else ((sn0, an0), (sp0, ap0)))"
    using snoc.prems p by (auto simp: scan_def offset_def Let_def split: if_splits)
  with ih show ?case by (auto split: if_splits)
qed (simp add: scan_def)


lemma daysec_bound: "time_ok t \<Longrightarrow> int (alarm_mkdaysec t) = tm_sec t + tm_min t * 60 + tm_hour t * 3600 \<and> alarm_mkdaysec t < 86400"
  by (auto simp: time_ok_def alarm_mkdaysec_def to_u32_id)

lemma arm_run:
  assumes "distinct (map handle (alarm_list v))" and "a \<in> set (alarm_list v)" and "started a"
  shows "\<exists>dev. alarm_arm (Some (handle a)) v = Some (v\<lparr>rtc := dev, current := if rtc_found (rtc v) then Some (handle a) else current v\<rparr>) \<and>
    rtc_found dev = rtc_found (rtc v) \<and>
    (rtc_found (rtc v) \<longrightarrow> alarm_a dev = Some (tm_hour (wktime a), tm_min (wktime a), tm_sec (wktime a)))"
proof -
  from alarm_set_run[OF assms(1) find_alarm_Some[OF assms(1,2)]] obtain ret dev where
    "alarm_set (handle a) v = Some (ret, v\<lparr>rtc := dev\<rparr>)" "rtc_found dev = rtc_found (rtc v)"
    "if rtc_found (rtc v) then ret = RT_EOK else ret = RT_ERROR"
    "rtc_found (rtc v) \<longrightarrow> alarm_a dev = Some (tm_hour (wktime a), tm_min (wktime a), tm_sec (wktime a))"
    using assms(3) by blast
  then show ?thesis
    by (auto simp: alarm_arm_def RT_EOK_def RT_ERROR_def split: if_splits)
qed

definition armed_next :: "int \<Rightarrow> alarm_service \<Rightarrow> bool" where
  "armed_next sec_now v \<longleftrightarrow>
     (\<exists>b \<in> set (alarm_list v). started b \<and> current v = Some (handle b) \<and>
        alarm_a (rtc v) = Some (tm_hour (wktime b), tm_min (wktime b), tm_sec (wktime b)) \<and>
        (\<forall>a \<in> set (alarm_list v). started a \<and> offset sec_now a \<noteq> 0 \<longrightarrow> distance sec_now b \<le> distance sec_now a))"

text \<open>The second half of an update: the next alarm is chosen and programmed.\<close>

definition rearm :: "int \<Rightarrow> alarm_service \<Rightarrow> alarm_service option" where
  "rearm sec_now v =
     (let ((sec_next, alm_next), (sec_prev, alm_prev)) = scan sec_now (alarm_list v) in
      if sec_next < 24 * 3600 then alarm_arm alm_next v
      else if sec_prev < 0 then alarm_arm alm_prev v
      else (case current v of
          None \<Rightarrow> Some v
        | Some h \<Rightarrow> do {
            (_, v) \<leftarrow> alarm_set h v;
            a \<leftarrow> find_alarm h v;
            Some (if \<not> started a then v\<lparr>current := None\<rparr> else v) }))"

text \<open>What becomes of the device, the current alarm and the hardware when the next alarm is chosen.\<close>

definition rearmed :: "int \<Rightarrow> alarm_service \<Rightarrow> alarm_service option \<Rightarrow> bool" where
  "rearmed sec_now v r \<longleftrightarrow> (\<exists>dev cur. r = Some (v\<lparr>rtc := dev, current := cur\<rparr>) \<and> rtc_found dev = rtc_found (rtc v) \<and>
    (cur = None \<or> cur = current v \<or> (\<exists>a \<in> set (alarm_list v). started a \<and> cur = Some (handle a))) \<and>
    (rtc_found (rtc v) \<and> (\<exists>a \<in> set (alarm_list v). started a \<and> offset sec_now a \<noteq> 0) \<longrightarrow> armed_next sec_now (v\<lparr>rtc := dev, current := cur\<rparr>)))"

lemma arm_nearest:
  assumes "distinct (map handle (alarm_list v))" and "b \<in> set (alarm_list v)" and "started b"
    and "\<And>a. a \<in> set (alarm_list v) \<Longrightarrow> started a \<Longrightarrow> offset sec_now a \<noteq> 0 \<Longrightarrow> distance sec_now b \<le> distance sec_now a"
  shows "rearmed sec_now v (alarm_arm (Some (handle b)) v)"
proof -
  from arm_run[OF assms(1-3)] obtain dev where "alarm_arm (Some (handle b)) v =
      Some (v\<lparr>rtc := dev, current := if rtc_found (rtc v) then Some (handle b) else current v\<rparr>)" "rtc_found dev = rtc_found (rtc v)"
    "rtc_found (rtc v) \<longrightarrow> alarm_a dev = Some (tm_hour (wktime b), tm_min (wktime b), tm_sec (wktime b))" by blast
  then show ?thesis
    unfolding rearmed_def using assms(2-4)
    by (intro exI[of _ dev] exI[of _ "if rtc_found (rtc v) then Some (handle b) else current v"]) (auto simp: armed_next_def)
qed

lemma keep_current:
  assumes "service_ok v" and "\<And>a. a \<in> set (alarm_list v) \<Longrightarrow> started a \<Longrightarrow> offset sec_now a = 0"
  shows "rearmed sec_now v (case current v of None \<Rightarrow> Some v
    | Some h \<Rightarrow> do { (_, v) \<leftarrow> alarm_set h v; a \<leftarrow> find_alarm h v; Some (if \<not> started a then v\<lparr>current := None\<rparr> else v) })"
proof (cases "current v")
  case None
  then show ?thesis using assms(2) by (auto simp: rearmed_def intro!: exI[of _ "rtc v"] exI[of _ None])
next
  case (Some h)
  then obtain a where a: "find_alarm h v = Some a" using assms(1) find_alarm_ex by (fastforce simp: service_ok_def)
  have "distinct (map handle (alarm_list v))" using assms(1) by (simp add: service_ok_def)
  from alarm_set_run[OF this a] obtain ret dev where
    "alarm_set h v = Some (ret, v\<lparr>rtc := dev\<rparr>)" "rtc_found dev = rtc_found (rtc v)" by blast
  moreover from a have "find_alarm h (v\<lparr>rtc := dev\<rparr>) = Some a" by (simp add: find_alarm_def)
  ultimately show ?thesis
    using Some assms(2)
    by (auto simp: rearmed_def intro!: exI[of _ dev] exI[of _ "if started a then current v else None"])
qed

lemma rearm_run:
  assumes "service_ok v" and "0 \<le> sec_now" and "sec_now < 86400"
  shows "rearmed sec_now v (rearm sec_now v)"
proof -
  have d: "distinct (map handle (alarm_list v))" using assms(1) by (simp add: service_ok_def)
  have o: "- 86400 < offset sec_now a \<and> offset sec_now a < 86400 \<and> 0 \<le> offset sec_now a + sec_now \<and> offset sec_now a + sec_now < 86400"
    if "a \<in> set (alarm_list v)" "started a" for a
    using that assms daysec_bound[of "wktime a"] by (auto simp: service_ok_def alarm_ok_def offset_def)
  obtain sn an sp ap where sc: "scan sec_now (alarm_list v) = ((sn, an), (sp, ap))" by (metis surj_pair)
  note s = scan_spec[OF sc]
  have later: "sn \<le> offset sec_now a" if "a \<in> set (alarm_list v)" "started a" "0 < offset sec_now a" for a
    using s o[OF that(1,2)] that by force
  consider (coming) b where "sn < 24 * 3600" "b \<in> set (alarm_list v)" "started b" "an = Some (handle b)" "offset sec_now b = sn" "0 < sn"
    | (past) b where "\<not> sn < 24 * 3600" "sp < 0" "b \<in> set (alarm_list v)" "started b" "ap = Some (handle b)" "offset sec_now b = sp"
    | (none) "\<not> sn < 24 * 3600" "\<not> sp < 0"
    using s by fastforce
  then show ?thesis
  proof cases
    case (coming b)
    have "rearmed sec_now v (alarm_arm (Some (handle b)) v)"
      by (rule arm_nearest[OF d coming(2,3)]) (use coming(5,6) later o o[OF coming(2,3)] in \<open>force simp: distance_def\<close>)
    then show ?thesis using coming(1,4) sc by (simp add: rearm_def)
  next
    case (past b)
    have none: "\<not> 0 < offset sec_now a" if "a \<in> set (alarm_list v)" "started a" for a using later[OF that] o[OF that] past(1) by linarith
    have "rearmed sec_now v (alarm_arm (Some (handle b)) v)"
      by (rule arm_nearest[OF d past(3,4)]) (use past(2,6) s none in \<open>auto simp: distance_def\<close>)
    then show ?thesis using past(1,2,5) sc by (simp add: rearm_def)
  next
    case none
    have "offset sec_now a = 0" if "a \<in> set (alarm_list v)" "started a" for a
      using later[OF that] o[OF that] none s that by force
    from keep_current[OF assms(1) this] show ?thesis using none sc by (simp add: rearm_def)
  qed
qed

lemma alarm_update_eq:
  "alarm_update e v =
     (if alarm_list v = [] then Some v
      else do { v \<leftarrow> for_each (alarm_wakeup (gmtime_r (time_now e))) (map handle (alarm_list v)) v;
                rearm (int (alarm_mkdaysec (gmtime_r (time_after e)))) v })"
  by (simp add: alarm_update_def rearm_def Let_def)

definition clock_ok :: "alarm_env \<Rightarrow> bool" where
  "clock_ok e \<longleftrightarrow> time_now e < 2 ^ 32 \<and> time_after e < 2 ^ 32"

lemma alarm_update_run:
  assumes "service_ok v" and "clock_ok e"
  shows "\<exists>v'. alarm_update e v = Some v' \<and> service_ok v' \<and>
    alarm_list v' = map (\<lambda>a. snd (wake (gmtime_r (time_now e)) a)) (alarm_list v) \<and>
    rung v' = rung v @ map handle (List.filter (\<lambda>a. fst (wake (gmtime_r (time_now e)) a)) (alarm_list v)) \<and>
    next_handle v' = next_handle v \<and> myalarm v' = myalarm v \<and> rtc_found (rtc v') = rtc_found (rtc v) \<and>
    (current v' = None \<or> current v' = current v \<or> (\<exists>a \<in> set (alarm_list v'). started a \<and> current v' = Some (handle a))) \<and>
    (rtc_found (rtc v) \<and> (\<exists>a \<in> set (alarm_list v'). started a \<and> offset (int (alarm_mkdaysec (gmtime_r (time_after e)))) a \<noteq> 0) \<longrightarrow>
      armed_next (int (alarm_mkdaysec (gmtime_r (time_after e)))) v')"
proof (cases "alarm_list v = []")
  case True
  then show ?thesis using assms(1) by (auto simp: alarm_update_eq)
next
  case False
  let ?now = "gmtime_r (time_now e)" and ?sec = "int (alarm_mkdaysec (gmtime_r (time_after e)))"
  let ?l = "map (\<lambda>a. snd (wake ?now a)) (alarm_list v)"
  have t: "time_now e < 2 ^ 32" "time_after e < 2 ^ 32" using assms(2) by (simp_all add: clock_ok_def)
  have ok: "list_all alarm_ok (alarm_list v)" "distinct (map handle (alarm_list v))"
    using assms(1) by (auto simp: service_ok_def list_all_iff)
  from wakeups_run[of "[]" "alarm_list v" v ?now "time_now e"] ok t obtain dev where
    w: "for_each (alarm_wakeup ?now) (map handle (alarm_list v)) v = Some (v\<lparr>alarm_list := ?l, rtc := dev,
        rung := rung v @ map handle (List.filter (\<lambda>a. fst (wake ?now a)) (alarm_list v))\<rparr>)" "rtc_found dev = rtc_found (rtc v)"
    by auto
  let ?w = "v\<lparr>alarm_list := ?l, rtc := dev, rung := rung v @ map handle (List.filter (\<lambda>a. fst (wake ?now a)) (alarm_list v))\<rparr>"
  have wk: "alarm_ok (snd (wake ?now a)) \<and> handle (snd (wake ?now a)) = handle a" if "a \<in> set (alarm_list v)" for a
    using wake_ok[of a ?now] that ok(1) gmtime_ok(1)[OF t(1)] by (auto simp: list_all_iff)
  then have mh: "map handle ?l = map handle (alarm_list v)" by auto
  have hs: "handle ` set ?l = handle ` set (alarm_list v)" using arg_cong[OF mh, of set] by (simp only: set_map)
  have all: "\<forall>a \<in> set ?l. handle a < next_handle v \<and> alarm_ok a"
    using assms(1) wk by (auto simp: service_ok_def)
  have "distinct (map handle ?l)" unfolding mh by (rule ok(2))
  moreover have "case current v of None \<Rightarrow> True | Some h \<Rightarrow> h \<in> handle ` set ?l"
    unfolding hs using assms(1) by (simp add: service_ok_def)
  ultimately have sw: "service_ok ?w" unfolding service_ok_def using all by (cases "current v") (simp_all del: map_map set_map)
  have "time_ok (gmtime_r (time_after e))" by (rule gmtime_ok[OF t(2)])
  then have "alarm_mkdaysec (gmtime_r (time_after e)) < 86400" using daysec_bound by blast
  then have b: "0 \<le> ?sec" "?sec < 86400" by linarith+
  from rearm_run[OF sw b] obtain dev' cur where
    r: "rearm ?sec ?w = Some (?w\<lparr>rtc := dev', current := cur\<rparr>)" "rtc_found dev' = rtc_found (rtc ?w)"
      "cur = None \<or> cur = current ?w \<or> (\<exists>a \<in> set (alarm_list ?w). started a \<and> cur = Some (handle a))"
      "rtc_found (rtc ?w) \<and> (\<exists>a \<in> set (alarm_list ?w). started a \<and> offset ?sec a \<noteq> 0) \<longrightarrow> armed_next ?sec (?w\<lparr>rtc := dev', current := cur\<rparr>)"
    unfolding rearmed_def by blast
  have "service_ok (?w\<lparr>rtc := dev', current := cur\<rparr>)"
    using sw r(3) unfolding service_ok_def by (auto split: option.splits)
  then show ?thesis
    using r w False by (auto simp: alarm_update_eq)
qed


text \<open>Starting, stopping and deleting keep the service well-formed.\<close>

lemma service_okI:
  assumes "service_ok v" and "map handle (alarm_list w) = map handle (alarm_list v)" and "next_handle w = next_handle v"
    and "list_all alarm_ok (alarm_list w)" and "current w = None \<or> current w = current v \<or> (\<exists>a \<in> set (alarm_list w). current w = Some (handle a))"
  shows "service_ok w"
proof -
  have hs: "handle ` set (alarm_list w) = handle ` set (alarm_list v)" using arg_cong[OF assms(2), of set] by (simp only: set_map)
  have "handle a < next_handle w" if "a \<in> set (alarm_list w)" for a
  proof -
    have "handle a \<in> handle ` set (alarm_list v)" using that hs by blast
    then show ?thesis using assms(1,3) by (auto simp: service_ok_def)
  qed
  moreover have "case current w of None \<Rightarrow> True | Some h \<Rightarrow> h \<in> handle ` set (alarm_list w)"
    using assms(5)
  proof (elim disjE bexE)
    assume "current w = current v"
    then show ?thesis using assms(1) unfolding hs service_ok_def by (auto split: option.splits)
  qed auto
  moreover have "distinct (map handle (alarm_list w))" using assms(1) unfolding assms(2) by (simp add: service_ok_def)
  ultimately show ?thesis using assms(4) by (simp add: service_ok_def list_all_iff)
qed

lemma days_month_bound: "days_of_year_month y m \<le> 31"
  by (simp add: days_of_year_month_def Let_def)

lemma setup_time_ok:
  assumes "time_ok now" and "date_ok now" and "setup_time m now t = (t', True)"
  shows "time_ok t' \<and> (m = RT_ALARM_ONESHOT \<longrightarrow> date_ok t')"
proof -
  define s where "s = (let t = (if tm_sec t > 59 \<or> tm_sec t < 0 then t\<lparr>tm_sec := tm_sec now\<rparr> else t);
          t = (if tm_min t > 59 \<or> tm_min t < 0 then t\<lparr>tm_min := tm_min now\<rparr> else t)
      in if tm_hour t > 23 \<or> tm_hour t < 0 then t\<lparr>tm_hour := tm_hour now\<rparr> else t)"
  have s: "time_ok s" using assms(1) by (auto simp: s_def time_ok_def Let_def)
  note n = next_ok[OF assms(1) s]
  define o3 where "o3 = (let t = (if tm_year s = RT_ALARM_TM_NOW then s\<lparr>tm_year := tm_year now\<rparr> else s);
               t = (if tm_mon t = RT_ALARM_TM_NOW then t\<lparr>tm_mon := tm_mon now\<rparr> else t)
           in if tm_mday t = RT_ALARM_TM_NOW then t\<lparr>tm_mday := tm_mday now\<rparr> else t)"
  have o3: "time_ok o3" using s by (auto simp: o3_def time_ok_def Let_def)
  have "setup_time m now t = (if m = RT_ALARM_SECOND then (next_second now s, True)
         else if m = RT_ALARM_MINUTE then (next_minute now s, True)
         else if m = RT_ALARM_HOUR then (next_hour now s, True)
         else if m = RT_ALARM_DAILY then (s, True)
         else if m = RT_ALARM_ONESHOT then (o3, is_valid_date o3)
         else if m = RT_ALARM_WEEKLY then (if tm_wday s < 0 \<or> tm_wday s > 6 then s\<lparr>tm_wday := tm_wday now\<rparr> else s, True)
         else if m = RT_ALARM_MONTHLY then (if tm_mday s < 1 \<or> tm_mday s > 31 then s\<lparr>tm_mday := tm_mday now\<rparr> else s, True)
         else if m = RT_ALARM_YAERLY then
           (yearly_mday now (if tm_mon s < 0 \<or> tm_mon s > 11 then s\<lparr>tm_mon := tm_mon now\<rparr> else s), True)
         else (s, False))"
    unfolding setup_time_def s_def o3_def Let_def by (rule refl)
  then show ?thesis
    using assms(3) s n o3 days_month_bound[of "tm_year o3" "tm_mon o3"]
    by (auto simp: alarm_modes is_valid_date_def date_ok_def time_ok_def yearly_mday_def Let_def split: if_splits)
qed

lemma ahead_ok: "time_ok t \<Longrightarrow> time_ok (ahead_of_midnight t)" "date_ok (ahead_of_midnight t) = date_ok t"
  by (auto simp: ahead_of_midnight_def time_ok_def date_ok_def RT_ALARM_DELAY_def)

definition started_as :: "tm \<Rightarrow> bool \<Rightarrow> rt_alarm \<Rightarrow> rt_alarm" where
  "started_as t valid a = (if valid then a\<lparr>wktime := ahead_of_midnight t, inited := True, started := True\<rparr> else a\<lparr>wktime := t\<rparr>)"

text \<open>Once the alarm is set up, starting it either programs the clock or leaves the alarm that is programmed.\<close>

lemma start_sooner:
  assumes "service_ok w" and "find_alarm h v = Some a" and "\<not> started a" and "find_alarm h w = Some a'"
    and "setup_time (alarm_mode a) (gmtime_r (time_now e)) (wktime a) = (t, True)"
    and "update_alarm h (\<lambda>a. a\<lparr>started := True\<rparr>) (update_alarm h (\<lambda>a. a\<lparr>wktime := ahead_of_midnight t, inited := True\<rparr>) v) = w"
  shows "\<exists>sooner. rt_alarm_start e h v = (if sooner then do {
       (ret, v) \<leftarrow> alarm_set h w;
       Some (ret, if ret = RT_EOK then v\<lparr>current := Some h\<rparr> else v) }
     else Some (RT_EOK, w))"
proof (cases "current w")
  case None
  then show ?thesis using assms(2-6) by (auto simp: rt_alarm_start_def alarm_setup_def)
next
  case (Some c)
  then have "c \<in> handle ` set (alarm_list w)" using assms(1) by (simp add: service_ok_def)
  then obtain b where "find_alarm c w = Some b" using find_alarm_ex by blast
  then show ?thesis
    using Some assms(2-6) by (auto simp: rt_alarm_start_def alarm_setup_def Let_def)
qed

lemma started_service:
  assumes "service_ok v" and "find_alarm h v = Some a" and "\<not> started a" and "clock_ok e"
    and "setup_time (alarm_mode a) (gmtime_r (time_now e)) (wktime a) = (t, valid)"
  defines "w \<equiv> v\<lparr>alarm_list := map (\<lambda>b. if handle b = h then started_as t valid a else b) (alarm_list v)\<rparr>"
  shows "service_ok w" "find_alarm h w = Some (started_as t valid a)"
proof -
  have a: "a \<in> set (alarm_list v)" "handle a = h" using find_alarm_mem[OF assms(2)] by auto
  have ah: "handle (started_as t valid a) = h" using a(2) by (simp add: started_as_def)
  have mh: "map handle (alarm_list w) = map handle (alarm_list v)" using ah by (simp add: w_def comp_def)
  have now: "time_ok (gmtime_r (time_now e))" "date_ok (gmtime_r (time_now e))"
    using gmtime_ok assms(4) by (auto simp: clock_ok_def)
  have "alarm_ok (started_as t valid a)"
    using setup_time_ok[OF now] assms(3,5) ahead_ok by (auto simp: started_as_def alarm_ok_def)
  then have "list_all alarm_ok (alarm_list w)"
    using assms(1) by (auto simp: w_def list_all_iff service_ok_def)
  then show ok: "service_ok w" by (intro service_okI[OF assms(1) mh]) (auto simp: w_def)
  have "started_as t valid a \<in> set (alarm_list w)" using a by (auto simp: w_def)
  then show "find_alarm h w = Some (started_as t valid a)"
    using find_alarm_Some[of w "started_as t valid a"] ok ah by (simp add: service_ok_def)
qed

lemma start_run:
  assumes "service_ok v" and "find_alarm h v = Some a" and "\<not> started a" and "clock_ok e"
    and "setup_time (alarm_mode a) (gmtime_r (time_now e)) (wktime a) = (t, valid)"
  shows "\<exists>ret v'. rt_alarm_start e h v = Some (ret, v') \<and> service_ok v' \<and> next_handle v' = next_handle v \<and> myalarm v' = myalarm v \<and>
    rung v' = rung v \<and> rtc_found (rtc v') = rtc_found (rtc v) \<and>
    alarm_list v' = map (\<lambda>b. if handle b = h then started_as t valid a else b) (alarm_list v) \<and>
    (rtc_found (rtc v) \<longrightarrow> (ret = RT_EOK \<longleftrightarrow> valid))"
proof -
  define w where "w = v\<lparr>alarm_list := map (\<lambda>b. if handle b = h then started_as t valid a else b) (alarm_list v)\<rparr>"
  note sw = started_service[OF assms, folded w_def]
  have u: "b = a" if "b \<in> set (alarm_list v)" "handle b = h" for b
    using assms(1) find_alarm_mem[OF assms(2)] that by (auto simp: service_ok_def distinct_map dest: inj_onD)
  show ?thesis
  proof (cases valid)
    case False
    have "update_alarm h (\<lambda>a. a\<lparr>wktime := t\<rparr>) v = w"
      using u False by (auto simp: update_alarm_def w_def started_as_def)
    then have "rt_alarm_start e h v = Some (- RT_ERROR, w)"
      using assms(2,3,5) False by (simp add: rt_alarm_start_def alarm_setup_def RT_ERROR_def RT_EOK_def)
    then show ?thesis using sw(1) False by (auto simp: w_def RT_ERROR_def RT_EOK_def)
  next
    case True
    have "update_alarm h (\<lambda>a. a\<lparr>started := True\<rparr>) (update_alarm h (\<lambda>a. a\<lparr>wktime := ahead_of_midnight t, inited := True\<rparr>) v) = w"
      using u True by (auto simp: update_alarm_def w_def started_as_def)
    moreover have "setup_time (alarm_mode a) (gmtime_r (time_now e)) (wktime a) = (t, True)" using assms(5) True by simp
    ultimately obtain sooner where
      st: "rt_alarm_start e h v = (if sooner then do {
           (ret, v) \<leftarrow> alarm_set h w;
           Some (ret, if ret = RT_EOK then v\<lparr>current := Some h\<rparr> else v) }
         else Some (RT_EOK, w))" using start_sooner[OF sw(1) assms(2,3) sw(2)] by blast
    from alarm_set_run[OF _ sw(2)] sw(1) obtain ret dev where s: "alarm_set h w = Some (ret, w\<lparr>rtc := dev\<rparr>)"
      "rtc_found dev = rtc_found (rtc w)" "if rtc_found (rtc w) then ret = RT_EOK else ret = RT_ERROR" by (auto simp: service_ok_def)
    define x where "x = (if ret = RT_EOK then (w\<lparr>rtc := dev\<rparr>)\<lparr>current := Some h\<rparr> else w\<lparr>rtc := dev\<rparr>)"
    have "service_ok x"
      by (rule service_okI[OF sw(1)]) (use sw find_alarm_mem[OF sw(2)] in \<open>auto simp: x_def service_ok_def list_all_iff\<close>)
    then show ?thesis
      using st s sw(1) True by (cases sooner) (auto simp: x_def w_def split: if_splits)
  qed
qed

text \<open>
  Stopping and deleting may run an update, in which other alarms ring and move on; what stays of them
  is their handle, their callback and their mode.
\<close>

definition same_alarm :: "rt_alarm \<Rightarrow> rt_alarm \<Rightarrow> bool" where
  "same_alarm a b \<longleftrightarrow> handle a = handle b \<and> callback a = callback b \<and> alarm_mode a = alarm_mode b"

lemma same_handles: "list_all2 same_alarm xs ys \<Longrightarrow> map handle xs = map handle ys"
  by (induction rule: list_all2_induct) (auto simp: same_alarm_def)

lemma same_filter:
  assumes "list_all2 same_alarm xs ys" and "\<And>a b. same_alarm a b \<Longrightarrow> P a = P b"
  shows "list_all2 same_alarm (List.filter P xs) (List.filter P ys)"
  using assms(1) by (induction rule: list_all2_induct) (auto dest: assms(2))

lemma same_trans: "list_all2 same_alarm xs ys \<Longrightarrow> list_all2 same_alarm ys zs \<Longrightarrow> list_all2 same_alarm xs zs"
  by (erule (1) list_all2_trans[rotated]) (auto simp: same_alarm_def)

lemma same_update: "(\<And>a. same_alarm (f a) a) \<Longrightarrow> list_all2 same_alarm (alarm_list (update_alarm h f v)) (alarm_list v)"
  by (auto simp: update_alarm_def list_all2_map1 same_alarm_def intro: list_all2_all_nthI)

lemma update_same:
  assumes "service_ok v" and "clock_ok e"
  shows "\<exists>v'. alarm_update e v = Some v' \<and> service_ok v' \<and> list_all2 same_alarm (alarm_list v') (alarm_list v) \<and>
    next_handle v' = next_handle v \<and> myalarm v' = myalarm v \<and> rtc_found (rtc v') = rtc_found (rtc v) \<and>
    (\<forall>a \<in> set (alarm_list v). \<not> started a \<and> current v = None \<longrightarrow> current v' \<noteq> Some (handle a))"
proof -
  let ?now = "gmtime_r (time_now e)"
  from alarm_update_run[OF assms] obtain v' where u: "alarm_update e v = Some v'" "service_ok v'"
    "alarm_list v' = map (\<lambda>a. snd (wake ?now a)) (alarm_list v)"
    "next_handle v' = next_handle v" "myalarm v' = myalarm v" "rtc_found (rtc v') = rtc_found (rtc v)"
    "current v' = None \<or> current v' = current v \<or> (\<exists>a \<in> set (alarm_list v'). started a \<and> current v' = Some (handle a))" by blast
  have "same_alarm (snd (wake (gmtime_r (time_now e)) a)) a" if "a \<in> set (alarm_list v)" for a
    using wake_ok[of a "gmtime_r (time_now e)"] that assms gmtime_ok[of "time_now e"] by (auto simp: service_ok_def same_alarm_def clock_ok_def)
  then have "list_all2 same_alarm (map (\<lambda>a. snd (wake (gmtime_r (time_now e)) a)) (alarm_list v)) (alarm_list v)"
    by (auto simp: list_all2_map1 intro: list_all2_all_nthI)
  then have l: "list_all2 same_alarm (alarm_list v') (alarm_list v)" by (simp add: u)
  moreover have "current v' \<noteq> Some (handle a)" if a: "a \<in> set (alarm_list v)" "\<not> started a" "current v = None" for a
  proof
    assume c: "current v' = Some (handle a)"
    with u(7) a(3) obtain b where b: "b \<in> set (alarm_list v')" "started b" "handle b = handle a" by auto
    have "snd (wake ?now a) = a" using a(2) by (simp add: wake_def)
    then have "a \<in> set (alarm_list v')" using a(1) by (force simp: u)
    with b u(2) have "b = a" by (auto simp: service_ok_def distinct_map dest: inj_onD)
    with b(2) a(2) show False by simp
  qed
  ultimately show ?thesis using u by auto
qed

lemma halt_ok:
  assumes "service_ok v" and "h \<in> handle ` set (alarm_list v)"
  defines "w \<equiv> update_alarm h (\<lambda>a. a\<lparr>started := False\<rparr>) v"
  shows "service_ok w" "list_all2 same_alarm (alarm_list w) (alarm_list v)" "\<exists>ret dev. alarm_set h w = Some (ret, w\<lparr>rtc := dev\<rparr>) \<and>
    rtc_found dev = rtc_found (rtc v)" "h \<in> handle ` set (alarm_list w)"
proof -
  show s: "list_all2 same_alarm (alarm_list w) (alarm_list v)" unfolding w_def by (rule same_update) (simp add: same_alarm_def)
  have l: "list_all alarm_ok (alarm_list w)"
    using assms(1) by (auto simp: w_def update_alarm_def list_all_iff service_ok_def alarm_ok_def)
  show ok: "service_ok w" by (rule service_okI[OF assms(1) same_handles[OF s] _ l]) (auto simp: w_def update_alarm_def)
  show hw: "h \<in> handle ` set (alarm_list w)" using assms(2) same_handles[OF s] by (metis set_map)
  then obtain b where "find_alarm h w = Some b" using find_alarm_ex by blast
  then show "\<exists>ret dev. alarm_set h w = Some (ret, w\<lparr>rtc := dev\<rparr>) \<and> rtc_found dev = rtc_found (rtc v)"
    using alarm_set_run[of w h b] ok by (auto simp: service_ok_def w_def update_alarm_def)
qed

lemma service_ok_device: "service_ok (v\<lparr>rtc := d\<rparr>) = service_ok v" "service_ok v \<Longrightarrow> service_ok (v\<lparr>current := None\<rparr>)"
  by (auto simp: service_ok_def split: option.splits)

lemma stop_run:
  assumes "service_ok v" and "h \<in> handle ` set (alarm_list v)" and "clock_ok e"
  shows "\<exists>ret v'. rt_alarm_stop e h v = Some (ret, v') \<and> service_ok v' \<and> list_all2 same_alarm (alarm_list v') (alarm_list v) \<and>
    next_handle v' = next_handle v \<and> myalarm v' = myalarm v"
proof -
  obtain a where a: "find_alarm h v = Some a" using assms(2) find_alarm_ex by blast
  note w = halt_ok[OF assms(1,2)]
  let ?w = "update_alarm h (\<lambda>a. a\<lparr>started := False\<rparr>) v"
  obtain ret dev where s: "alarm_set h ?w = Some (ret, ?w\<lparr>rtc := dev\<rparr>)" using w(3) by blast
  define x where "x = (if current ?w = Some h then ?w\<lparr>rtc := dev, current := None\<rparr> else ?w)"
  define r where "r = (if current ?w = Some h then ret else RT_EOK)"
  have x: "service_ok x" "list_all2 same_alarm (alarm_list x) (alarm_list v)" "next_handle x = next_handle v" "myalarm x = myalarm v"
    using w(1,2) service_ok_device by (simp_all add: x_def) (simp_all add: update_alarm_def)
  have refl: "list_all2 same_alarm xs xs" for xs by (simp add: list_all2_same same_alarm_def)
  have "rt_alarm_stop e h v = (if \<not> started a then Some (RT_EOK, v) else do { v \<leftarrow> if r = RT_EOK then alarm_update e x else Some x; Some (r, v) })"
    using a s by (simp add: rt_alarm_stop_def Let_def x_def r_def)
  then show ?thesis
    using assms(1) refl x update_same[OF x(1) assms(3)] same_trans[OF _ x(2)] by (auto split: if_splits)
qed

lemma halted:
  assumes "b \<in> set (alarm_list (update_alarm h (\<lambda>a. a\<lparr>started := False\<rparr>) v))" and "handle b = h"
  shows "\<not> started b"
proof -
  have "alarm_list (update_alarm h f v) = map (\<lambda>a. if handle a = h then f a else a) (alarm_list v)" for f by (simp add: update_alarm_def)
  then obtain a where "b = (if handle a = h then a\<lparr>started := False\<rparr> else a)"
    using assms(1) by (simp only: set_map) (elim imageE)
  then show ?thesis using assms(2) by (cases "handle a = h") simp_all
qed

lemma delete_run:
  assumes "service_ok v" and "h \<in> handle ` set (alarm_list v)" and "clock_ok e"
  shows "\<exists>ret v'. rt_alarm_delete e h v = Some (ret, v') \<and> service_ok v' \<and>
    list_all2 same_alarm (alarm_list v') (List.filter (\<lambda>a. handle a \<noteq> h) (alarm_list v)) \<and>
    next_handle v' = next_handle v \<and> myalarm v' = myalarm v \<and> rtc_found (rtc v') = rtc_found (rtc v)"
proof -
  obtain a where a: "find_alarm h v = Some a" using assms(2) find_alarm_ex by blast
  note w = halt_ok[OF assms(1,2)]
  let ?w = "update_alarm h (\<lambda>a. a\<lparr>started := False\<rparr>) v"
  obtain ret dev where s: "alarm_set h ?w = Some (ret, ?w\<lparr>rtc := dev\<rparr>)" "rtc_found dev = rtc_found (rtc v)" using w(3) by blast
  note h = halted[of _ h v]
  note hw = w(4)
  have "\<exists>r x. rt_alarm_delete e h v = Some (r, x\<lparr>alarm_list := List.filter (\<lambda>a. handle a \<noteq> h) (alarm_list x)\<rparr>) \<and>
      service_ok x \<and> current x \<noteq> Some h \<and> list_all2 same_alarm (alarm_list x) (alarm_list v) \<and>
      next_handle x = next_handle v \<and> myalarm x = myalarm v \<and> rtc_found (rtc x) = rtc_found (rtc v)"
  proof (cases "current ?w = Some h")
    case True
    let ?x = "?w\<lparr>rtc := dev, current := None\<rparr>"
    have "service_ok ?x" using w(1) by (simp add: service_ok_device)
    from update_same[OF this assms(3)] obtain x where "alarm_update e ?x = Some x" "service_ok x"
      "list_all2 same_alarm (alarm_list x) (alarm_list ?w)" "next_handle x = next_handle v" "myalarm x = myalarm v"
      "rtc_found (rtc x) = rtc_found (rtc v)" "\<forall>a \<in> set (alarm_list ?w). \<not> started a \<longrightarrow> current x \<noteq> Some (handle a)"
      using s(2) by (auto simp: update_alarm_def)
    then show ?thesis
      using True a s(1) same_trans[OF _ w(2)] h hw by (auto simp: rt_alarm_delete_def)
  next
    case False
    have "rtc_found (rtc ?w) = rtc_found (rtc v)" "next_handle ?w = next_handle v" "myalarm ?w = myalarm v" by (simp_all add: update_alarm_def)
    then show ?thesis using False a w(1,2) by (auto simp: rt_alarm_delete_def Let_def)
  qed
  then obtain r x where x: "rt_alarm_delete e h v = Some (r, x\<lparr>alarm_list := List.filter (\<lambda>a. handle a \<noteq> h) (alarm_list x)\<rparr>)"
      "service_ok x" "current x \<noteq> Some h" "list_all2 same_alarm (alarm_list x) (alarm_list v)"
      "next_handle x = next_handle v" "myalarm x = myalarm v" "rtc_found (rtc x) = rtc_found (rtc v)" by blast
  have "service_ok (x\<lparr>alarm_list := List.filter (\<lambda>a. handle a \<noteq> h) (alarm_list x)\<rparr>)"
    using x(2,3) by (auto simp: service_ok_def distinct_map inj_on_def split: option.splits)
  moreover have "list_all2 same_alarm (List.filter (\<lambda>a. handle a \<noteq> h) (alarm_list x)) (List.filter (\<lambda>a. handle a \<noteq> h) (alarm_list v))"
    by (rule same_filter[OF x(4)]) (simp add: same_alarm_def)
  ultimately show ?thesis using x by auto
qed


lemma update_alarm_list: "alarm_list (update_alarm h f v) = map (\<lambda>a. if handle a = h then f a else a) (alarm_list v)"
  by (simp add: update_alarm_def)

lemma create_ok:
  assumes "service_ok v" and "rt_alarm_create e cb setup v = (r, v')"
  shows "service_ok v' \<and> (if malloc_ok e then r = Some (next_handle v) \<and> next_handle v \<notin> handle ` set (alarm_list v) else r = None \<and> v' = v)"
proof -
  have "next_handle v \<notin> handle ` set (alarm_list v)" using assms(1) by (auto simp: service_ok_def)
  then show ?thesis
    using assms by (auto simp: rt_alarm_create_def service_ok_def alarm_ok_def less_SucI split: if_splits option.splits)
qed

lemma start_defined:
  assumes "service_ok v" and "h \<in> handle ` set (alarm_list v)" and "clock_ok e"
  shows "\<exists>ret v'. rt_alarm_start e h v = Some (ret, v') \<and> service_ok v'"
proof -
  obtain a where a: "find_alarm h v = Some a" using find_alarm_ex[OF assms(2)] by blast
  obtain t valid where t: "setup_time (alarm_mode a) (gmtime_r (time_now e)) (wktime a) = (t, valid)" by fastforce
  show ?thesis
  proof (cases "started a")
    case True
    then show ?thesis using a assms(1) by (simp add: rt_alarm_start_def)
  next
    case False
    from start_run[OF assms(1) a this assms(3) t] show ?thesis by blast
  qed
qed

lemma stopped_ok:
  assumes "service_ok v" and "\<And>a. handle (f a) = handle a \<and> (started (f a) \<longrightarrow> a = f a)"
  shows "service_ok (update_alarm h f v)"
proof (rule service_okI[OF assms(1)])
  show "map handle (alarm_list (update_alarm h f v)) = map handle (alarm_list v)" using assms(2) by (simp add: update_alarm_def)
  have "alarm_ok (f a)" if "alarm_ok a" for a using that assms(2)[of a] by (cases "started (f a)") (auto simp: alarm_ok_def)
  then show "list_all alarm_ok (alarm_list (update_alarm h f v))"
    using assms(1) by (auto simp: update_alarm_def list_all_iff service_ok_def)
qed (auto simp: update_alarm_def)

lemma control_defined:
  assumes "service_ok v" and "h \<in> handle ` set (alarm_list v)" and "clock_ok e"
  shows "\<exists>ret v'. rt_alarm_control e h cmd setup v = Some (ret, v') \<and> service_ok v'"
proof (cases "cmd = RT_ALARM_CTRL_MODIFY")
  case True
  from stop_run[OF assms] obtain r w where w: "rt_alarm_stop e h v = Some (r, w)" "service_ok w" "list_all2 same_alarm (alarm_list w) (alarm_list v)"
    by blast
  define g :: "rt_alarm \<Rightarrow> rt_alarm" where "g = (\<lambda>a. a\<lparr>alarm_mode := setup_flag setup div 256 mod 256 * 256, inited := False, started := False, wktime := setup_wktime setup\<rparr>)"
  let ?x = "update_alarm h g w"
  have x: "service_ok ?x" by (rule stopped_ok[OF w(2)]) (simp add: g_def)
  have mh: "map handle (alarm_list ?x) = map handle (alarm_list v)"
    using same_handles[OF w(3)] by (simp add: update_alarm_def g_def comp_def if_distrib cong: if_cong)
  have "h \<in> handle ` set (alarm_list ?x)" using assms(2) arg_cong[OF mh, of set] by (simp only: set_map)
  then obtain a where a: "find_alarm h ?x = Some a" using find_alarm_ex by blast
  obtain t valid where t: "setup_time (alarm_mode a) (gmtime_r (time_now e)) (setup_wktime setup) = (t, valid)" by fastforce
  have st: "\<not> started b" if "b \<in> set (alarm_list ?x)" "handle b = h" for b
  proof -
    from that obtain c where "b = (if handle c = h then g c else c)" by (simp only: update_alarm_list set_map) (elim imageE)
    then show ?thesis using that(2) by (cases "handle c = h") (simp_all add: g_def)
  qed
  define k :: "rt_alarm \<Rightarrow> rt_alarm" where "k = (\<lambda>b. if valid then b\<lparr>wktime := ahead_of_midnight t, inited := True\<rparr> else b\<lparr>wktime := t\<rparr>)"
  have r: "rt_alarm_control e h cmd setup v = Some (if valid then RT_EOK else - RT_ERROR, update_alarm h k ?x)"
    using True w(1) a t by (simp add: rt_alarm_control_def alarm_setup_def g_def k_def)
  have "service_ok (update_alarm h k ?x)"
  proof (rule service_okI[OF x])
    show "map handle (alarm_list (update_alarm h k ?x)) = map handle (alarm_list ?x)" by (simp add: update_alarm_def k_def)
    have "alarm_ok (if handle b = h then k b else b)" if "b \<in> set (alarm_list ?x)" for b
      using st[OF that] x that by (auto simp: k_def alarm_ok_def service_ok_def)
    then show "list_all alarm_ok (alarm_list (update_alarm h k ?x))" by (simp only: update_alarm_list[of h k] list_all_iff set_map ball_simps) blast
  qed (auto simp: update_alarm_def)
  then show ?thesis using r by blast
next
  case False
  then show ?thesis using assms(1) by (simp add: rt_alarm_control_def)
qed

text \<open>The operations of the service on alarms it has, in any order, with any clock.\<close>

inductive alarm_step :: "alarm_service \<Rightarrow> alarm_service \<Rightarrow> bool" where
  create: "rt_alarm_create e cb setup v = (r, v') \<Longrightarrow> alarm_step v v'" |
  start: "clock_ok e \<Longrightarrow> h \<in> handle ` set (alarm_list v) \<Longrightarrow> rt_alarm_start e h v = Some (r, v') \<Longrightarrow> alarm_step v v'" |
  stop: "clock_ok e \<Longrightarrow> h \<in> handle ` set (alarm_list v) \<Longrightarrow> rt_alarm_stop e h v = Some (r, v') \<Longrightarrow> alarm_step v v'" |
  control: "clock_ok e \<Longrightarrow> h \<in> handle ` set (alarm_list v) \<Longrightarrow> rt_alarm_control e h cmd setup v = Some (r, v') \<Longrightarrow> alarm_step v v'" |
  delete: "clock_ok e \<Longrightarrow> h \<in> handle ` set (alarm_list v) \<Longrightarrow> rt_alarm_delete e h v = Some (r, v') \<Longrightarrow> alarm_step v v'" |
  update: "clock_ok e \<Longrightarrow> alarm_update e v = Some v' \<Longrightarrow> alarm_step v v'"

definition no_alarms :: "bool \<Rightarrow> alarm_service" where
  "no_alarms found = \<lparr>next_handle = 0, alarm_list = [], current = None,
     rtc = \<lparr>rtc_found = found, wkalarm = \<lparr>wk_enable = False, wk_sec = 0, wk_min = 0, wk_hour = 0, wk_mday = 0, wk_mon = 0, wk_year = 0\<rparr>, alarm_a = None\<rparr>,
     rung = [], myalarm = None\<rparr>"

interpretation asv: machine "\<lambda>v. v = no_alarms found" alarm_step service_ok
proof
  show "service_ok v'" if "alarm_step v v'" "service_ok v" for v v'
    using that
  proof (cases rule: alarm_step.cases)
    case create then show ?thesis using create_ok[OF that(2)] by blast
  next
    case start then show ?thesis using start_defined[OF that(2)] by fastforce
  next
    case stop then show ?thesis using stop_run[OF that(2)] by fastforce
  next
    case (control e h cmd s r) then show ?thesis using control_defined[OF that(2) control(2,1), of cmd s] by auto
  next
    case delete then show ?thesis using delete_run[OF that(2)] by fastforce
  next
    case update then show ?thesis using update_same[OF that(2)] by fastforce
  qed
qed (simp add: no_alarms_def service_ok_def)

section \<open>The service\<close>

text \<open>
  C15. Whatever alarms are created, started, stopped, changed and deleted, in any order and with any
  clock, the service stays well-formed (handles are distinct, the armed alarm exists, every running
  alarm has a time of day and a one-shot alarm a date), so that no operation on an alarm it has
  reaches outside its list or outside the table of months.
\<close>

theorem alarm_service_safe:
  assumes "alarm_step\<^sup>*\<^sup>* (no_alarms found) v" and "clock_ok e"
  shows "service_ok v \<and> (\<exists>v'. alarm_update e v = Some v') \<and>
    (\<forall>h. h \<in> handle ` set (alarm_list v) \<longrightarrow>
      (\<exists>r v'. rt_alarm_start e h v = Some (r, v')) \<and> (\<exists>r v'. rt_alarm_stop e h v = Some (r, v')) \<and>
      (\<exists>r v'. rt_alarm_delete e h v = Some (r, v')) \<and> (\<forall>cmd setup. \<exists>r v'. rt_alarm_control e h cmd setup v = Some (r, v')))"
proof -
  have v: "service_ok v" by (rule asv.reachable[OF assms(1) refl])
  have "\<exists>v'. alarm_update e v = Some v'" using update_same[OF v assms(2)] by blast
  moreover have "(\<exists>r v'. rt_alarm_start e h v = Some (r, v')) \<and> (\<exists>r v'. rt_alarm_stop e h v = Some (r, v')) \<and>
      (\<exists>r v'. rt_alarm_delete e h v = Some (r, v')) \<and> (\<forall>cmd setup. \<exists>r v'. rt_alarm_control e h cmd setup v = Some (r, v'))"
    if h: "h \<in> handle ` set (alarm_list v)" for h
    using start_defined[OF v h assms(2)] stop_run[OF v h assms(2)] delete_run[OF v h assms(2)] control_defined[OF v h assms(2)] by blast
  ultimately show ?thesis using v by simp
qed

text \<open>A service with the daily alarm, and the call that creates and starts a one-shot alarm beside it.\<close>

definition noon :: alarm_env where
  "noon = \<lparr>time_now = 43200, time_after = 43200, malloc_ok = True, stack_tm = gmtime_r 77\<rparr>"

definition one_alarm :: alarm_service where
  "one_alarm = snd (rt_alarm_create noon Alarm_cb \<lparr>setup_flag = RT_ALARM_DAILY, setup_wktime = gmtime_r 54000\<rparr> (no_alarms True))"

lemma one_alarm_reached: "alarm_step\<^sup>*\<^sup>* (no_alarms True) one_alarm"
  unfolding one_alarm_def by (rule r_into_rtranclp) (rule alarm_step.create[OF prod.collapse[symmetric]])

theorem alarm_service_safe_witness: "\<exists>r v'. rt_alarm_start noon 0 one_alarm = Some (r, v')"
proof -
  have "clock_ok noon" by (simp add: clock_ok_def noon_def)
  moreover have "0 \<in> handle ` set (alarm_list one_alarm)" by (simp add: one_alarm_def rt_alarm_create_def noon_def no_alarms_def)
  ultimately show ?thesis using alarm_service_safe[OF one_alarm_reached] by blast
qed


text \<open>
  C14. An update arms the alarm that comes next: on a board with a clock, if any running alarm is not due
  in this very second, the hardware afterwards holds the time of a running alarm, which the service
  remembers, and no other running alarm comes round sooner, today or after midnight.
\<close>

theorem update_arms_next:
  assumes "service_ok v" and "clock_ok e" and "rtc_found (rtc v)" and "alarm_update e v = Some v'"
    and "\<exists>a \<in> set (alarm_list v'). started a \<and> alarm_mkdaysec (wktime a) \<noteq> alarm_mkdaysec (gmtime_r (time_after e))"
  shows "armed_next (int (alarm_mkdaysec (gmtime_r (time_after e)))) v'"
  using alarm_update_run[OF assms(1,2)] assms(3-5) by (auto simp: offset_def)

text \<open>At noon, the daily alarm of three o'clock in the afternoon running beside one of eleven in the morning.\<close>

definition daily_at :: "nat \<Rightarrow> nat \<Rightarrow> rt_alarm" where
  "daily_at h t = \<lparr>handle = h, callback = Alarm_cb, alarm_mode = RT_ALARM_DAILY, inited = True, started = True, wktime = gmtime_r t\<rparr>"

definition two_alarms :: alarm_service where
  "two_alarms = (no_alarms True)\<lparr>next_handle := 2, alarm_list := [daily_at 1 39600, daily_at 0 54000]\<rparr>"

lemma two_alarms_ok: "service_ok two_alarms"
  using gmtime_ok[of 39600] gmtime_ok[of 54000]
  by (simp add: two_alarms_def service_ok_def no_alarms_def daily_at_def alarm_ok_def alarm_modes)

lemma daysec_gmtime:
  assumes "t < 2 ^ 32"
  shows "alarm_mkdaysec (gmtime_r t) = t mod 86400" "tm_sec (gmtime_r t) = int (t mod 86400 mod 60)"
    "tm_min (gmtime_r t) = int (t mod 86400 div 60 mod 60)" "tm_hour (gmtime_r t) = int (t mod 86400 div 60 div 60)"
proof -
  obtain m r where f: "tm_sec (gmtime_r t) = int (t mod 86400 mod 60)" "tm_min (gmtime_r t) = int (t mod 86400 div 60 mod 60)"
    "tm_hour (gmtime_r t) = int (t mod 86400 div 60 div 60)" using gmtime_fields[OF assms] by blast
  then show "tm_sec (gmtime_r t) = int (t mod 86400 mod 60)"
    "tm_min (gmtime_r t) = int (t mod 86400 div 60 mod 60)" "tm_hour (gmtime_r t) = int (t mod 86400 div 60 div 60)" .
  have "int (alarm_mkdaysec (gmtime_r t)) = int (t mod 86400)"
    using daysec_bound[OF gmtime_ok(1)[OF assms]] f by (simp add: zmod_int zdiv_int) presburger
  then show "alarm_mkdaysec (gmtime_r t) = t mod 86400" by simp
qed

lemma two_alarms_update:
  "\<exists>dev. alarm_update noon two_alarms = Some (two_alarms\<lparr>rtc := dev, current := Some 0\<rparr>) \<and> alarm_a dev = Some (15, 0, 0)"
proof -
  have d: "alarm_mkdaysec (gmtime_r 43200) = 43200" "alarm_mkdaysec (gmtime_r 39600) = 39600" "alarm_mkdaysec (gmtime_r 54000) = 54000"
    by (simp_all add: daysec_gmtime)
  have w: "for_each (alarm_wakeup (gmtime_r 43200)) [1, 0] two_alarms = Some two_alarms"
  proof -
    have "alarm_wakeup (gmtime_r 43200) h two_alarms = Some two_alarms" if "h = 0 \<or> h = 1" for h
    proof -
      from that have "find_alarm h two_alarms = Some (daily_at h (if h = 0 then 54000 else 39600))"
        by (auto simp: find_alarm_def two_alarms_def daily_at_def)
      then show ?thesis using that d
        by (auto simp: alarm_wakeup_def daily_at_def alarm_modes repeat_wakeup_def due_def RT_ALARM_DELAY_def to_u32_def
          Let_def two_alarms_def update_alarm_def)
    qed
    then show ?thesis by simp
  qed
  have "map handle (alarm_list two_alarms) = [1, 0]" by (simp add: two_alarms_def daily_at_def)
  moreover have "scan 43200 (alarm_list two_alarms) = ((10800, Some 0), (- 3600, Some 1))"
    using d by (simp add: scan_def two_alarms_def daily_at_def Let_def)
  moreover have "alarm_list two_alarms \<noteq> []" "daily_at 0 54000 \<in> set (alarm_list two_alarms)" "rtc_found (rtc two_alarms)"
    "distinct (map handle (alarm_list two_alarms))" "handle (daily_at 0 54000) = 0" "started (daily_at 0 54000)"
    "(tm_hour (wktime (daily_at 0 54000)), tm_min (wktime (daily_at 0 54000)), tm_sec (wktime (daily_at 0 54000))) = (15, 0, 0)"
    by (simp_all add: two_alarms_def daily_at_def no_alarms_def daysec_gmtime)
  ultimately show ?thesis
    using w arm_run[of two_alarms "daily_at 0 54000"] d(1) by (auto simp: alarm_update_eq rearm_def noon_def)
qed

theorem update_arms_next_witness:
  "\<exists>v'. alarm_update noon two_alarms = Some v' \<and> armed_next (int (alarm_mkdaysec (gmtime_r 43200))) v' \<and>
    current v' = Some 0 \<and> alarm_a (rtc v') = Some (15, 0, 0)"
proof -
  have c: "clock_ok noon" by (simp add: clock_ok_def noon_def)
  obtain dev where u: "alarm_update noon two_alarms = Some (two_alarms\<lparr>rtc := dev, current := Some 0\<rparr>)" "alarm_a dev = Some (15, 0, 0)"
    using two_alarms_update by blast
  let ?v = "two_alarms\<lparr>rtc := dev, current := Some 0\<rparr>"
  have "\<exists>a \<in> set (alarm_list ?v). started a \<and> alarm_mkdaysec (wktime a) \<noteq> alarm_mkdaysec (gmtime_r (time_after noon))"
    by (simp add: two_alarms_def daily_at_def noon_def daysec_gmtime)
  moreover have "rtc_found (rtc two_alarms)" by (simp add: two_alarms_def no_alarms_def)
  ultimately have "armed_next (int (alarm_mkdaysec (gmtime_r (time_after noon)))) ?v"
    using update_arms_next[OF two_alarms_ok c _ u(1)] by blast
  then show ?thesis using u by (simp add: noon_def)
qed


lemma count_distinct: "distinct xs \<Longrightarrow> count_list xs x = (if x \<in> set xs then 1 else 0)"
  by (induction xs) auto

lemma update_one:
  assumes "service_ok v" and "clock_ok e" and "find_alarm h v = Some a"
  shows "\<exists>v'. alarm_update e v = Some v' \<and> service_ok v' \<and> find_alarm h v' = Some (snd (wake (gmtime_r (time_now e)) a)) \<and>
    count_list (rung v') h = count_list (rung v) h + (if fst (wake (gmtime_r (time_now e)) a) then 1 else 0)"
proof -
  let ?now = "gmtime_r (time_now e)"
  from alarm_update_run[OF assms(1,2)] obtain v' where u: "alarm_update e v = Some v'" "service_ok v'"
    "alarm_list v' = map (\<lambda>a. snd (wake ?now a)) (alarm_list v)"
    "rung v' = rung v @ map handle (List.filter (\<lambda>a. fst (wake ?now a)) (alarm_list v))" by blast
  have a: "a \<in> set (alarm_list v)" "handle a = h" using find_alarm_mem[OF assms(3)] by auto
  have d: "distinct (map handle (alarm_list v))" using assms(1) by (simp add: service_ok_def)
  have "snd (wake ?now a) \<in> set (alarm_list v')" using a by (simp add: u)
  moreover have "handle (snd (wake ?now a)) = h"
    using wake_ok[of a ?now] a assms(1,2) gmtime_ok by (auto simp: service_ok_def clock_ok_def)
  ultimately have f: "find_alarm h v' = Some (snd (wake ?now a))" using find_alarm_Some[of v'] u(2) by (auto simp: service_ok_def)
  have "distinct (map handle (List.filter (\<lambda>a. fst (wake ?now a)) (alarm_list v)))" using d by (rule distinct_map_filter)
  moreover have "h \<in> handle ` set (List.filter (\<lambda>a. fst (wake ?now a)) (alarm_list v)) \<longleftrightarrow> fst (wake ?now a)"
    using a d by (auto simp: distinct_map dest: inj_onD)
  ultimately have "count_list (map handle (List.filter (\<lambda>a. fst (wake ?now a)) (alarm_list v))) h = (if fst (wake ?now a) then 1 else 0)"
    by (simp add: count_distinct)
  then show ?thesis using u f by auto
qed

lemma due_window: "ta < 2 ^ 32 \<Longrightarrow> t < 2 ^ 32 \<Longrightarrow> due t ta \<and> ta \<le> t \<longleftrightarrow> ta \<le> t \<and> t \<le> ta + 2"
  by (auto simp: due_def RT_ALARM_DELAY_def to_u32_id)

lemma wake_oneshot:
  assumes "t < 2 ^ 32" and "alarm_mode a = RT_ALARM_ONESHOT" and "timegm (wktime a) = Some ta" and "ta < 2 ^ 32"
  shows "wake (gmtime_r t) a = (if started a \<and> ta \<le> t \<and> t \<le> ta + 2 then (True, a\<lparr>started := False\<rparr>) else (False, a))"
  using assms due_window[OF assms(4,1)] timegm_gmtime[OF assms(1)] by (auto simp: wake_def)

lemma oneshot_run:
  assumes "service_ok v" and "find_alarm h v = Some a" and "alarm_mode a = RT_ALARM_ONESHOT" and "started a"
    and "timegm (wktime a) = Some ta" and "list_all clock_ok es"
  shows "\<exists>v'. for_each alarm_update es v = Some v' \<and>
    (let rings = list_ex (\<lambda>e. ta \<le> time_now e \<and> time_now e \<le> ta + 2) es in
     count_list (rung v') h = count_list (rung v) h + (if rings then 1 else 0) \<and>
     find_alarm h v' = Some (a\<lparr>started := \<not> rings\<rparr>))"
proof -
  have "time_ok (wktime a)" "date_ok (wktime a)"
    using find_alarm_mem[OF assms(2)] assms(1,3,4) by (auto simp: service_ok_def alarm_ok_def)
  from timegm_defined[OF this] have ta: "ta < 2 ^ 32" using assms(5) by auto
  have "\<exists>v'. for_each alarm_update es v = Some v' \<and>
    (let rings = started a \<and> list_ex (\<lambda>e. ta \<le> time_now e \<and> time_now e \<le> ta + 2) es in
     count_list (rung v') h = count_list (rung v) h + (if rings then 1 else 0) \<and>
     find_alarm h v' = Some (a\<lparr>started := started a \<and> \<not> rings\<rparr>))"
    using assms(1,2,3,5,6)
  proof (induction es arbitrary: v a)
    case (Cons e es)
    let ?a = "snd (wake (gmtime_r (time_now e)) a)"
    from Cons.prems(5) have e: "clock_ok e" by simp
    then have t: "time_now e < 2 ^ 32" by (simp add: clock_ok_def)
    from update_one[OF Cons.prems(1) e Cons.prems(2)] obtain v1 where
      v1: "alarm_update e v = Some v1" "service_ok v1" "find_alarm h v1 = Some ?a"
        "count_list (rung v1) h = count_list (rung v) h + (if fst (wake (gmtime_r (time_now e)) a) then 1 else 0)" by blast
    have w: "wake (gmtime_r (time_now e)) a = (if started a \<and> ta \<le> time_now e \<and> time_now e \<le> ta + 2 then (True, a\<lparr>started := False\<rparr>) else (False, a))"
      by (rule wake_oneshot[OF t Cons.prems(3,4) ta])
    have "alarm_mode ?a = RT_ALARM_ONESHOT" "timegm (wktime ?a) = Some ta" using Cons.prems(3,4) w by auto
    from Cons.IH[OF v1(2,3) this] Cons.prems(5) show ?case
      using v1 w by (cases "started a"; cases "ta \<le> time_now e \<and> time_now e \<le> ta + 2") (auto simp: Let_def)
  qed simp
  then show ?thesis using assms(4) by simp
qed

text \<open>
  C13. A one-shot alarm rings at most once: in a run of updates its callback runs exactly if one of them
  comes within two seconds from the time the alarm is set to, it is stopped then, and if none does it
  stays started and has not rung.
\<close>

theorem oneshot_rings_once:
  assumes "service_ok v" and "find_alarm h v = Some a" and "alarm_mode a = RT_ALARM_ONESHOT" and "started a"
    and "timegm (wktime a) = Some ta" and "list_all clock_ok es"
  shows "\<exists>v'. for_each alarm_update es v = Some v' \<and>
    (let rings = list_ex (\<lambda>e. ta \<le> time_now e \<and> time_now e \<le> ta + 2) es in
     count_list (rung v') h = count_list (rung v) h + (if rings then 1 else 0) \<and>
     find_alarm h v' = Some (a\<lparr>started := \<not> rings\<rparr>))"
  using oneshot_run[OF assms] .

text \<open>One alarm of the wake-up command, set to noon.\<close>

definition wake_at_noon :: rt_alarm where
  "wake_at_noon = \<lparr>handle = 0, callback = User_alarm_callback, alarm_mode = RT_ALARM_ONESHOT, inited = True, started = True,
     wktime = gmtime_r 43200\<rparr>"

theorem oneshot_rings_once_witness:
  "\<exists>v'. for_each alarm_update [noon\<lparr>time_now := 43201\<rparr>, noon\<lparr>time_now := 43202\<rparr>]
      ((no_alarms True)\<lparr>next_handle := 1, alarm_list := [wake_at_noon]\<rparr>) = Some v' \<and>
    count_list (rung v') 0 = 1 \<and> find_alarm 0 v' = Some (wake_at_noon\<lparr>started := False\<rparr>)"
proof -
  let ?v = "(no_alarms True)\<lparr>next_handle := 1, alarm_list := [wake_at_noon]\<rparr>"
  have "service_ok ?v"
    using gmtime_ok[of 43200] by (simp add: service_ok_def no_alarms_def wake_at_noon_def alarm_ok_def)
  moreover have "find_alarm 0 ?v = Some wake_at_noon" by (simp add: find_alarm_def wake_at_noon_def)
  moreover have "timegm (wktime wake_at_noon) = Some 43200" using timegm_gmtime[of 43200] by (simp add: wake_at_noon_def)
  ultimately show ?thesis
    using oneshot_rings_once[of ?v 0 wake_at_noon 43200 "[noon\<lparr>time_now := 43201\<rparr>, noon\<lparr>time_now := 43202\<rparr>]"]
    by (simp add: wake_at_noon_def noon_def clock_ok_def no_alarms_def)
qed

end
