(* ===== verification/Alarm.thy ===== *)
theory Alarm
  imports Alarmsvc
begin

text \<open>
  The alarms of the firmware on the alarm service: the one-shot wake-up alarm of
  \<^verbatim>\<open>src/applications/pm/ele_ds_pm.c\<close> and the daily alarm with its beeper of
  \<^verbatim>\<open>src/applications/alarm/ele_ds_alarm.c\<close>.
\<close>

text \<open>The fields of the broken-down time that the firmware copies into a setup.\<close>

definition copy_wktime :: "tm \<Rightarrow> tm \<Rightarrow> tm" where
  "copy_wktime junk t = junk\<lparr>tm_year := tm_year t, tm_mon := tm_mon t, tm_mday := tm_mday t, tm_wday := tm_wday t,
     tm_hour := tm_hour t, tm_min := tm_min t, tm_sec := tm_sec t\<rparr>"

section \<open>The wake-up alarm\<close>

text \<open>C's \<^verbatim>\<open>atoi\<close>: white space, a sign, digits; what follows is ignored.\<close>

fun skip_space :: "string \<Rightarrow> string" where
  "skip_space (c # cs) = (if c = CHR '' '' \<or> (9 \<le> (of_char c :: nat) \<and> (of_char c :: nat) \<le> 13) then skip_space cs else c # cs)" |
  "skip_space [] = []"

fun atoi_digits :: "int \<Rightarrow> string \<Rightarrow> int" where
  "atoi_digits n (c # cs) =
     (let d = (of_char c :: int) in if 48 \<le> d \<and> d \<le> 57 then atoi_digits (n * 10 + (d - 48)) cs else n)" |
  "atoi_digits n [] = n"

definition atoi :: "string \<Rightarrow> int" where
  "atoi s = (case skip_space s of
      [] \<Rightarrow> 0
    | c # cs \<Rightarrow> if c = CHR ''-'' then - atoi_digits 0 cs else if c = CHR ''+'' then atoi_digits 0 cs else atoi_digits 0 (c # cs))"

definition alarm_sample :: "alarm_env \<Rightarrow> string list \<Rightarrow> alarm_service \<Rightarrow> alarm_service option" where
  "alarm_sample e argv v =
     (if length argv < 2 then Some v
      else do {
        let alarm_time = to_u32 (atoi (argv ! 1));
        let curr_time = to_u32 (int (time_now e) + int alarm_time);
        let alarm_tm = gmtime_r curr_time;
        let stp = \<lparr>setup_flag = RT_ALARM_ONESHOT, setup_wktime = copy_wktime (stack_tm e) alarm_tm\<rparr>;
        v \<leftarrow> (case myalarm v of
            Some h \<Rightarrow> do { (_, v) \<leftarrow> rt_alarm_delete e h v; Some (v\<lparr>myalarm := None\<rparr>) }
          | None \<Rightarrow> Some v);
        case rt_alarm_create e User_alarm_callback stp v of
          (None, v) \<Rightarrow> Some (v\<lparr>myalarm := None\<rparr>)
        | (Some h, v) \<Rightarrow> do { (_, v) \<leftarrow> rt_alarm_start e h (v\<lparr>myalarm := Some h\<rparr>); Some v } })"

section \<open>The daily alarm\<close>

text \<open>
  The beeper of the callback. \<open>stop i\<close> is what the flag \<^verbatim>\<open>alarm_stop_beep\<close>, which the user interface
  sets, holds at the \<open>i\<close>-th test of the loop; the result is the number of beeps.
\<close>

fun beep_loop :: "(nat \<Rightarrow> bool) \<Rightarrow> nat \<Rightarrow> nat \<Rightarrow> nat" where
  "beep_loop stop i 0 = 0" |
  "beep_loop stop i (Suc n) = (if stop i then 0 else 1 + beep_loop stop (i + 1) n)"

record alarm_status =
  alarm_enable :: bool
  alarm_stop_beep :: bool
  beeps :: nat

definition alarm_cb :: "(nat \<Rightarrow> bool) \<Rightarrow> alarm_status \<Rightarrow> alarm_status" where
  "alarm_cb stop st =
     (if \<not> alarm_enable st then st
      else st\<lparr>beeps := beeps st + beep_loop stop 0 10, alarm_stop_beep := False\<rparr>)"

text \<open>The handle is a parameter passed by value: the caller's variable keeps its value.\<close>

definition ele_ds_alarm_init :: "alarm_env \<Rightarrow> nat option \<Rightarrow> nat \<Rightarrow> bool \<Rightarrow> alarm_service \<Rightarrow> (int \<times> nat option \<times> alarm_service) option" where
  "ele_ds_alarm_init e alarm set_alarm_time enable v = do {
     let alarm_tm = gmtime_r set_alarm_time;
     let stp = \<lparr>setup_flag = RT_ALARM_DAILY, setup_wktime = copy_wktime (stack_tm e) alarm_tm\<rparr>;
     case rt_alarm_create e Alarm_cb stp v of
       (None, v) \<Rightarrow> Some (- 3, alarm, v)
     | (Some h, v) \<Rightarrow>
         if enable then do {
           (rtret, v) \<leftarrow> rt_alarm_start e h v;
           Some (if rtret \<noteq> RT_EOK then - 2 else 0, alarm, v) }
         else Some (0, alarm, v) }"

section \<open>Properties\<close>

text \<open>The alarms that belong to the wake-up command, and the others.\<close>

definition own_alarms :: "alarm_service \<Rightarrow> rt_alarm list" where
  "own_alarms v = filter (\<lambda>a. callback a = User_alarm_callback) (alarm_list v)"

definition other_alarms :: "alarm_service \<Rightarrow> rt_alarm list" where
  "other_alarms v = filter (\<lambda>a. callback a \<noteq> User_alarm_callback) (alarm_list v)"

definition service_inv :: "alarm_service \<Rightarrow> bool" where
  "service_inv v \<longleftrightarrow> service_ok v \<and> map handle (own_alarms v) = (case myalarm v of None \<Rightarrow> [] | Some h \<Rightarrow> [h])"

lemma timegm_copy: "valid_tm t \<Longrightarrow> timegm (copy_wktime junk t) = timegm t"
proof -
  assume v: "valid_tm t"
  have "carry_fields (copy_wktime junk t) = copy_wktime junk t" "mday_loop (copy_wktime junk t) = Some (copy_wktime junk t)"
    "carry_fields t = t" "mday_loop t = Some t"
    using v by (auto simp: valid_tm_def copy_wktime_def intro: carry_fields_id mday_loop_id)
  then show ?thesis by (simp add: timegm_def Let_def copy_wktime_def)
qed

lemma copy_valid_timegm: "t < 2 ^ 32 \<Longrightarrow> timegm (copy_wktime junk (gmtime_r t)) = Some t"
  using gmtime_fields[of t] timegm_gmtime[of t] by (auto simp: timegm_copy)

lemma to_u32_less: "to_u32 x < 2 ^ 32"
  by (simp add: to_u32_def nat_less_iff)

lemma to_u32_add: "to_u32 (x + int (to_u32 y)) = to_u32 (x + y)"
  by (simp add: to_u32_def mod_add_right_eq)

lemma service_ok_myalarm: "service_ok (v\<lparr>myalarm := m\<rparr>) = service_ok v"
  by (cases "current v") (simp_all add: service_ok_def)

text \<open>
  What the commands rely on when they delete: the alarm is gone, the others keep their handle, callback
  and mode. A client that owns the alarms of one callback owns none after deleting its only one, and the
  alarms of the others are the same.
\<close>

locale alarm_provider =
  fixes ok :: "'s \<Rightarrow> bool" and alarms_of :: "'s \<Rightarrow> rt_alarm list" and clock :: "'s \<Rightarrow> bool"
    and remove :: "nat \<Rightarrow> 's \<Rightarrow> (int \<times> 's) option"
  assumes handles: "ok v \<Longrightarrow> distinct (map handle (alarms_of v))"
    and remove_law: "ok v \<Longrightarrow> h \<in> handle ` set (alarms_of v) \<Longrightarrow>
      \<exists>ret v'. remove h v = Some (ret, v') \<and> ok v' \<and> clock v' = clock v \<and>
        list_all2 same_alarm (alarms_of v') (filter (\<lambda>a. handle a \<noteq> h) (alarms_of v))"
begin

lemma remove_owned:
  assumes "ok v" and "filter (\<lambda>a. callback a = cb) (alarms_of v) = [a]"
  shows "\<exists>ret v'. remove (handle a) v = Some (ret, v') \<and> ok v' \<and> clock v' = clock v \<and> filter (\<lambda>a. callback a = cb) (alarms_of v') = [] \<and>
    list_all2 same_alarm (filter (\<lambda>a. callback a \<noteq> cb) (alarms_of v')) (filter (\<lambda>a. callback a \<noteq> cb) (alarms_of v))"
proof -
  have mem: "a \<in> set (alarms_of v)" "callback a = cb" using assms(2) by (auto dest: filter_eq_ConsD)
  have inj: "x = a" if "x \<in> set (alarms_of v)" "handle x = handle a" for x
    using handles[OF assms(1)] that mem(1) by (auto simp: distinct_map dest: inj_onD)
  obtain ret v' where d: "remove (handle a) v = Some (ret, v')" "ok v'" "clock v' = clock v"
    "list_all2 same_alarm (alarms_of v') (filter (\<lambda>b. handle b \<noteq> handle a) (alarms_of v))"
    using remove_law[OF assms(1) imageI[OF mem(1)]] by blast
  have "list_all2 same_alarm (filter (\<lambda>a. callback a = cb) (alarms_of v'))
      (filter (\<lambda>b. handle b \<noteq> handle a) (filter (\<lambda>a. callback a = cb) (alarms_of v)))"
    using same_filter[OF d(4), of "\<lambda>a. callback a = cb"] by (simp add: same_alarm_def conj_commute)
  then have "filter (\<lambda>a. callback a = cb) (alarms_of v') = []" by (simp add: assms(2))
  moreover have "filter (\<lambda>x. callback x \<noteq> cb) (filter (\<lambda>x. handle x \<noteq> handle a) (alarms_of v)) = filter (\<lambda>x. callback x \<noteq> cb) (alarms_of v)"
    unfolding filter_filter by (rule filter_cong) (use inj mem(2) in auto)
  then have "list_all2 same_alarm (filter (\<lambda>a. callback a \<noteq> cb) (alarms_of v')) (filter (\<lambda>a. callback a \<noteq> cb) (alarms_of v))"
    using same_filter[OF d(4), of "\<lambda>a. callback a \<noteq> cb"] by (simp add: same_alarm_def)
  ultimately show ?thesis using d by blast
qed

end

interpretation apr: alarm_provider "\<lambda>v. clock_ok e \<and> service_ok v" alarm_list "\<lambda>v. rtc_found (rtc v)" "rt_alarm_delete e" for e
proof (unfold_locales, goal_cases)
  case (1 v)
  then show ?case by (simp add: service_ok_def)
next
  case (2 v h)
  then show ?case using delete_run[of v h e] by auto
qed

lemma delete_own:
  assumes "service_inv v" and "myalarm v = Some h" and "clock_ok e"
  shows "\<exists>ret v'. rt_alarm_delete e h v = Some (ret, v') \<and> service_ok v' \<and> own_alarms v' = [] \<and>
    list_all2 same_alarm (other_alarms v') (other_alarms v) \<and> rtc_found (rtc v') = rtc_found (rtc v)"
proof -
  from assms have "map handle (own_alarms v) = [h]" by (simp add: service_inv_def)
  then obtain a where "own_alarms v = [a]" "handle a = h" by (auto simp: map_eq_Cons_conv)
  then show ?thesis
    using apr.remove_owned[of e v User_alarm_callback a] assms(1,3) unfolding own_alarms_def other_alarms_def service_inv_def by auto
qed

text \<open>Creating an alarm and starting it puts it in front of the others, which stay as they are.\<close>

lemma create_start:
  assumes "service_ok v" and "clock_ok e" and "malloc_ok e" and "rt_alarm_create e cb stp v = (Some h, v1)"
    and "setup_time (setup_flag stp div 256 mod 256 * 256) (gmtime_r (time_now e)) (setup_wktime stp) = (t, valid)"
  defines "a \<equiv> \<lparr>handle = h, callback = cb, alarm_mode = setup_flag stp div 256 mod 256 * 256, inited = False, started = False,
    wktime = setup_wktime stp\<rparr>"
  shows "alarm_list v1 = a # alarm_list v" "service_ok v1" "\<exists>ret v'. rt_alarm_start e h (v1\<lparr>myalarm := m\<rparr>) = Some (ret, v') \<and> service_ok v' \<and>
    alarm_list v' = started_as t valid a # alarm_list v \<and> myalarm v' = m \<and> rtc_found (rtc v') = rtc_found (rtc v) \<and>
    (rtc_found (rtc v) \<longrightarrow> (ret = RT_EOK \<longleftrightarrow> valid))"
proof -
  have c: "service_ok v1" "h = next_handle v" "h \<notin> handle ` set (alarm_list v)" using create_ok[OF assms(1,4)] assms(3) by auto
  show l: "alarm_list v1 = a # alarm_list v" using assms(3,4) by (auto simp: rt_alarm_create_def a_def)
  show "service_ok v1" by (rule c(1))
  have r: "rtc v1 = rtc v" using assms(3,4) by (auto simp: rt_alarm_create_def)
  have f: "find_alarm h (v1\<lparr>myalarm := m\<rparr>) = Some a" using l by (simp add: find_alarm_def a_def)
  have "map (\<lambda>b. if handle b = h then started_as t valid a else b) (a # alarm_list v) = started_as t valid a # alarm_list v"
    using c(3) by (auto simp: a_def intro!: map_idI)
  then show "\<exists>ret v'. rt_alarm_start e h (v1\<lparr>myalarm := m\<rparr>) = Some (ret, v') \<and> service_ok v' \<and>
    alarm_list v' = started_as t valid a # alarm_list v \<and> myalarm v' = m \<and> rtc_found (rtc v') = rtc_found (rtc v) \<and>
    (rtc_found (rtc v) \<longrightarrow> (ret = RT_EOK \<longleftrightarrow> valid))"
    using start_run[OF _ f, of e t valid] c(1) assms(2,5) l r by (auto simp: service_ok_myalarm a_def)
qed

section \<open>The time an alarm is set to\<close>

lemma month_loop_bounds:
  "0 \<le> w \<Longrightarrow> w < 365 \<Longrightarrow> month_loop 11 w \<le> 11 \<and> spm ! month_loop 11 w \<le> w \<and> w < spm ! Suc (month_loop 11 w)"
  unfolding month_loop_11 by (simp add: spm_def)

lemma month_table:
  assumes "i \<le> 11" and "i \<noteq> 1"
  shows "days_of_year_month y (int i) = spm ! Suc i - spm ! i"
proof -
  have "i = 0 \<or> i = 2 \<or> i = 3 \<or> i = 4 \<or> i = 5 \<or> i = 6 \<or> i = 7 \<or> i = 8 \<or> i = 9 \<or> i = 10 \<or> i = 11" using assms by arith
  then show ?thesis by (elim disjE) (simp_all add: days_of_year_month_def spm_def cmod_def cdiv_def)
qed

lemma month_days:
  assumes "0 \<le> w" and "w < (if leap then 366 else 365)" and "day_of_year leap w = (mon, mday)" and "leap = isleap (y + 1900)"
  shows "mday \<le> days_of_year_month y mon"
proof -
  define v where "v = (if leap \<and> w > 58 then w - 1 else w)"
  define i where "i = month_loop 11 v"
  have "0 \<le> v" "v < 365" using assms(1,2) by (auto simp: v_def split: if_splits)
  note b = month_loop_bounds[OF this, folded i_def]
  have d: "mon = int i" "mday = (if leap \<and> w = 59 then 2 else 1) + v - spm ! i"
    using assms(3) by (auto simp: day_of_year_def Let_def v_def i_def)
  have feb: "i = 1" if "leap" "w = 59" using that by (simp add: i_def v_def month_loop_11)
  have "(if leap then 29 else 28) \<le> days_of_year_month y 1" using assms(4) by (auto simp: days_of_year_month_def isleap_def Let_def)
  then show ?thesis
    using b d feb month_table[of i y] by (cases "i = 1") (auto simp: spm_def split: if_splits)
qed

lemma gmtime_date:
  assumes "t < 2 ^ 32"
  shows "is_valid_date (gmtime_r t) \<longleftrightarrow> t < 2145916800" "70 \<le> tm_year (gmtime_r t)"
proof -
  obtain i r where y: "year_loop (1970 + 0) (t div 86400) = (i, r)" by fastforce
  from year_loop_spec[OF this] obtain m where m: "i = 1970 + m" "t div 86400 = days_before m + r" "r < year_days (1970 + m)" by auto
  obtain mon mday where d: "day_of_year (isleap (int i)) (int r) = (mon, mday)" by fastforce
  have g: "tm_year (gmtime_r t) = int m + 70" "tm_mon (gmtime_r t) = mon" "tm_mday (gmtime_r t) = mday"
    using y d m(1) by (simp_all add: gmtime_r_def Let_def)
  show "70 \<le> tm_year (gmtime_r t)" by (simp add: g)
  have r: "int r < (if isleap (int i) then 366 else 365)" using m(1,3) by (simp add: year_days_def split: if_splits)
  have "mday \<le> days_of_year_month (int m + 70) mon"
    by (rule month_days[OF _ r d]) (simp_all add: m(1) add.commute)
  moreover have "0 \<le> mon \<and> mon \<le> 11 \<and> 1 \<le> mday" using day_of_year_valid[OF _ r d] by simp
  moreover have "m \<le> 67 \<longleftrightarrow> t < 2145916800"
  proof
    assume "m \<le> 67"
    then have "days_before (Suc m) \<le> days_before 68" by (intro days_before_mono) simp
    moreover have "days_before 68 = 24837" using days_before_formula[of 68] by simp
    ultimately show "t < 2145916800" using m(2,3) by simp
  next
    assume t: "t < 2145916800"
    show "m \<le> 67"
    proof (rule ccontr)
      assume "\<not> m \<le> 67"
      then have "days_before 68 \<le> days_before m" by (intro days_before_mono) simp
      moreover have "days_before 68 = 24837" using days_before_formula[of 68] by simp
      ultimately show False using m(2) t by simp
    qed
  qed
  ultimately show "is_valid_date (gmtime_r t) \<longleftrightarrow> t < 2145916800" by (auto simp: is_valid_date_def RT_RTC_YEARS_MAX_def g)
qed

text \<open>The last second of a day is out of reach of the service: an alarm set to it is moved a second ahead.\<close>

definition ring_time :: "nat \<Rightarrow> nat" where
  "ring_time t = (if t mod 86400 = 86399 then t - 1 else t)"

text \<open>The date depends on the day only, the time of day on the second of the day.\<close>

lemma gmtime_split:
  "gmtime_r t = (case year_loop 1970 (t div 86400) of (i, yday) \<Rightarrow> case day_of_year (isleap (int i)) (int yday) of (mon, mday) \<Rightarrow>
     \<lparr>tm_sec = int (t mod 86400 mod 60), tm_min = int (t mod 86400 div 60 mod 60), tm_hour = int (t mod 86400 div 60 div 60), tm_mday = mday,
      tm_mon = mon, tm_year = int i - 1900, tm_wday = int ((4 + t div 86400) mod 7), tm_yday = int yday, tm_isdst = rt_tz_is_dst\<rparr>)"
  unfolding gmtime_r_def Let_def by simp

lemma gmtime_ahead:
  assumes "t < 2 ^ 32"
  shows "ahead_of_midnight (copy_wktime junk (gmtime_r t)) = copy_wktime junk (gmtime_r (ring_time t))"
proof (cases "t mod 86400 = 86399")
  case True
  define d where "d = t div 86400"
  have t: "t = d * 86400 + 86399" using div_mult_mod_eq[of t 86400] True by (simp add: d_def)
  then have r: "ring_time t = 86398 + d * 86400" using True by (simp add: ring_time_def)
  have m: "ring_time t div 86400 = t div 86400" "ring_time t mod 86400 = 86398" unfolding r d_def[symmetric] by simp_all
  obtain i y where y: "year_loop 1970 (t div 86400) = (i, y)" by fastforce
  obtain mon md where d: "day_of_year (isleap (int i)) (int y) = (mon, md)" by fastforce
  have g: "gmtime_r t = \<lparr>tm_sec = 59, tm_min = 59, tm_hour = 23, tm_mday = md, tm_mon = mon, tm_year = int i - 1900,
      tm_wday = int ((4 + t div 86400) mod 7), tm_yday = int y, tm_isdst = rt_tz_is_dst\<rparr>"
    unfolding gmtime_split[of t] True y d prod.case by simp
  have "gmtime_r (ring_time t) = (gmtime_r t)\<lparr>tm_sec := 58\<rparr>"
    unfolding gmtime_split[of "ring_time t"] m y d prod.case g by simp
  then show ?thesis by (simp only: g) (simp add: ahead_of_midnight_def copy_wktime_def RT_ALARM_DELAY_def)
next
  case False
  have "\<not> (tm_hour (gmtime_r t) = 23 \<and> tm_min (gmtime_r t) = 59 \<and> tm_sec (gmtime_r t) = 59)"
    using False daysec_gmtime(1)[OF assms] by (auto simp: alarm_mkdaysec_def to_u32_id)
  then show ?thesis using False by (auto simp: ring_time_def ahead_of_midnight_def copy_wktime_def)
qed

lemma ring_time_less: "t < 2 ^ 32 \<Longrightarrow> ring_time t < 2 ^ 32"
  by (auto simp: ring_time_def)

text \<open>A setup with all its fields in range keeps them; a one-shot alarm is accepted exactly up to the year 2037.\<close>

lemma setup_copied:
  fixes junk :: tm
  assumes "t < 2 ^ 32"
  defines "w \<equiv> copy_wktime junk (gmtime_r t)"
  shows "setup_time RT_ALARM_ONESHOT now w = (w, t < 2145916800)" "setup_time RT_ALARM_DAILY now w = (w, True)"
proof -
  have f: "time_ok w" "0 \<le> tm_mon w" "1 \<le> tm_mday w" "70 \<le> tm_year w"
    using gmtime_fields[OF assms(1)] by (auto simp: w_def copy_wktime_def time_ok_def valid_tm_def)
  moreover have "is_valid_date w = is_valid_date (gmtime_r t)" by (simp add: w_def is_valid_date_def copy_wktime_def)
  ultimately show "setup_time RT_ALARM_ONESHOT now w = (w, t < 2145916800)" "setup_time RT_ALARM_DAILY now w = (w, True)"
    using gmtime_date[OF assms(1)] by (auto simp: setup_time_def alarm_modes time_ok_def RT_ALARM_TM_NOW_def Let_def)
qed


text \<open>The first half of the command: its previous alarm, if it has one, is deleted.\<close>

lemma previous_deleted:
  assumes "service_inv v" and "clock_ok e"
  shows "\<exists>w. (case myalarm v of Some h \<Rightarrow> do { (_, v) \<leftarrow> rt_alarm_delete e h v; Some (v\<lparr>myalarm := None\<rparr>) } | None \<Rightarrow> Some v) = Some w \<and>
      service_ok w \<and> own_alarms w = [] \<and> myalarm w = None \<and> list_all2 same_alarm (other_alarms w) (other_alarms v) \<and>
      rtc_found (rtc w) = rtc_found (rtc v)"
proof (cases "myalarm v")
  case None
  then show ?thesis using assms(1) by (auto simp: service_inv_def list_all2_same same_alarm_def)
next
  case (Some h)
  from delete_own[OF assms(1) Some assms(2)] obtain ret w where "rt_alarm_delete e h v = Some (ret, w)" "service_ok w" "own_alarms w = []"
    "list_all2 same_alarm (other_alarms w) (other_alarms v)" "rtc_found (rtc w) = rtc_found (rtc v)" by blast
  then show ?thesis using Some
    by (intro exI[of _ "w\<lparr>myalarm := None\<rparr>"]) (simp add: service_ok_myalarm own_alarms_def other_alarms_def)
qed

text \<open>
  The wake-up command replaces its alarm: the previous one is deleted, every other alarm stays with its
  callback and its mode, and if there is memory the command owns exactly one one-shot alarm, set to the
  present time plus the argument (modulo the range of \<^verbatim>\<open>time_t\<close>) and running unless that lies
  after the year 2037.
\<close>

lemma alarm_sample_spec:
  assumes "service_inv v" and "2 \<le> length argv" and "clock_ok e"
  defines "t \<equiv> to_u32 (int (time_now e) + atoi (argv ! 1))"
  shows "\<exists>v'. alarm_sample e argv v = Some v' \<and> service_inv v' \<and> list_all2 same_alarm (other_alarms v') (other_alarms v) \<and>
    rtc_found (rtc v') = rtc_found (rtc v) \<and>
    (if malloc_ok e
     then \<exists>a. own_alarms v' = [a] \<and> alarm_mode a = RT_ALARM_ONESHOT \<and> (started a \<longleftrightarrow> t < 2145916800) \<and>
       timegm (wktime a) = Some (if started a then ring_time t else t)
     else own_alarms v' = [])"
proof -
  obtain w where w: "(case myalarm v of Some h \<Rightarrow> do { (_, v) \<leftarrow> rt_alarm_delete e h v; Some (v\<lparr>myalarm := None\<rparr>) } | None \<Rightarrow> Some v) = Some w"
    "service_ok w" "own_alarms w = []" "myalarm w = None" "list_all2 same_alarm (other_alarms w) (other_alarms v)"
    "rtc_found (rtc w) = rtc_found (rtc v)" using previous_deleted[OF assms(1,3)] by blast
  define s where "s = \<lparr>setup_flag = RT_ALARM_ONESHOT, setup_wktime = copy_wktime (stack_tm e) (gmtime_r t)\<rparr>"
  have eq: "alarm_sample e argv v = (case rt_alarm_create e User_alarm_callback s w of
      (None, v) \<Rightarrow> Some (v\<lparr>myalarm := None\<rparr>)
    | (Some h, v) \<Rightarrow> do { (_, v) \<leftarrow> rt_alarm_start e h (v\<lparr>myalarm := Some h\<rparr>); Some v })"
    using assms(2) w(1) by (simp add: alarm_sample_def s_def t_def to_u32_add)
  have t: "t < 2 ^ 32" unfolding t_def by (rule to_u32_less)
  show ?thesis
  proof (cases "malloc_ok e")
    case True
    then obtain h v1 where c: "rt_alarm_create e User_alarm_callback s w = (Some h, v1)" by (simp add: rt_alarm_create_def)
    have m: "setup_flag s div 256 mod 256 * 256 = RT_ALARM_ONESHOT" by (simp add: s_def RT_ALARM_ONESHOT_def)
    let ?t = "copy_wktime (stack_tm e) (gmtime_r t)"
    have st: "setup_time (setup_flag s div 256 mod 256 * 256) (gmtime_r (time_now e)) (setup_wktime s) = (?t, t < 2145916800)"
      unfolding m using setup_copied(1)[OF t] by (simp add: s_def)
    let ?a = "started_as ?t (t < 2145916800) \<lparr>handle = h, callback = User_alarm_callback, alarm_mode = RT_ALARM_ONESHOT, inited = False,
      started = False, wktime = ?t\<rparr>"
    from create_start(3)[OF w(2) assms(3) True c st, of "Some h"] obtain ret v' where
      s: "rt_alarm_start e h (v1\<lparr>myalarm := Some h\<rparr>) = Some (ret, v')" "service_ok v'" "alarm_list v' = ?a # alarm_list w"
        "myalarm v' = Some h" "rtc_found (rtc v') = rtc_found (rtc w)"
      unfolding m by (auto simp: s_def)
    have own: "own_alarms v' = [?a]" "other_alarms v' = other_alarms w"
      using s(3) w(3) by (simp_all add: own_alarms_def other_alarms_def started_as_def)
    have "timegm (wktime ?a) = Some (if t < 2145916800 then ring_time t else t)"
      using copy_valid_timegm[OF t] copy_valid_timegm[OF ring_time_less[OF t]] gmtime_ahead[OF t] by (simp add: started_as_def)
    then show ?thesis
      using True eq c s own w(5,6) by (simp add: service_inv_def) (simp add: started_as_def)
  next
    case False
    then have "alarm_sample e argv v = Some w" unfolding eq using w(4) by (simp add: rt_alarm_create_def)
    then show ?thesis using False w by (simp add: service_inv_def)
  qed
qed

definition sample_env :: alarm_env where
  "sample_env = \<lparr>time_now = 1749600000, time_after = 1749600000, malloc_ok = True, stack_tm = gmtime_r 77\<rparr>"

lemma sample_env_ok: "clock_ok sample_env"
  by (simp add: clock_ok_def sample_env_def)

text \<open>
  Setting up the daily alarm on a board with a clock: it succeeds if there is memory, the alarm stands in
  front of the others, running if it is enabled, and the caller never learns its handle.
\<close>

theorem alarm_init_result:
  assumes "t < 2 ^ 32" and "service_ok v" and "clock_ok e" and "rtc_found (rtc v)"
  shows "\<exists>r v'. ele_ds_alarm_init e alarm t enable v = Some (r, alarm, v') \<and> service_ok v' \<and> r = (if malloc_ok e then 0 else - 3) \<and>
    (if malloc_ok e
     then \<exists>a. alarm_list v' = a # alarm_list v \<and> callback a = Alarm_cb \<and> alarm_mode a = RT_ALARM_DAILY \<and> (started a \<longleftrightarrow> enable) \<and>
       timegm (wktime a) = Some (if enable then ring_time t else t)
     else v' = v)"
proof -
  define s where "s = \<lparr>setup_flag = RT_ALARM_DAILY, setup_wktime = copy_wktime (stack_tm e) (gmtime_r t)\<rparr>"
  have eq: "ele_ds_alarm_init e alarm t enable v = (case rt_alarm_create e Alarm_cb s v of
      (None, v) \<Rightarrow> Some (- 3, alarm, v)
    | (Some h, v) \<Rightarrow> if enable then do { (rtret, v) \<leftarrow> rt_alarm_start e h v; Some (if rtret \<noteq> RT_EOK then - 2 else 0, alarm, v) }
        else Some (0, alarm, v))" by (simp add: ele_ds_alarm_init_def s_def)
  show ?thesis
  proof (cases "malloc_ok e")
    case True
    then obtain h v1 where c: "rt_alarm_create e Alarm_cb s v = (Some h, v1)" by (simp add: rt_alarm_create_def)
    have m: "setup_flag s div 256 mod 256 * 256 = RT_ALARM_DAILY" by (simp add: s_def RT_ALARM_DAILY_def)
    let ?t = "copy_wktime (stack_tm e) (gmtime_r t)"
    have st: "setup_time (setup_flag s div 256 mod 256 * 256) (gmtime_r (time_now e)) (setup_wktime s) = (?t, True)"
      unfolding m using setup_copied(2)[OF assms(1)] by (simp add: s_def)
    have tg: "timegm ?t = Some t" "timegm (ahead_of_midnight ?t) = Some (ring_time t)"
      using copy_valid_timegm[OF assms(1)] copy_valid_timegm[OF ring_time_less[OF assms(1)]] gmtime_ahead[OF assms(1)] by simp_all
    note cs = create_start[OF assms(2,3) True c st, unfolded m]
    show ?thesis
    proof (cases enable)
      case en: True
      have "v1\<lparr>myalarm := myalarm v1\<rparr> = v1" by simp
      with cs(3)[of "myalarm v1"] assms(4) show ?thesis
        using True en eq c tg by (fastforce simp: started_as_def s_def)
    next
      case False
      then show ?thesis using True eq c cs(1,2) tg by (simp add: s_def)
    qed
  next
    case False
    then show ?thesis using eq assms(2) by (simp add: rt_alarm_create_def)
  qed
qed

theorem alarm_init_result_witness:
  "\<exists>a v'. ele_ds_alarm_init sample_env None 1000 True (no_alarms True) = Some (0, None, v') \<and>
    alarm_list v' = [a] \<and> timegm (wktime a) = Some 1000"
proof -
  have "service_ok (no_alarms True)" "rtc_found (rtc (no_alarms True))" "alarm_list (no_alarms True) = []"
    by (simp_all add: no_alarms_def service_ok_def)
  then show ?thesis
    using alarm_init_result[OF _ _ sample_env_ok, of 1000 "no_alarms True" None True]
    by (auto simp: sample_env_def ring_time_def)
qed

text \<open>The beeper stops at the first test that finds the flag set, and after ten beeps at the latest.\<close>

lemma beep_loop_stops:
  "\<exists>k \<le> n. beep_loop stop i n = k \<and> (\<forall>j < k. \<not> stop (i + j)) \<and> (k = n \<or> stop (i + k))"
proof (induction n arbitrary: i)
  case (Suc n)
  from Suc.IH[of "i + 1"] obtain k where k: "k \<le> n" "beep_loop stop (i + 1) n = k"
    "\<forall>j < k. \<not> stop (i + 1 + j)" "k = n \<or> stop (i + 1 + k)" by blast
  show ?case
  proof (cases "stop i")
    case False
    have "\<not> stop (i + j)" if "j < k + 1" for j using k(3) False that by (cases j) auto
    then show ?thesis using k False by (intro exI[of _ "k + 1"]) auto
  qed auto
qed simp

lemma alarm_cb_rings:
  "alarm_enable st \<Longrightarrow> \<exists>k \<le> 10. beeps (alarm_cb stop st) = beeps st + k \<and> (\<forall>j < k. \<not> stop j) \<and> (k = 10 \<or> stop k) \<and>
    \<not> alarm_stop_beep (alarm_cb stop st)"
  using beep_loop_stops[of 10 stop 0] by (auto simp: alarm_cb_def)

end
