(* ===== verification/Sleep.thy ===== *)
theory Sleep
  imports Alarm
begin

text \<open>
  Power management: the part of RT-Thread's framework that the firmware drives
  (\<^verbatim>\<open>src/rt-thread/components/drivers/pm/pm.c\<close>), its sleep operation
  (\<^verbatim>\<open>src/applications/pm/ele_ds_pm.c\<close>) and the board pins it switches
  (\<^verbatim>\<open>src/applications/ele_ds/ele_ds.c\<close>). The framework is started with no tickless mode and no device
  registers for suspension, so those parts of the idle pass have nothing to do here. \<open>None\<close> is a call
  through a null pointer, an access outside an array or a failed assertion.
\<close>

section \<open>Modes and state\<close>

definition PM_SLEEP_MODE_NONE :: nat where [simp]: "PM_SLEEP_MODE_NONE = 0"
definition PM_SLEEP_MODE_IDLE :: nat where [simp]: "PM_SLEEP_MODE_IDLE = 1"
definition PM_SLEEP_MODE_LIGHT :: nat where [simp]: "PM_SLEEP_MODE_LIGHT = 2"
definition PM_SLEEP_MODE_DEEP :: nat where [simp]: "PM_SLEEP_MODE_DEEP = 3"
definition PM_SLEEP_MODE_STANDBY :: nat where [simp]: "PM_SLEEP_MODE_STANDBY = 4"
definition PM_SLEEP_MODE_SHUTDOWN :: nat where [simp]: "PM_SLEEP_MODE_SHUTDOWN = 5"
definition PM_SLEEP_MODE_MAX :: nat where [simp]: "PM_SLEEP_MODE_MAX = 6"
definition PM_RUN_MODE_NORMAL_SPEED :: nat where [simp]: "PM_RUN_MODE_NORMAL_SPEED = 1"
definition PM_RUN_MODE_MAX :: nat where [simp]: "PM_RUN_MODE_MAX = 4"
definition PM_POWER_ID :: nat where [simp]: "PM_POWER_ID = 1"
definition PM_MODULE_MAX_ID :: nat where [simp]: "PM_MODULE_MAX_ID = 17"
definition RT_EIO :: int where "RT_EIO = 12"
definition RT_EINVAL :: int where "RT_EINVAL = 5"

record rt_pm_module =
  req_status :: nat
  busy_flag :: bool
  timeout :: u32
  start_time :: u32

text \<open>
  The framework's record. The operations table holds the sleep operation only; \<open>run_op\<close> says whether
  it has an operation for changing the run mode.
\<close>

record rt_pm =
  init_flag :: bool
  modes :: "nat list"
  sleep_mode :: nat
  run_mode :: nat
  module_status :: "rt_pm_module list"
  sleep_status :: "u32 list"
  frequency_pending :: bool
  run_op :: bool

definition power_on :: rt_pm where
  "power_on = \<lparr>init_flag = False, modes = replicate 6 0, sleep_mode = 0, run_mode = 0,
     module_status = replicate 17 \<lparr>req_status = 0, busy_flag = False, timeout = 0, start_time = 0\<rparr>,
     sleep_status = replicate 5 0, frequency_pending = False, run_op = False\<rparr>"

definition rt_system_pm_init :: "bool \<Rightarrow> rt_pm \<Rightarrow> rt_pm" where
  "rt_system_pm_init ops_run pm = pm\<lparr>
     modes := (replicate 6 0)[PM_SLEEP_MODE_NONE := 1], sleep_mode := PM_SLEEP_MODE_NONE,
     module_status := (module_status pm)[PM_POWER_ID := (module_status pm ! PM_POWER_ID)\<lparr>req_status := 1\<rparr>],
     run_mode := PM_RUN_MODE_NORMAL_SPEED, run_op := ops_run, init_flag := True\<rparr>"

section \<open>Requests\<close>

definition mode_inc :: "nat \<Rightarrow> rt_pm \<Rightarrow> rt_pm" where
  "mode_inc mode pm =
     (if modes pm ! mode < 255 then pm\<lparr>modes := (modes pm)[mode := modes pm ! mode + 1]\<rparr> else pm)"

definition mode_dec :: "nat \<Rightarrow> rt_pm \<Rightarrow> rt_pm" where
  "mode_dec mode pm =
     (if 0 < modes pm ! mode then pm\<lparr>modes := (modes pm)[mode := modes pm ! mode - 1]\<rparr> else pm)"

definition rt_pm_request :: "nat \<Rightarrow> rt_pm \<Rightarrow> rt_pm" where
  "rt_pm_request mode pm =
     (if \<not> init_flag pm then pm else if mode > PM_SLEEP_MODE_MAX - 1 then pm else mode_inc mode pm)"

definition rt_pm_release :: "nat \<Rightarrow> rt_pm \<Rightarrow> rt_pm" where
  "rt_pm_release mode pm =
     (if \<not> init_flag pm then pm else if mode > PM_SLEEP_MODE_MAX - 1 then pm else mode_dec mode pm)"

definition rt_pm_release_all :: "nat \<Rightarrow> rt_pm \<Rightarrow> rt_pm" where
  "rt_pm_release_all mode pm =
     (if \<not> init_flag pm then pm else if mode > PM_SLEEP_MODE_MAX - 1 then pm
      else pm\<lparr>modes := (modes pm)[mode := 0]\<rparr>)"

definition set_req :: "nat \<Rightarrow> nat \<Rightarrow> rt_pm \<Rightarrow> rt_pm option" where
  "set_req module_id v pm = do {
     m \<leftarrow> load (module_status pm) module_id;
     ms \<leftarrow> store (module_status pm) module_id (m\<lparr>req_status := v\<rparr>);
     Some (pm\<lparr>module_status := ms\<rparr>) }"

definition rt_pm_module_request :: "nat \<Rightarrow> nat \<Rightarrow> rt_pm \<Rightarrow> rt_pm option" where
  "rt_pm_module_request module_id mode pm =
     (if \<not> init_flag pm then Some pm else if mode > PM_SLEEP_MODE_MAX - 1 then Some pm
      else if module_id > PM_MODULE_MAX_ID - 1 then Some pm
      else map_option (mode_inc mode) (set_req module_id 1 pm))"

definition rt_pm_module_release :: "nat \<Rightarrow> nat \<Rightarrow> rt_pm \<Rightarrow> rt_pm option" where
  "rt_pm_module_release module_id mode pm =
     (if \<not> init_flag pm then Some pm else if mode > PM_SLEEP_MODE_MAX - 1 then Some pm
      else if module_id > PM_MODULE_MAX_ID - 1 then Some pm
      else let pm = mode_dec mode pm in
        if modes pm ! mode = 0 then set_req module_id 0 pm else Some pm)"

text \<open>This one does not check the number of the module.\<close>

definition rt_pm_module_release_all :: "nat \<Rightarrow> nat \<Rightarrow> rt_pm \<Rightarrow> rt_pm option" where
  "rt_pm_module_release_all module_id mode pm =
     (if \<not> init_flag pm then Some pm else if mode > PM_SLEEP_MODE_MAX - 1 then Some pm
      else set_req module_id 0 (pm\<lparr>modes := (modes pm)[mode := 0]\<rparr>))"

definition rt_pm_module_delay_sleep :: "nat \<Rightarrow> u32 \<Rightarrow> u32 \<Rightarrow> rt_pm \<Rightarrow> rt_pm" where
  "rt_pm_module_delay_sleep module_id time now pm =
     (if \<not> init_flag pm then pm else if module_id > PM_MODULE_MAX_ID - 1 then pm
      else pm\<lparr>module_status := (module_status pm)[module_id :=
        (module_status pm ! module_id)\<lparr>busy_flag := True, timeout := time, start_time := now\<rparr>]\<rparr>)"

definition rt_pm_sleep_request :: "nat \<Rightarrow> nat \<Rightarrow> rt_pm \<Rightarrow> rt_pm" where
  "rt_pm_sleep_request module_id mode pm =
     (if module_id \<ge> PM_MODULE_MAX_ID then pm else if mode \<ge> PM_SLEEP_MODE_MAX - 1 then pm
      else pm\<lparr>sleep_status := (sleep_status pm)[mode := sleep_status pm ! mode OR push_bit (module_id mod 32) 1]\<rparr>)"

definition rt_pm_sleep_release :: "nat \<Rightarrow> nat \<Rightarrow> rt_pm \<Rightarrow> rt_pm" where
  "rt_pm_sleep_release module_id mode pm =
     (if module_id \<ge> PM_MODULE_MAX_ID then pm else if mode \<ge> PM_SLEEP_MODE_MAX - 1 then pm
      else pm\<lparr>sleep_status := (sleep_status pm)[mode := sleep_status pm ! mode AND NOT (push_bit (module_id mod 32) 1)]\<rparr>)"

section \<open>Choosing the mode\<close>

text \<open>The first index with a non-zero entry, or the value after the loop.\<close>

fun first_index :: "('a \<Rightarrow> bool) \<Rightarrow> 'a list \<Rightarrow> nat \<Rightarrow> nat \<Rightarrow> nat" where
  "first_index P [] i dflt = dflt" |
  "first_index P (x # xs) i dflt = (if P x then i else first_index P xs (i + 1) dflt)"

definition judge_sleep_mode :: "rt_pm \<Rightarrow> nat" where
  "judge_sleep_mode pm = first_index (\<lambda>w. w \<noteq> 0) (sleep_status pm) 0 PM_SLEEP_MODE_MAX"

definition pm_select_sleep_mode :: "rt_pm \<Rightarrow> nat" where
  "pm_select_sleep_mode pm =
     (let mode = first_index (\<lambda>c. c \<noteq> 0) (modes pm) 0 PM_SLEEP_MODE_DEEP; request_mode = judge_sleep_mode pm in
      if request_mode < mode then request_mode else mode)"

fun check_modules :: "u32 \<Rightarrow> rt_pm_module list \<Rightarrow> bool \<times> rt_pm_module list" where
  "check_modules now [] = (True, [])" |
  "check_modules now (m # ms) =
     (let m = (if busy_flag m \<and> now - start_time m > timeout m then m\<lparr>busy_flag := False, timeout := 0\<rparr> else m) in
      if busy_flag m then (False, m # ms)
      else case check_modules now ms of (idle, ms) \<Rightarrow> (idle, m # ms))"

definition pm_device_check_idle :: "u32 \<Rightarrow> rt_pm \<Rightarrow> bool \<times> rt_pm" where
  "pm_device_check_idle now pm =
     (if \<not> init_flag pm then (True, pm)
      else case check_modules now (module_status pm) of (idle, ms) \<Rightarrow> (idle, pm\<lparr>module_status := ms\<rparr>))"

definition rt_pm_run_enter :: "nat \<Rightarrow> rt_pm \<Rightarrow> (int \<times> rt_pm) option" where
  "rt_pm_run_enter mode pm =
     (if \<not> init_flag pm then Some (- RT_EIO, pm)
      else if mode > PM_RUN_MODE_MAX then Some (- RT_EINVAL, pm)
      else if mode < run_mode pm then
        if run_op pm then Some (RT_EOK, pm\<lparr>run_mode := mode\<rparr>) else None
      else Some (RT_EOK, pm\<lparr>frequency_pending := True, run_mode := mode\<rparr>))"

definition pm_frequency_scaling :: "rt_pm \<Rightarrow> rt_pm option" where
  "pm_frequency_scaling pm =
     (if frequency_pending pm then if run_op pm then Some (pm\<lparr>frequency_pending := False\<rparr>) else None else Some pm)"

section \<open>The board\<close>

datatype pin = LED0_PIN | V3_3_PIN | LEFT_KEY | MID_KEY | RIGHT_KEY | BEEP_PIN

datatype pin_mode = PIN_MODE_OUTPUT | PIN_MODE_INPUT_PULLUP

datatype low_power = Wfi | Sleep | Stop | Standby

text \<open>
  What the sleep operation switches: the clocks of the ports, the tick timer, the system clock (which
  the processor leaves on the internal oscillator after a stop), the pins, and the low-power entries
  so far, latest first. \<open>entry_stop_cnt\<close> is the operation's static counter.
\<close>

record system =
  pm :: rt_pm
  gpio_clock :: bool
  systick :: bool
  sysclk :: bool
  pin_mode_of :: "pin \<Rightarrow> pin_mode option"
  pin_level :: "pin \<Rightarrow> bool option"
  sleeps :: "low_power list"
  entry_stop_cnt :: u32
  alarms :: alarm_service

definition rt_pin_mode :: "pin \<Rightarrow> pin_mode \<Rightarrow> system \<Rightarrow> system" where
  "rt_pin_mode p m s = s\<lparr>pin_mode_of := (pin_mode_of s)(p := Some m)\<rparr>"

definition rt_pin_write :: "pin \<Rightarrow> bool \<Rightarrow> system \<Rightarrow> system" where
  "rt_pin_write p v s = s\<lparr>pin_level := (pin_level s)(p := Some v)\<rparr>"

definition ele_ds_gpio_deinit :: "system \<Rightarrow> system" where
  "ele_ds_gpio_deinit s = rt_pin_write LED0_PIN True (rt_pin_write V3_3_PIN False s)"

definition ele_ds_gpio_init :: "system \<Rightarrow> system" where
  "ele_ds_gpio_init s =
     (let s = rt_pin_mode LED0_PIN PIN_MODE_OUTPUT s;
          s = rt_pin_mode V3_3_PIN PIN_MODE_OUTPUT s;
          s = rt_pin_write V3_3_PIN True s;
          s = rt_pin_write LED0_PIN False s;
          s = rt_pin_mode LEFT_KEY PIN_MODE_INPUT_PULLUP s;
          s = rt_pin_mode MID_KEY PIN_MODE_INPUT_PULLUP s
      in rt_pin_mode RIGHT_KEY PIN_MODE_INPUT_PULLUP s)"

definition pm_clock_init_pwronoff :: "bool \<Rightarrow> system \<Rightarrow> system" where
  "pm_clock_init_pwronoff enable s =
     (if enable then ele_ds_gpio_init (s\<lparr>gpio_clock := True\<rparr>)
      else (ele_ds_gpio_deinit s)\<lparr>gpio_clock := False\<rparr>)"

definition low_power_entry :: "low_power \<Rightarrow> system \<Rightarrow> system" where
  "low_power_entry e s = s\<lparr>sleeps := e # sleeps s, sysclk := (if e = Stop then False else sysclk s)\<rparr>"

definition gas_detection_entey_stadnby :: "system \<Rightarrow> system" where
  "gas_detection_entey_stadnby s = low_power_entry Standby (s\<lparr>systick := False\<rparr>)"

section \<open>The sleep operation and the idle pass\<close>

definition deep_sleep :: "system \<Rightarrow> system" where
  "deep_sleep s =
     (let s = s\<lparr>entry_stop_cnt := entry_stop_cnt s + 1\<rparr>;
          s = pm_clock_init_pwronoff False s;
          s = s\<lparr>systick := False\<rparr>;
          s = low_power_entry Stop s
      in if 2 \<le> entry_stop_cnt s then
           let s = s\<lparr>sysclk := True, entry_stop_cnt := 0, systick := True\<rparr>;
               s = pm_clock_init_pwronoff True s
           in s\<lparr>pm := rt_pm_request PM_SLEEP_MODE_NONE (rt_pm_release PM_SLEEP_MODE_DEEP (pm s))\<rparr>
         else s)"

definition pm_entry_func :: "nat \<Rightarrow> nat \<Rightarrow> system \<Rightarrow> system option" where
  "pm_entry_func nest mode s =
     (if nest > 0 then Some s
      else if mode = PM_SLEEP_MODE_NONE then Some s
      else if mode = PM_SLEEP_MODE_IDLE then Some (low_power_entry Wfi s)
      else if mode = PM_SLEEP_MODE_LIGHT then Some (low_power_entry Sleep s)
      else if mode = PM_SLEEP_MODE_DEEP then Some (deep_sleep s)
      else if mode = PM_SLEEP_MODE_STANDBY then Some (gas_detection_entey_stadnby s)
      else if mode = PM_SLEEP_MODE_SHUTDOWN then Some s
      else None)"

definition pm_change_sleep_mode :: "nat \<Rightarrow> u32 \<Rightarrow> system \<Rightarrow> system option" where
  "pm_change_sleep_mode nest now s =
     (let p = pm s; p = p\<lparr>sleep_mode := pm_select_sleep_mode p\<rparr> in
      case pm_device_check_idle now p of (idle, p) \<Rightarrow>
        let p = (if \<not> idle \<and> PM_SLEEP_MODE_IDLE < sleep_mode p then p\<lparr>sleep_mode := PM_SLEEP_MODE_IDLE\<rparr> else p) in
        pm_entry_func nest (sleep_mode p) (s\<lparr>pm := p\<rparr>))"

definition rt_system_power_manager :: "nat \<Rightarrow> u32 \<Rightarrow> system \<Rightarrow> system option" where
  "rt_system_power_manager nest now s =
     (if \<not> init_flag (pm s) then Some s
      else do {
        p \<leftarrow> pm_frequency_scaling (pm s);
        pm_change_sleep_mode nest now (s\<lparr>pm := p\<rparr>) })"

definition ele_ds_pm_init :: "system \<Rightarrow> system" where
  "ele_ds_pm_init s = s\<lparr>pm := rt_system_pm_init False (pm s)\<rparr>"

text \<open>The console command \<open>sleep_mode\<close>: it sets the wake-up alarm and asks for deep sleep.\<close>

definition cmd_entry_sleep_mode :: "alarm_env \<Rightarrow> system \<Rightarrow> system option" where
  "cmd_entry_sleep_mode e s = do {
     v \<leftarrow> alarm_sample e [''alarm_sample'', ''10''] (alarms s);
     Some (s\<lparr>alarms := v, pm := rt_pm_release PM_SLEEP_MODE_NONE (rt_pm_request PM_SLEEP_MODE_DEEP (pm s))\<rparr>) }"

section \<open>Runs\<close>

text \<open>
  The steps of a running system: passes of the idle thread, the console command, updates of the alarm
  thread, and modules that ask for a delay.
\<close>

inductive pm_step :: "system \<Rightarrow> system \<Rightarrow> bool" where
  idle_pass: "rt_system_power_manager nest now s = Some s' \<Longrightarrow> pm_step s s'" |
  sleep_command: "clock_ok e \<Longrightarrow> cmd_entry_sleep_mode e s = Some s' \<Longrightarrow> pm_step s s'" |
  alarm_thread: "clock_ok e \<Longrightarrow> alarm_update e (alarms s) = Some v \<Longrightarrow> pm_step s (s\<lparr>alarms := v\<rparr>)" |
  delay: "pm_step s (s\<lparr>pm := rt_pm_module_delay_sleep i t now (pm s)\<rparr>)"

inductive_cases pm_stepE: "pm_step s s'"

definition board_reset :: system where
  "board_reset = \<lparr>pm = power_on, gpio_clock = True, systick = True, sysclk = True,
     pin_mode_of = (\<lambda>_. None), pin_level = (\<lambda>_. None), sleeps = [], entry_stop_cnt = 0,
     alarms = no_alarms True\<rparr>"

definition booted :: system where
  "booted = ele_ds_pm_init (ele_ds_gpio_init board_reset)"

definition awake :: "system \<Rightarrow> bool" where
  "awake s \<longleftrightarrow> gpio_clock s \<and> systick s \<and> sysclk s \<and> pin_level s V3_3_PIN = Some True"

definition pm_inv :: "system \<Rightarrow> bool" where
  "pm_inv s \<longleftrightarrow>
     init_flag (pm s) \<and> \<not> frequency_pending (pm s) \<and> \<not> run_op (pm s) \<and> run_mode (pm s) = PM_RUN_MODE_NORMAL_SPEED \<and>
     sleep_status (pm s) = replicate 5 0 \<and> length (module_status (pm s)) = 17 \<and>
     (\<exists>n d. modes (pm s) = [n, 0, 0, d, 0, 0] \<and> n \<le> 1 \<and> d \<le> 255 \<and> (n = 1 \<longrightarrow> entry_stop_cnt s = 0)) \<and>
     entry_stop_cnt s \<le> 1 \<and> (awake s \<longleftrightarrow> entry_stop_cnt s = 0) \<and> service_inv (alarms s)"

lemmas pm_requests = rt_pm_request_def rt_pm_release_def mode_inc_def mode_dec_def

lemmas pm_board = pm_clock_init_pwronoff_def ele_ds_gpio_init_def ele_ds_gpio_deinit_def rt_pin_mode_def
  rt_pin_write_def low_power_entry_def

lemma select_idle:
  assumes "sleep_status p = replicate 5 0" and "modes p = [n, 0, 0, d, 0, 0]"
  shows "pm_select_sleep_mode p = (if n = 0 then PM_SLEEP_MODE_DEEP else PM_SLEEP_MODE_NONE)"
  using assms by (simp add: pm_select_sleep_mode_def judge_sleep_mode_def eval_nat_numeral)

lemma check_modules_length: "length (snd (check_modules now ms)) = length ms"
  by (induction ms) (auto simp: Let_def split: prod.splits)

lemma u32_cnt_cases: "(c :: u32) \<le> 1 \<Longrightarrow> c = 0 \<or> c = 1"
  by (simp add: word_le_nat_alt) (metis One_nat_def le_Suc_eq le_zero_eq unat_1 unat_eq_zero word_unat_eq_iff)

lemma u32_two_gt_one: "\<not> 2 \<le> (1 :: u32)"
  by (simp add: word_le_nat_alt)

lemma booted_inv: "pm_inv booted"
  by (simp add: booted_def pm_inv_def ele_ds_pm_init_def rt_system_pm_init_def board_reset_def pm_board power_on_def
    awake_def service_inv_def service_ok_def no_alarms_def own_alarms_def eval_nat_numeral)

lemma inv_modes_eqI:
  assumes "pm_inv s"
  obtains n d where "modes (pm s) = [n, 0, 0, d, 0, 0]" "n \<le> 1" "d \<le> 255" "n = 1 \<longrightarrow> entry_stop_cnt s = 0"
  using assms by (auto simp: pm_inv_def)

lemma deep_sleep_first:
  assumes "pm_inv s" and "entry_stop_cnt s = 0" and "modes (pm s) ! 0 = 0"
  shows "pm_inv (deep_sleep s) \<and> entry_stop_cnt (deep_sleep s) = 1 \<and> pm (deep_sleep s) = pm s"
  using assms by (auto simp: pm_inv_def deep_sleep_def Let_def pm_board awake_def u32_two_gt_one)

lemma deep_sleep_second:
  assumes "pm_inv s" and "entry_stop_cnt s = 1"
  shows "pm_inv (deep_sleep s) \<and> entry_stop_cnt (deep_sleep s) = 0 \<and>
    modes (pm (deep_sleep s)) = (modes (pm s))[0 := 1, 3 := modes (pm s) ! 3 - 1]"
proof -
  from assms obtain n d where m: "modes (pm s) = [n, 0, 0, d, 0, 0]" "n \<le> 1" "d \<le> 255" "n = 1 \<longrightarrow> entry_stop_cnt s = 0"
    by (elim inv_modes_eqI)
  with assms(2) have "n = 0" by (cases n) auto
  with assms m show ?thesis
    by (auto simp: pm_inv_def deep_sleep_def Let_def pm_board awake_def pm_requests eval_nat_numeral)
qed

lemma deep_sleep_inv:
  assumes "pm_inv s" and "modes (pm s) ! 0 = 0"
  shows "pm_inv (deep_sleep s)"
proof -
  have "entry_stop_cnt s = 0 \<or> entry_stop_cnt s = 1" using assms by (intro u32_cnt_cases) (simp add: pm_inv_def)
  then show ?thesis using deep_sleep_first[OF assms(1)] deep_sleep_second[OF assms(1)] assms(2) by blast
qed

text \<open>An idle pass in terms of the invariant: what is left of it in this configuration.\<close>

lemma idle_pass_eq:
  assumes "pm_inv s"
  shows "\<exists>p. pm_inv (s\<lparr>pm := p\<rparr>) \<and> modes p = modes (pm s) \<and>
    module_status p = snd (check_modules now (module_status (pm s))) \<and>
    rt_system_power_manager nest now s =
      Some (if 0 < nest \<or> modes (pm s) ! 0 \<noteq> 0 then s\<lparr>pm := p\<rparr>
        else if fst (check_modules now (module_status (pm s))) then deep_sleep (s\<lparr>pm := p\<rparr>)
        else low_power_entry Wfi (s\<lparr>pm := p\<rparr>))"
proof -
  from assms obtain n d where m: "modes (pm s) = [n, 0, 0, d, 0, 0]" by (elim inv_modes_eqI)
  obtain idle ms where c: "check_modules now (module_status (pm s)) = (idle, ms)" by fastforce
  have len: "length ms = length (module_status (pm s))"
    using check_modules_length[of now "module_status (pm s)"] by (simp add: c)
  define q where "q = (pm s)\<lparr>sleep_mode := if n = 0 then 3 else 0, module_status := ms\<rparr>"
  define p where "p = (if n = 0 \<and> \<not> idle then q\<lparr>sleep_mode := 1\<rparr> else q)"
  have "pm_select_sleep_mode (pm s) = (if n = 0 then PM_SLEEP_MODE_DEEP else PM_SLEEP_MODE_NONE)"
    by (rule select_idle) (use assms m in \<open>auto simp: pm_inv_def\<close>)
  then have "rt_system_power_manager nest now s =
      Some (if 0 < nest \<or> modes (pm s) ! 0 \<noteq> 0 then s\<lparr>pm := p\<rparr>
        else if idle then deep_sleep (s\<lparr>pm := p\<rparr>) else low_power_entry Wfi (s\<lparr>pm := p\<rparr>))"
    using assms m c by (auto simp: rt_system_power_manager_def pm_inv_def pm_frequency_scaling_def
      pm_change_sleep_mode_def pm_device_check_idle_def pm_entry_func_def p_def q_def Let_def)
  moreover have "pm_inv (s\<lparr>pm := p\<rparr>)" using assms len by (auto simp: pm_inv_def p_def q_def awake_def)
  ultimately show ?thesis using c by (intro exI[of _ p]) (simp add: p_def q_def)
qed

text \<open>The sleep command returns, and its part in the power manager is the two requests.\<close>

lemma sleep_command_run:
  assumes "pm_inv s" and "clock_ok e"
  defines "t \<equiv> to_u32 (int (time_now e) + 10)"
  shows "\<exists>c. cmd_entry_sleep_mode e s = Some c \<and> pm_inv c \<and> module_status (pm c) = module_status (pm s) \<and>
    modes (pm c) = (modes (pm s))[0 := 0, 3 := min 255 (modes (pm s) ! 3 + 1)] \<and> entry_stop_cnt c = entry_stop_cnt s \<and>
    (malloc_ok e \<longrightarrow> (\<exists>a. own_alarms (alarms c) = [a] \<and> alarm_mode a = RT_ALARM_ONESHOT \<and> (started a \<longleftrightarrow> t < 2145916800) \<and>
      timegm (wktime a) = Some (if started a then ring_time t else t)))"
proof -
  from assms(1) obtain n d where m: "modes (pm s) = [n, 0, 0, d, 0, 0]" "n \<le> 1" "d \<le> 255" "n = 1 \<longrightarrow> entry_stop_cnt s = 0"
    by (elim inv_modes_eqI)
  let ?p = "rt_pm_release PM_SLEEP_MODE_NONE (rt_pm_request PM_SLEEP_MODE_DEEP (pm s))"
  have i: "service_inv (alarms s)" "init_flag (pm s)" using assms(1) by (simp_all add: pm_inv_def)
  have p: "modes ?p = [0, 0, 0, min 255 (d + 1), 0, 0]" "module_status ?p = module_status (pm s)"
    using m i(2) by (auto simp: pm_requests eval_nat_numeral)
  have arg: "atoi ([''alarm_sample'', ''10''] ! 1) = 10" "2 \<le> length [''alarm_sample'', ''10'']" by (simp_all add: atoi_def)
  obtain v where v: "alarm_sample e [''alarm_sample'', ''10''] (alarms s) = Some v" "service_inv v"
    "if malloc_ok e then \<exists>a. own_alarms v = [a] \<and> alarm_mode a = RT_ALARM_ONESHOT \<and> (started a \<longleftrightarrow> t < 2145916800) \<and>
      timegm (wktime a) = Some (if started a then ring_time t else t) else own_alarms v = []"
    using alarm_sample_spec[OF i(1) arg(2) assms(2), unfolded arg(1), folded t_def] by blast
  have "pm_inv (s\<lparr>alarms := v, pm := ?p\<rparr>)"
    using assms(1) v(2) m p by (auto simp: pm_inv_def awake_def pm_requests)
  moreover have "modes ?p = (modes (pm s))[0 := 0, 3 := min 255 (modes (pm s) ! 3 + 1)]" unfolding p(1) m(1) by (simp add: numeral_3_eq_3)
  ultimately show ?thesis
    using v p(2) by (intro exI[of _ "s\<lparr>alarms := v, pm := ?p\<rparr>"]) (simp add: cmd_entry_sleep_mode_def)
qed

lemma update_inv:
  assumes "service_inv v" and "clock_ok e"
  shows "\<exists>v'. alarm_update e v = Some v' \<and> service_inv v'"
proof -
  from assms(1) have "service_ok v" by (simp add: service_inv_def)
  from update_same[OF this assms(2)] obtain v' where u: "alarm_update e v = Some v'" "service_ok v'"
    "list_all2 same_alarm (alarm_list v') (alarm_list v)" "myalarm v' = myalarm v" by blast
  have "list_all2 same_alarm (own_alarms v') (own_alarms v)"
    unfolding own_alarms_def by (rule same_filter[OF u(3)]) (simp add: same_alarm_def)
  from same_handles[OF this] show ?thesis using u assms(1) by (simp add: service_inv_def)
qed

lemma wfi_inv: "pm_inv s \<Longrightarrow> pm_inv (low_power_entry Wfi s)"
  by (simp add: pm_inv_def low_power_entry_def awake_def)

lemma pm_step_inv:
  assumes "pm_step s s'" and "pm_inv s"
  shows "pm_inv s'"
  using assms(1)
proof (cases rule: pm_step.cases)
  case (idle_pass nest now)
  from idle_pass_eq[OF assms(2), of now nest] obtain p where
    p: "pm_inv (s\<lparr>pm := p\<rparr>)" "modes p = modes (pm s)"
       "Some s' = Some (if 0 < nest \<or> modes (pm s) ! 0 \<noteq> 0 then s\<lparr>pm := p\<rparr>
        else if fst (check_modules now (module_status (pm s))) then deep_sleep (s\<lparr>pm := p\<rparr>)
        else low_power_entry Wfi (s\<lparr>pm := p\<rparr>))"
    using idle_pass by auto
  have "pm_inv (deep_sleep (s\<lparr>pm := p\<rparr>))" if "modes (pm s) ! 0 = 0"
    by (rule deep_sleep_inv[OF p(1)]) (use that p(2) in simp)
  then show ?thesis using p wfi_inv[OF p(1)] by (auto split: if_splits)
next
  case (sleep_command e)
  from sleep_command_run[OF assms(2) sleep_command(1)] sleep_command(2) show ?thesis by auto
next
  case (alarm_thread e v)
  from assms(2) have "service_inv (alarms s)" by (simp add: pm_inv_def)
  from update_inv[OF this alarm_thread(2)] alarm_thread(3) have "service_inv v" by auto
  then show ?thesis using assms(2) alarm_thread(1) by (simp add: pm_inv_def awake_def)
next
  case (delay i t now)
  then show ?thesis using assms(2) by (auto simp: pm_inv_def rt_pm_module_delay_sleep_def awake_def)
qed

interpretation pmm: machine "\<lambda>s. s = booted" pm_step pm_inv
  by unfold_locales (auto intro: booted_inv pm_step_inv)

lemmas reachable_inv = pmm.reachable[OF _ refl]

section \<open>Properties\<close>


text \<open>The booted system after the sleep command.\<close>

definition sent_to_sleep :: system where
  "sent_to_sleep = the (cmd_entry_sleep_mode sample_env booted)"

lemma sent_to_sleep_run: "cmd_entry_sleep_mode sample_env booted = Some sent_to_sleep"
  using sleep_command_run[OF booted_inv sample_env_ok] by (auto simp: sent_to_sleep_def)

lemma booted_steps: "pm_step\<^sup>*\<^sup>* booted sent_to_sleep"
  using pm_step.sleep_command[OF sample_env_ok sent_to_sleep_run] by blast


lemma no_busy_check: "list_all (\<lambda>m. \<not> busy_flag m) ms \<Longrightarrow> check_modules now ms = (True, ms)"
  by (induction ms) auto

lemma deep_sleep_stop: "hd (sleeps (deep_sleep s)) = Stop" "module_status (pm (deep_sleep s)) = module_status (pm s)"
  "alarms (deep_sleep s) = alarms s"
  by (simp_all add: deep_sleep_def Let_def pm_board pm_requests)

lemma deep_pass:
  assumes "pm_inv s" and "modes (pm s) ! 0 = 0" and "list_all (\<lambda>m. \<not> busy_flag m) (module_status (pm s))"
  shows "\<exists>s'. rt_system_power_manager 0 now s = Some s' \<and> hd (sleeps s') = Stop \<and> pm_inv s' \<and>
    module_status (pm s') = module_status (pm s) \<and> alarms s' = alarms s \<and>
    (if entry_stop_cnt s = 0 then entry_stop_cnt s' = 1 \<and> modes (pm s') = modes (pm s)
     else entry_stop_cnt s' = 0 \<and> modes (pm s') = (modes (pm s))[0 := 1, 3 := modes (pm s) ! 3 - 1])"
proof -
  from idle_pass_eq[OF assms(1), of now 0] assms(2,3) obtain p where
    p: "pm_inv (s\<lparr>pm := p\<rparr>)" "modes p = modes (pm s)" "module_status p = module_status (pm s)"
       "rt_system_power_manager 0 now s = Some (deep_sleep (s\<lparr>pm := p\<rparr>))"
    by (auto simp: no_busy_check)
  let ?s = "s\<lparr>pm := p\<rparr>"
  have "entry_stop_cnt s = 0 \<or> entry_stop_cnt s = 1" using assms(1) by (intro u32_cnt_cases) (simp add: pm_inv_def)
  then show ?thesis
    using p deep_sleep_first[OF p(1)] deep_sleep_second[OF p(1)] assms(2) deep_sleep_stop[of ?s] by auto
qed

text \<open>
  C11. Sleep always ends: in whatever state the system is, once run mode is not requested and no
  module asks for a delay, at most two passes of the idle thread stop the processor and bring the
  board back to run mode. The first of two leaves the clocks, the tick timer and the supply off, and
  the threads that run before the second find them so.
\<close>

theorem sleep_wakes_up:
  assumes "pm_step\<^sup>*\<^sup>* booted s" and "modes (pm s) ! PM_SLEEP_MODE_NONE = 0"
    and "list_all (\<lambda>m. \<not> busy_flag m) (module_status (pm s))"
  shows "\<exists>s1. rt_system_power_manager 0 now s = Some s1 \<and> hd (sleeps s1) = Stop \<and>
    (if entry_stop_cnt s = 0
     then \<not> awake s1 \<and> (\<exists>s2. rt_system_power_manager 0 now' s1 = Some s2 \<and> hd (sleeps s2) = Stop \<and>
       awake s2 \<and> modes (pm s2) ! PM_SLEEP_MODE_NONE = 1)
     else awake s1 \<and> modes (pm s1) ! PM_SLEEP_MODE_NONE = 1)"
proof -
  note i = reachable_inv[OF assms(1)]
  from deep_pass[OF i, of now] assms obtain s1 where s1: "rt_system_power_manager 0 now s = Some s1"
    "hd (sleeps s1) = Stop" "pm_inv s1" "module_status (pm s1) = module_status (pm s)"
    "if entry_stop_cnt s = 0 then entry_stop_cnt s1 = 1 \<and> modes (pm s1) = modes (pm s)
     else entry_stop_cnt s1 = 0 \<and> modes (pm s1) = (modes (pm s))[0 := 1, 3 := modes (pm s) ! 3 - 1]" by auto
  have len: "length (modes (pm t)) = 6" if "pm_inv t" for t using that by (auto simp: pm_inv_def)
  have aw: "awake t \<longleftrightarrow> entry_stop_cnt t = 0" if "pm_inv t" for t using that by (simp add: pm_inv_def)
  show ?thesis
  proof (cases "entry_stop_cnt s = 0")
    case True
    with s1 assms deep_pass[OF s1(3), of now'] obtain s2 where
      "rt_system_power_manager 0 now' s1 = Some s2" "hd (sleeps s2) = Stop" "pm_inv s2"
      "entry_stop_cnt s2 = 0" "modes (pm s2) = (modes (pm s1))[0 := 1, 3 := modes (pm s1) ! 3 - 1]" by auto
    then show ?thesis using True s1 aw len[OF s1(3)] by auto
  next
    case False
    then show ?thesis using s1 aw len[OF i] by auto
  qed
qed

lemma booted_simps:
  "modes (pm booted) = [1, 0, 0, 0, 0, 0]" "list_all (\<lambda>m. \<not> busy_flag m) (module_status (pm booted))"
  "entry_stop_cnt booted = 0" "init_flag (pm booted)"
  by (simp_all add: booted_def ele_ds_pm_init_def rt_system_pm_init_def board_reset_def pm_board power_on_def
    eval_nat_numeral)

lemma sent_to_sleep_simps:
  "modes (pm sent_to_sleep) = [0, 0, 0, 1, 0, 0]" "module_status (pm sent_to_sleep) = module_status (pm booted)" "entry_stop_cnt sent_to_sleep = 0"
proof -
  from sleep_command_run[OF booted_inv sample_env_ok] obtain c where c: "cmd_entry_sleep_mode sample_env booted = Some c"
    "module_status (pm c) = module_status (pm booted)"
    "modes (pm c) = (modes (pm booted))[0 := 0, 3 := min 255 (modes (pm booted) ! 3 + 1)]" "entry_stop_cnt c = entry_stop_cnt booted" by blast
  moreover have "c = sent_to_sleep" using c(1) sent_to_sleep_run by simp
  ultimately show "modes (pm sent_to_sleep) = [0, 0, 0, 1, 0, 0]" "module_status (pm sent_to_sleep) = module_status (pm booted)"
    "entry_stop_cnt sent_to_sleep = 0" by (simp_all add: booted_simps eval_nat_numeral)
qed

theorem sleep_wakes_up_witness:
  "\<exists>s1 s2. rt_system_power_manager 0 5 sent_to_sleep = Some s1 \<and> \<not> awake s1 \<and>
    rt_system_power_manager 0 9 s1 = Some s2 \<and> awake s2 \<and> modes (pm s2) ! PM_SLEEP_MODE_NONE = 1"
  using sleep_wakes_up[OF booted_steps, of 5 9] by (auto simp: sent_to_sleep_simps booted_simps)


text \<open>
  C12. The sleep command as a whole: from run mode, with memory and before the year 2038, it returns having
  armed one wake-up alarm ten seconds ahead (nine, if that is the last second of a day) and asked for
  deep sleep; the next pass of the idle thread stops the processor, the one after it brings the board
  back with every request counter as it was before. In any run of the alarm thread from then on the
  alarm rings once if an update comes within two seconds of its time, and otherwise never.
\<close>

theorem sleep_command_cycle:
  assumes "pm_step\<^sup>*\<^sup>* booted s" and "modes (pm s) ! PM_SLEEP_MODE_NONE = 1" and "modes (pm s) ! PM_SLEEP_MODE_DEEP < 255"
    and "list_all (\<lambda>m. \<not> busy_flag m) (module_status (pm s))" and "malloc_ok e" and "clock_ok e" and "time_now e + 10 < 2145916800"
    and "list_all clock_ok es"
  shows "\<exists>c a s1 s2 v. cmd_entry_sleep_mode e s = Some c \<and> own_alarms (alarms c) = [a] \<and> started a \<and>
    timegm (wktime a) = Some (ring_time (time_now e + 10)) \<and>
    rt_system_power_manager 0 now c = Some s1 \<and> hd (sleeps s1) = Stop \<and> \<not> awake s1 \<and>
    rt_system_power_manager 0 now' s1 = Some s2 \<and> hd (sleeps s2) = Stop \<and> awake s2 \<and> modes (pm s2) = modes (pm s) \<and>
    for_each alarm_update es (alarms s2) = Some v \<and>
    count_list (rung v) (handle a) = count_list (rung (alarms c)) (handle a) +
      (if list_ex (\<lambda>e'. ring_time (time_now e + 10) \<le> time_now e' \<and> time_now e' \<le> ring_time (time_now e + 10) + 2) es then 1 else 0)"
proof -
  note i = reachable_inv[OF assms(1)]
  from i obtain n d where m: "modes (pm s) = [n, 0, 0, d, 0, 0]" "n = 1 \<longrightarrow> entry_stop_cnt s = 0" by (elim inv_modes_eqI)
  have t: "to_u32 (int (time_now e) + 10) = time_now e + 10" using assms(7) by (simp add: to_u32_def nat_add_distrib)
  from sleep_command_run[OF i assms(6), unfolded t] assms(5) obtain c a where c: "cmd_entry_sleep_mode e s = Some c" "pm_inv c"
    "module_status (pm c) = module_status (pm s)" "modes (pm c) = (modes (pm s))[0 := 0, 3 := min 255 (modes (pm s) ! 3 + 1)]"
    "entry_stop_cnt c = entry_stop_cnt s"
    and al: "own_alarms (alarms c) = [a]" "alarm_mode a = RT_ALARM_ONESHOT" "started a \<longleftrightarrow> time_now e + 10 < 2145916800"
      "timegm (wktime a) = Some (if started a then ring_time (time_now e + 10) else time_now e + 10)" by blast
  have a: "own_alarms (alarms c) = [a]" "started a" "alarm_mode a = RT_ALARM_ONESHOT" "timegm (wktime a) = Some (ring_time (time_now e + 10))"
    using al assms(7) by simp_all
  have cm: "modes (pm c) = [0, 0, 0, d + 1, 0, 0]" "entry_stop_cnt c = 0"
    using c(4,5) assms(2,3) m by (simp_all add: eval_nat_numeral)
  from deep_pass[OF c(2), of now] cm c(3) assms(4) obtain s1 where s1: "rt_system_power_manager 0 now c = Some s1"
    "hd (sleeps s1) = Stop" "pm_inv s1" "module_status (pm s1) = module_status (pm s)" "alarms s1 = alarms c"
    "entry_stop_cnt s1 = 1" "modes (pm s1) = modes (pm c)" by auto
  from deep_pass[OF s1(3), of now'] s1 cm assms(4) obtain s2 where s2: "rt_system_power_manager 0 now' s1 = Some s2"
    "hd (sleeps s2) = Stop" "pm_inv s2" "alarms s2 = alarms s1" "entry_stop_cnt s2 = 0"
    "modes (pm s2) = (modes (pm s1))[0 := 1, 3 := modes (pm s1) ! 3 - 1]" by auto
  have ok: "service_ok (alarms c)" using c(2) by (simp add: pm_inv_def service_inv_def)
  have "a \<in> set (own_alarms (alarms c))" by (simp add: a(1))
  then have "find_alarm (handle a) (alarms c) = Some a"
    using ok by (intro find_alarm_Some) (auto simp: service_ok_def own_alarms_def)
  from oneshot_run[OF ok this a(3,2,4) assms(8)] obtain v where "for_each alarm_update es (alarms c) = Some v"
    "count_list (rung v) (handle a) = count_list (rung (alarms c)) (handle a) +
      (if list_ex (\<lambda>e'. ring_time (time_now e + 10) \<le> time_now e' \<and> time_now e' \<le> ring_time (time_now e + 10) + 2) es then 1 else 0)"
    by (auto simp: Let_def)
  moreover have "\<not> awake s1" "awake s2" using s1(3,6) s2(3,5) by (simp_all add: pm_inv_def)
  moreover have "modes (pm s2) = modes (pm s)" using s2(6) s1(7) cm(1) m(1) assms(2) by (simp add: eval_nat_numeral)
  ultimately show ?thesis using a c(1) s1 s2 by auto
qed

theorem sleep_command_cycle_witness:
  "\<exists>a s1 s2 v. own_alarms (alarms sent_to_sleep) = [a] \<and> timegm (wktime a) = Some 1749600010 \<and>
    rt_system_power_manager 0 5 sent_to_sleep = Some s1 \<and>
    rt_system_power_manager 0 9 s1 = Some s2 \<and> modes (pm s2) = [1, 0, 0, 0, 0, 0] \<and>
    for_each alarm_update [sample_env\<lparr>time_now := 1749600011\<rparr>] (alarms s2) = Some v \<and>
    count_list (rung v) (handle a) = count_list (rung (alarms sent_to_sleep)) (handle a) + 1"
proof -
  have "ring_time 1749600010 = 1749600010" by (simp add: ring_time_def)
  then show ?thesis
    using sleep_command_cycle[of booted sample_env "[sample_env\<lparr>time_now := 1749600011\<rparr>]" 5 9] booted_simps sent_to_sleep_run
    by (auto simp: sample_env_def clock_ok_def)
qed

text \<open>
  C40. The command that switches the run mode brings the system down: the operations table has no
  entry for it. Switching to a faster mode calls the null pointer at once, any other valid mode in the
  next pass of the idle thread.
\<close>

theorem run_mode_switch_faults:
  assumes "pm_step\<^sup>*\<^sup>* booted s" and "mode \<le> PM_RUN_MODE_MAX"
  shows "rt_pm_run_enter mode (pm s) = None \<and> mode < PM_RUN_MODE_NORMAL_SPEED \<or>
    (\<exists>p. rt_pm_run_enter mode (pm s) = Some (RT_EOK, p) \<and> rt_system_power_manager nest now (s\<lparr>pm := p\<rparr>) = None)"
  using reachable_inv[OF assms(1)] assms(2)
  by (auto simp: pm_inv_def rt_pm_run_enter_def rt_system_power_manager_def pm_frequency_scaling_def)

theorem run_mode_switch_faults_witness:
  "rt_pm_run_enter 0 (pm booted) = None"
  using run_mode_switch_faults[of booted 0 0 0] by (simp add: rt_pm_run_enter_def booted_def ele_ds_pm_init_def rt_system_pm_init_def)
end
