(* ===== verification/Device.thy ===== *)
theory Device
  imports Config Gzp6816d Sleep
begin

text \<open>
  The device itself: the sensor readings, the battery, the start-up and the main loop of
  \<^verbatim>\<open>src/applications/ele_ds/ele_ds.c\<close> and \<^verbatim>\<open>src/applications/main.c\<close>. The humidity sensor's package,
  the converter and what the framework finds are part of the environment of a round; the pressure
  sensor is read through its driver. Floating-point values are exact rationals. \<open>None\<close> is a failed
  assertion.
\<close>

section \<open>State\<close>

definition BAT_ADC_CH :: nat where "BAT_ADC_CH = 9"
definition MAX_VBAT :: rat where "MAX_VBAT = 42 / 10"
definition ADC_REFVAL :: rat where "ADC_REFVAL = 33 / 10"
definition ADC_CONVERT_MAXVAL :: nat where "ADC_CONVERT_MAXVAL = 4096"

record sht3x_device =
  sht_temperature :: rat
  sht_humidity :: rat

record measurements =
  sht30 :: "rat \<times> rat"
  gzp6816d :: gzp6816d_data_t
  curvbat :: rat
  curvbat_percent :: rat

record desk =
  meas :: measurements
  sht3x_dev :: "sht3x_device option"
  desk_init :: bool
  exit_flag :: bool
  cnt_wifi :: bool
  current_time :: nat
  device_cfg :: ele_ds_cfg_t

text \<open>One round of readings as the outside world answers it.\<close>

record surroundings =
  baro_found :: bool
  baro_open :: int
  baro_bus :: i2c_bus
  baro_dev :: gzp6816d_device
  sht3x_answer :: "int \<times> sht3x_device"
  adc_found :: bool
  adc_enable :: int
  adc_value :: "nat \<Rightarrow> nat"

section \<open>Readings\<close>

text \<open>The sensor framework has no buffer for this sensor: reading it fetches a measurement.\<close>

definition get_gzp6816d_data :: "surroundings \<Rightarrow> gzp6816d_data_t \<Rightarrow> (int \<times> gzp6816d_data_t) option" where
  "get_gzp6816d_data e data =
     (if \<not> baro_found e then Some (- RT_ERROR, data)
      else if baro_open e \<noteq> RT_EOK then Some (- RT_ERROR, data)
      else do {
        (ret, got) \<leftarrow> gzp6816d_fetch_data (baro_bus e) (baro_dev e) sizeof_data;
        let data = (case got of Some d \<Rightarrow> d | None \<Rightarrow> data);
        Some (if ret > 0 then RT_EOK else ret, data) })"

definition get_sht30_data :: "surroundings \<Rightarrow> sht3x_device \<Rightarrow> int \<times> sht3x_device" where
  "get_sht30_data e dev = sht3x_answer e"

definition float_to_int :: "rat \<Rightarrow> int" where
  "float_to_int r = (if 0 \<le> r then \<lfloor>r\<rfloor> else \<lceil>r\<rceil>)"

definition get_all_sensor_data :: "surroundings \<Rightarrow> desk \<Rightarrow> (int \<times> desk) option" where
  "get_all_sensor_data e ds =
     (if \<not> desk_init ds then Some (- RT_EBUSY, ds)
      else do {
        (_, data) \<leftarrow> get_gzp6816d_data e (gzp6816d (meas ds));
        let ds = ds\<lparr>meas := (meas ds)\<lparr>gzp6816d := data\<rparr>\<rparr>;
        dev \<leftarrow> sht3x_dev ds;
        let (ret, dev) = get_sht30_data e dev;
        let ds = ds\<lparr>sht3x_dev := Some dev\<rparr>;
        let ds = (if ret \<noteq> RT_EOK then ds
          else ds\<lparr>meas := (meas ds)\<lparr>sht30 := (of_int (float_to_int (sht_temperature dev)), of_int (float_to_int (sht_humidity dev)))\<rparr>\<rparr>);
        Some (RT_EOK, ds) })"

definition ele_ds_get_curvbat :: "surroundings \<Rightarrow> desk \<Rightarrow> int \<times> desk" where
  "ele_ds_get_curvbat e ds =
     (if \<not> adc_found e then (- 1, ds)
      else if adc_enable e \<noteq> RT_EOK then (- 2, ds)
      else
        let raw_adc = to_u32 (int (adc_value e BAT_ADC_CH) * 2);
            raw_adc_f = of_nat raw_adc / of_nat ADC_CONVERT_MAXVAL * ADC_REFVAL;
            ds = ds\<lparr>meas := (meas ds)\<lparr>curvbat := raw_adc_f, curvbat_percent := raw_adc_f / MAX_VBAT * 100\<rparr>\<rparr>
        in (float_to_int raw_adc_f, ds))"

section \<open>Start-up\<close>

record boot_env =
  print_json :: "cjson \<Rightarrow> bytes option"
  parse_json :: "bytes \<Rightarrow> cjson option"
  flash_disk :: "vfs option"
  made_disk :: "vfs option"
  no_disk :: vfs
  i2c1 :: i2c_bus
  register_ok :: bool
  sizeof_sensor :: nat
  sht3x_found :: "sht3x_device option"

definition beep_init :: "bool \<Rightarrow> system \<Rightarrow> system" where
  "beep_init reset_level s = rt_pin_mode BEEP_PIN PIN_MODE_OUTPUT (rt_pin_write BEEP_PIN reset_level s)"

text \<open>
  \<^verbatim>\<open>memset(ele_ds, 0, sizeof(ele_ds_t))\<close> clears the size of a pointer only; the fields modelled here
  keep their values. The results of the flash and file system set-up are ignored.
\<close>

definition devices_init ::
  "boot_env \<Rightarrow> desk option \<Rightarrow> system \<Rightarrow> heap \<Rightarrow> (int \<times> desk option \<times> vfs option \<times> system \<times> heap) option" where
  "devices_init b ele_ds s h =
     (let s = ele_ds_pm_init (ele_ds_gpio_init s) in
      case ele_ds of
        None \<Rightarrow> Some (- 1, None, None, s, h)
      | Some ds \<Rightarrow>
          let s = beep_init False s in
          do {
            (ret, h) \<leftarrow> gzp6816d_init (i2c1 b) (register_ok b) (sizeof_sensor b) (Some ''i2c1'') GZP6816D_ADDR h;
            if ret \<noteq> RT_EOK then Some (- 4, Some ds, None, s, h)
            else do {
              let ds = ds\<lparr>sht3x_dev := sht3x_found b\<rparr>;
              (_, cfg, fs) \<leftarrow> mnt_init (print_json b) (parse_json b) (flash_disk b) (made_disk b) (no_disk b) (device_cfg ds);
              Some (0, Some (ds\<lparr>device_cfg := cfg, cnt_wifi := False, current_time := 0, exit_flag := False, desk_init := True\<rparr>),
                Some fs, s, h) } })"

section \<open>The main loop\<close>

text \<open>A round of \<^verbatim>\<open>main\<close>: both readings, the LED on every fiftieth round, and the round counter.\<close>

definition main_round :: "surroundings \<Rightarrow> u32 \<times> desk \<times> system \<Rightarrow> (u32 \<times> desk \<times> system) option" where
  "main_round e st = (case st of (loop_times, ds, s) \<Rightarrow> do {
     (_, ds) \<leftarrow> get_all_sensor_data e ds;
     let (_, ds) = ele_ds_get_curvbat e ds;
     let s = (if loop_times mod 50 = 0 then rt_pin_write LED0_PIN (pin_level s LED0_PIN \<noteq> Some True) s else s);
     Some (loop_times + 1, ds, s) })"

definition main_rounds :: "surroundings list \<Rightarrow> u32 \<times> desk \<times> system \<Rightarrow> (u32 \<times> desk \<times> system) option" where
  "main_rounds = for_each main_round"

definition fresh_desk :: desk where
  "fresh_desk = \<lparr>meas = \<lparr>sht30 = (0, 0),
       gzp6816d = \<lparr>raw_pressure = [0, 0, 0, 0], pressure = 0, raw_temperature = [0, 0], temperature = 0\<rparr>,
       curvbat = 0, curvbat_percent = 0\<rparr>,
     sht3x_dev = None, desk_init = False, exit_flag = False, cnt_wifi = False, current_time = 0, device_cfg = zero_cfg\<rparr>"

text \<open>
  \<^verbatim>\<open>main\<close>: start-up, a first reading, and the rounds in the surroundings \<open>es\<close>. It returns only if the
  start-up fails; otherwise the result is the state after those rounds.
\<close>

definition main_func ::
  "boot_env \<Rightarrow> surroundings \<Rightarrow> surroundings list \<Rightarrow> system \<Rightarrow> heap \<Rightarrow> (int + u32 \<times> desk \<times> system) option" where
  "main_func b e es s h = do {
     (ret, ele_ds, fs, s, h) \<leftarrow> devices_init b (Some fresh_desk) s h;
     if ret \<noteq> RT_EOK then Some (Inl (- RT_ERROR))
     else do {
       ds \<leftarrow> ele_ds;
       (_, ds) \<leftarrow> get_all_sensor_data e ds;
       let (_, ds) = ele_ds_get_curvbat e ds;
       st \<leftarrow> main_rounds es (0, ds, s);
       Some (Inr st) } }"

section \<open>Properties\<close>

lemma read_bytes_six:
  assumes "length buf = 6"
  shows "\<exists>r buf'. read_bytes b device buf 6 = Some (r, buf') \<and> length buf' = 6"
proof -
  obtain n got where "receive b (addr device) 6 = (n, got)" by fastforce
  then show ?thesis using assms by (auto simp: read_bytes_def memcpy_def)
qed

text \<open>With a bus the driver always answers: a full measurement in range, or an error code.\<close>

lemma fetch_total:
  assumes "i2cdev device"
  shows "(\<exists>d. gzp6816d_fetch_data b device sizeof_data = Some (int sizeof_data, Some d) \<and> - 40 \<le> temperature d \<and> temperature d < 150) \<or>
    (\<exists>r < 0. gzp6816d_fetch_data b device sizeof_data = Some (r, None))"
proof -
  from read_bytes_six[of "replicate 6 0" b device] obtain r buf where
    rb: "read_bytes b device (replicate 6 0) 6 = Some (r, buf)" "length buf = 6" by auto
  have c: "\<exists>d. cal_rawdata x = Some d \<and> - 40 \<le> temperature d \<and> temperature d < 150" if "length x = 6" for x
    using cal_rawdata_eq[OF that] temperature_in_range by auto
  have "load buf 0 = Some (buf ! 0)" using rb(2) by (simp add: load_def)
  then show ?thesis
    using assms rb c[of buf] c[of "replicate 6 0"]
    by (auto simp: gzp6816d_fetch_data_def gzp6816d_readsls_def RT_EOK_def RT_ERROR_def RT_EBUSY_def sizeof_data_def)
qed

lemma get_gzp_total:
  assumes "i2cdev (baro_dev e)"
  shows "\<exists>r d. get_gzp6816d_data e data = Some (r, d) \<and> (d = data \<or> - 40 \<le> temperature d \<and> temperature d < 150) \<and>
    (r \<noteq> RT_EOK \<longrightarrow> d = data)"
  using fetch_total[OF assms, of "baro_bus e"]
  by (auto simp: get_gzp6816d_data_def sizeof_data_def RT_EOK_def)

definition desk_ok :: "desk \<Rightarrow> bool" where
  "desk_ok ds \<longleftrightarrow> desk_init ds \<and> sht3x_dev ds \<noteq> None \<and>
     0 \<le> curvbat (meas ds) \<and> curvbat (meas ds) < 2 * ADC_REFVAL \<and> curvbat_percent (meas ds) = curvbat (meas ds) / MAX_VBAT * 100 \<and>
     - 40 \<le> temperature (gzp6816d (meas ds)) \<and> temperature (gzp6816d (meas ds)) < 150"

lemma get_all_ok:
  assumes "desk_ok ds" and "i2cdev (baro_dev e)"
  shows "\<exists>ds'. get_all_sensor_data e ds = Some (RT_EOK, ds') \<and> desk_ok ds'"
proof -
  from get_gzp_total[OF assms(2), of "gzp6816d (meas ds)"] obtain r d where
    g: "get_gzp6816d_data e (gzp6816d (meas ds)) = Some (r, d)"
       "d = gzp6816d (meas ds) \<or> - 40 \<le> temperature d \<and> temperature d < 150" by blast
  obtain q dev where s: "sht3x_answer e = (q, dev)" by fastforce
  from assms(1) obtain dev0 where "sht3x_dev ds = Some dev0" by (auto simp: desk_ok_def)
  then show ?thesis
    using assms g s by (auto simp: get_all_sensor_data_def get_sht30_data_def desk_ok_def Let_def)
qed

lemma curvbat_ok:
  assumes "desk_ok ds" and "adc_value e BAT_ADC_CH < ADC_CONVERT_MAXVAL"
  shows "desk_ok (snd (ele_ds_get_curvbat e ds))"
proof -
  have a: "adc_value e BAT_ADC_CH < 4096" using assms(2) by (simp add: ADC_CONVERT_MAXVAL_def)
  then have "to_u32 (int (adc_value e BAT_ADC_CH) * 2) = adc_value e BAT_ADC_CH * 2" by (simp add: to_u32_id)
  moreover have "(of_nat (adc_value e BAT_ADC_CH) :: rat) < of_nat 4096" using a by (simp only: of_nat_less_iff)
  ultimately show ?thesis
    using assms(1) by (auto simp: ele_ds_get_curvbat_def desk_ok_def Let_def ADC_CONVERT_MAXVAL_def ADC_REFVAL_def MAX_VBAT_def)
qed

lemma main_round_ok:
  assumes "desk_ok ds" and "i2cdev (baro_dev e)" and "adc_value e BAT_ADC_CH < ADC_CONVERT_MAXVAL"
  shows "\<exists>ds' s'. main_round e (n, ds, s) = Some (n + 1, ds', s') \<and> desk_ok ds' \<and> pm s' = pm s"
proof -
  from get_all_ok[OF assms(1,2)] obtain ds1 where g: "get_all_sensor_data e ds = Some (RT_EOK, ds1)" "desk_ok ds1" by blast
  obtain q ds2 where c: "ele_ds_get_curvbat e ds1 = (q, ds2)" by fastforce
  with curvbat_ok[OF g(2) assms(3)] have "desk_ok ds2" by simp
  then show ?thesis using g c by (simp add: main_round_def rt_pin_write_def)
qed

text \<open>
  The main loop never ends and never fails once both sensors were found at start-up: whatever the
  sensors, the bus and the converter answer, every round returns, the battery voltage stays below
  twice the reference voltage with the percentage belonging to it, and the stored temperature in the
  range of the sensor.
\<close>

theorem main_loop_invariant:
  assumes "desk_ok ds" and "list_all (\<lambda>e. i2cdev (baro_dev e) \<and> adc_value e BAT_ADC_CH < ADC_CONVERT_MAXVAL) es"
  shows "\<exists>ds' s'. main_rounds es (n, ds, s) = Some (n + of_nat (length es), ds', s') \<and> desk_ok ds' \<and> pm s' = pm s"
  using assms
proof (induction es arbitrary: n ds s)
  case (Cons e es)
  from Cons.prems main_round_ok[of ds e n s] obtain ds1 s1 where
    r: "main_round e (n, ds, s) = Some (n + 1, ds1, s1)" "desk_ok ds1" "pm s1 = pm s" by auto
  with Cons.IH[of ds1 "n + 1" s1] Cons.prems obtain ds' s' where
    "main_rounds es (n + 1, ds1, s1) = Some (n + 1 + of_nat (length es), ds', s')" "desk_ok ds'" "pm s' = pm s1" by auto
  then show ?case using r by (auto simp: main_rounds_def algebra_simps)
qed (simp add: main_rounds_def)

definition good_round :: surroundings where
  "good_round = \<lparr>baro_found = True, baro_open = RT_EOK, baro_bus = dead_bus,
     baro_dev = \<lparr>i2cname = ''i2c1'', addr = GZP6816D_ADDR, i2cdev = True\<rparr>,
     sht3x_answer = (RT_EOK, \<lparr>sht_temperature = 21, sht_humidity = 40\<rparr>), adc_found = True, adc_enable = RT_EOK,
     adc_value = (\<lambda>_. 2500)\<rparr>"

theorem main_loop_invariant_witness:
  "\<exists>ds' s'. main_rounds [good_round, good_round]
      (0, fresh_desk\<lparr>desk_init := True, sht3x_dev := Some \<lparr>sht_temperature = 0, sht_humidity = 0\<rparr>\<rparr>, booted) = Some (2, ds', s') \<and>
    desk_ok ds'"
  using main_loop_invariant[of "fresh_desk\<lparr>desk_init := True, sht3x_dev := Some \<lparr>sht_temperature = 0, sht_humidity = 0\<rparr>\<rparr>"
      "[good_round, good_round]" 0 booted]
  by (auto simp: desk_ok_def fresh_desk_def good_round_def ADC_REFVAL_def ADC_CONVERT_MAXVAL_def)

text \<open>
  Failing sensors go unnoticed: a round in which no sensor and no converter answers reports success
  and keeps the values of the last measurements, and so does any number of such rounds.
\<close>

theorem failed_readings_unnoticed:
  assumes "desk_init ds" and "sht3x_dev ds = Some dev"
    and "\<not> baro_found e \<or> baro_open e \<noteq> RT_EOK" and "sht3x_answer e = (ret, dev)" and "ret \<noteq> RT_EOK"
    and "\<not> adc_found e \<or> adc_enable e \<noteq> RT_EOK"
  shows "get_all_sensor_data e ds = Some (RT_EOK, ds) \<and> snd (ele_ds_get_curvbat e ds) = ds \<and>
    (\<exists>s'. main_rounds (replicate n e) (k, ds, s) = Some (k + of_nat n, ds, s'))"
proof -
  have same: "ds\<lparr>meas := (meas ds)\<lparr>gzp6816d := gzp6816d (meas ds)\<rparr>, sht3x_dev := Some dev\<rparr> = ds"
    using assms(2) by (cases ds; cases "meas ds") simp
  have g: "get_gzp6816d_data e (gzp6816d (meas ds)) = Some (- RT_ERROR, gzp6816d (meas ds))"
    using assms(3) by (auto simp: get_gzp6816d_data_def)
  then have a: "get_all_sensor_data e ds = Some (RT_EOK, ds)"
    using assms(1,2,4,5) same by (simp add: get_all_sensor_data_def get_sht30_data_def Let_def)
  have b: "snd (ele_ds_get_curvbat e ds) = ds" using assms(6) by (auto simp: ele_ds_get_curvbat_def)
  have r: "\<exists>s'. main_round e (k, ds, s) = Some (k + 1, ds, s')" for k s
    using a b by (auto simp: main_round_def case_prod_beta)
  have "\<exists>s'. for_each main_round (replicate n e) (k, ds, s) = Some (k + of_nat n, ds, s')" for k s
  proof (induction n arbitrary: k s)
    case (Suc n)
    from r[of k s] obtain s1 where "main_round e (k, ds, s) = Some (k + 1, ds, s1)" by blast
    with Suc.IH[of "k + 1" s1] show ?case by (auto simp: algebra_simps)
  qed simp
  with a b show ?thesis by (simp add: main_rounds_def)
qed

definition silent_round :: surroundings where
  "silent_round = good_round\<lparr>baro_found := False, sht3x_answer := (- RT_ERROR, \<lparr>sht_temperature = 0, sht_humidity = 0\<rparr>),
     adc_found := False\<rparr>"

theorem failed_readings_unnoticed_witness:
  "\<exists>s'. main_rounds (replicate 3 silent_round)
      (0, fresh_desk\<lparr>desk_init := True, sht3x_dev := Some \<lparr>sht_temperature = 0, sht_humidity = 0\<rparr>\<rparr>, booted) =
    Some (3, fresh_desk\<lparr>desk_init := True, sht3x_dev := Some \<lparr>sht_temperature = 0, sht_humidity = 0\<rparr>\<rparr>, s')"
  using failed_readings_unnoticed[of "fresh_desk\<lparr>desk_init := True, sht3x_dev := Some \<lparr>sht_temperature = 0, sht_humidity = 0\<rparr>\<rparr>"
      "\<lparr>sht_temperature = 0, sht_humidity = 0\<rparr>" silent_round "- RT_ERROR" 3 0 booted]
  by (simp add: silent_round_def good_round_def RT_EOK_def RT_ERROR_def)

text \<open>
  A humidity sensor that does not answer at start-up is not an error for the start-up, which
  reports success, but stops the device: the first reading runs into a failed assertion.
\<close>

theorem missing_humidity_sensor_halts:
  assumes "gzp6816d_init (i2c1 b) (register_ok b) (sizeof_sensor b) (Some ''i2c1'') GZP6816D_ADDR h = Some (RT_EOK, h')"
    and "mnt_init (print_json b) (parse_json b) (flash_disk b) (made_disk b) (no_disk b) (device_cfg ds) = Some (q, cfg, fs)"
    and "sht3x_found b = None"
  shows "\<exists>ds' s'. devices_init b (Some ds) s h = Some (0, Some ds', Some fs, s', h') \<and> desk_init ds' \<and>
    get_all_sensor_data e ds' = None"
proof -
  from assms obtain ds' s' where "devices_init b (Some ds) s h = Some (0, Some ds', Some fs, s', h')" "desk_init ds'" "sht3x_dev ds' = None"
    by (auto simp: devices_init_def Let_def)
  moreover from this(2,3) have "get_all_sensor_data e ds' = None"
    by (auto simp: get_all_sensor_data_def Let_def bind_eq_None_conv)
  ultimately show ?thesis by blast
qed

definition sample_boot :: boot_env where
  "sample_boot = \<lparr>print_json = (\<lambda>_. None), parse_json = (\<lambda>_. None),
     flash_disk = Some (boot_fs\<lparr>files := [CONFIG_FILE_PATH \<mapsto> [123, 125]]\<rparr>), made_disk = None, no_disk = boot_fs,
     i2c1 = dead_bus, register_ok = True, sizeof_sensor = 100, sht3x_found = None\<rparr>"

lemma sample_boot_mounts:
  "\<exists>fs. mnt_init (print_json sample_boot) (parse_json sample_boot) (flash_disk sample_boot) (made_disk sample_boot)
     (no_disk sample_boot) zero_cfg = Some (0, zero_cfg, fs)"
proof -
  let ?fs = "boot_fs\<lparr>files := [CONFIG_FILE_PATH \<mapsto> [123, 125]]\<rparr>"
  have "\<exists>r fs. read_ele_ds_cfg (\<lambda>_. None) ?fs zero_cfg = Some (r, zero_cfg, fs)"
    by (simp add: read_ele_ds_cfg_def case_prod_beta)
  then show ?thesis by (auto simp: mnt_init_def sample_boot_def sysfile_init_def vaccess_def)
qed

definition sample_heap :: heap where
  "sample_heap = \<lparr>grant = (\<lambda>n. Some (max n 12)), live = 0\<rparr>"

theorem missing_humidity_sensor_halts_witness:
  "\<exists>ds' fs s' h'. devices_init sample_boot (Some fresh_desk) board_reset sample_heap = Some (0, Some ds', Some fs, s', h') \<and>
    get_all_sensor_data good_round ds' = None"
proof -
  from sample_boot_mounts obtain fs where fs: "mnt_init (print_json sample_boot) (parse_json sample_boot) (flash_disk sample_boot)
    (made_disk sample_boot) (no_disk sample_boot) (device_cfg fresh_desk) = Some (0, zero_cfg, fs)"
    by (auto simp: fresh_desk_def)
  have "\<exists>h'. gzp6816d_init (i2c1 sample_boot) (register_ok sample_boot) (sizeof_sensor sample_boot) (Some ''i2c1'') GZP6816D_ADDR sample_heap =
      Some (RT_EOK, h')"
    by (simp add: gzp6816d_init_def sample_boot_def sample_heap_def rt_calloc_def dead_bus_def)
  then obtain h' where "gzp6816d_init (i2c1 sample_boot) (register_ok sample_boot) (sizeof_sensor sample_boot) (Some ''i2c1'')
      GZP6816D_ADDR sample_heap = Some (RT_EOK, h')" by blast
  from missing_humidity_sensor_halts[OF this fs, of board_reset good_round] show ?thesis
    by (auto simp: sample_boot_def)
qed

lemma devices_init_desk:
  assumes "devices_init b (Some fresh_desk) s h = Some (ret, Some ds, fs, s1, h1)"
  shows "ret = RT_EOK \<and> desk_init ds \<and> meas ds = meas fresh_desk \<and> sht3x_dev ds = sht3x_found b \<or> ret = - 4"
  using assms by (auto simp: devices_init_def Let_def RT_EOK_def bind_eq_Some_conv split: if_splits)


definition full_boot :: boot_env where
  "full_boot = sample_boot\<lparr>sht3x_found := Some \<lparr>sht_temperature = 0, sht_humidity = 0\<rparr>\<rparr>"

lemma full_boot_starts:
  "\<exists>ds fs s' h'. devices_init full_boot (Some fresh_desk) board_reset sample_heap = Some (0, Some ds, Some fs, s', h')"
proof -
  from sample_boot_mounts obtain fs where "mnt_init (print_json full_boot) (parse_json full_boot) (flash_disk full_boot)
    (made_disk full_boot) (no_disk full_boot) zero_cfg = Some (0, zero_cfg, fs)" by (auto simp: full_boot_def)
  moreover have "\<exists>h'. gzp6816d_init (i2c1 full_boot) (register_ok full_boot) (sizeof_sensor full_boot) (Some ''i2c1'') GZP6816D_ADDR sample_heap =
      Some (RT_EOK, h')"
    by (simp add: gzp6816d_init_def full_boot_def sample_boot_def sample_heap_def rt_calloc_def dead_bus_def)
  ultimately show ?thesis by (auto simp: devices_init_def Let_def fresh_desk_def)
qed


end
