(* ===== verification/Format.thy ===== *)
theory Format
  imports Complex_Main Prelude
begin

text \<open>
  The part of C's \<^verbatim>\<open>printf\<close> family that the firmware relies on: decimal numbers, strings and
  floating-point numbers with a field width and a precision, interpreted from the format string as the
  source writes it, and \<^verbatim>\<open>sprintf\<close> into an array. Floating-point values are exact rationals; the
  last digit is rounded to nearest, ties to even, as the C library does.
\<close>

section \<open>Numbers\<close>

definition digit :: "nat \<Rightarrow> u8" where
  "digit d = of_nat (48 + d)"

fun dec :: "nat \<Rightarrow> bytes" where
  "dec n = (if n < 10 then [digit n] else dec (n div 10) @ [digit (n mod 10)])"

declare dec.simps [simp del]

text \<open>The last \<open>k\<close> decimal digits, with leading zeros.\<close>

fun digits :: "nat \<Rightarrow> nat \<Rightarrow> bytes" where
  "digits 0 n = []" |
  "digits (Suc k) n = digits k (n div 10) @ [digit (n mod 10)]"

definition round_even :: "rat \<Rightarrow> nat" where
  "round_even x =
     (let f = \<lfloor>x\<rfloor>; d = x - of_int f
      in nat (if d < 1 / 2 then f else if 1 / 2 < d then f + 1 else if even f then f else f + 1))"

definition fmt_d :: "int \<Rightarrow> bytes" where
  "fmt_d i = (if i < 0 then [45] else []) @ dec (nat \<bar>i\<bar>)"

definition fmt_f :: "nat \<Rightarrow> rat \<Rightarrow> bytes" where
  "fmt_f p r =
     (let n = round_even (\<bar>r\<bar> * 10 ^ p)
      in (if r < 0 then [45] else []) @ dec (n div 10 ^ p) @ (if p = 0 then [] else 46 # digits p (n mod 10 ^ p)))"

definition pad_left :: "nat \<Rightarrow> bytes \<Rightarrow> bytes" where
  "pad_left w s = replicate (w - length s) 32 @ s"

section \<open>Format strings\<close>

datatype arg = IntArg int | DblArg rat | StrArg bytes

fun take_num :: "nat \<Rightarrow> bytes \<Rightarrow> nat \<times> bytes" where
  "take_num n [] = (n, [])" |
  "take_num n (c # cs) = (if 48 \<le> c \<and> c \<le> 57 then take_num (n * 10 + (unat c - 48)) cs else (n, c # cs))"

definition take_prec :: "bytes \<Rightarrow> nat option \<times> bytes" where
  "take_prec cs = (case cs of
      [] \<Rightarrow> (None, [])
    | c # r \<Rightarrow> if c = 46 then apfst Some (take_num 0 r) else (None, cs))"

definition convert :: "u8 \<Rightarrow> nat option \<Rightarrow> arg \<Rightarrow> bytes option" where
  "convert c p a = (case a of
      IntArg i \<Rightarrow> if c = 100 then Some (fmt_d i) else None
    | DblArg r \<Rightarrow> if c = 102 then Some (fmt_f (case p of None \<Rightarrow> 6 | Some k \<Rightarrow> k) r) else None
    | StrArg s \<Rightarrow> if c = 115 then Some s else None)"

lemma take_num_length: "take_num n cs = (m, r) \<Longrightarrow> length r \<le> length cs"
  by (induction n cs rule: take_num.induct) (auto split: if_splits)

lemma take_prec_length: "take_prec cs = (p, r) \<Longrightarrow> length r \<le> length cs"
  by (cases "take_num 0 (tl cs)") (auto simp: take_prec_def dest!: take_num_length split: list.splits if_splits)

text \<open>
  \<^verbatim>\<open>%d\<close>, \<^verbatim>\<open>%s\<close> and \<^verbatim>\<open>%f\<close> with an optional width and precision, and \<^verbatim>\<open>%%\<close>; \<open>None\<close> is a conversion
  without a matching argument, or one outside this subset.
\<close>

function vformat :: "bytes \<Rightarrow> arg list \<Rightarrow> bytes option" where
  "vformat [] args = Some []" |
  "vformat (c # cs) args =
     (if c \<noteq> 37 then map_option ((#) c) (vformat cs args)
      else if cs \<noteq> [] \<and> hd cs = 37 then map_option ((#) 37) (vformat (tl cs) args)
      else case take_num 0 cs of (w, r) \<Rightarrow> (case take_prec r of (p, r) \<Rightarrow>
        (case (r, args) of
           (k # r, a # args) \<Rightarrow> do { s \<leftarrow> convert k p a; t \<leftarrow> vformat r args; Some (pad_left w s @ t) }
         | _ \<Rightarrow> None)))"
  by pat_completeness auto
termination
  by (relation "measure (\<lambda>(cs, _). length cs)") (auto dest!: take_num_length[OF sym] take_prec_length[OF sym])

text \<open>\<open>sprintf k\<close> writes into an array of \<open>k\<close> bytes: \<open>None\<close> is a write past its end.\<close>

definition sprintf :: "nat \<Rightarrow> bytes \<Rightarrow> arg list \<Rightarrow> bytes option" where
  "sprintf k fmt args = do { s \<leftarrow> vformat fmt args; if length s < k then Some s else None }"

section \<open>Lengths\<close>

lemma length_digits [simp]: "length (digits k n) = k"
  by (induction k n rule: digits.induct) auto

lemma dec_length_mono: "m \<le> n \<Longrightarrow> length (dec m) \<le> length (dec n)"
proof (induction n arbitrary: m rule: less_induct)
  case (less n)
  show ?case
  proof (cases "m < 10")
    case True
    then show ?thesis by (subst dec.simps[of m], subst dec.simps[of n]) simp
  next
    case False
    then have "m div 10 \<le> n div 10" "n div 10 < n" using less.prems by auto
    then have "length (dec (m div 10)) \<le> length (dec (n div 10))" using less.IH by blast
    then show ?thesis using False less.prems by (subst dec.simps[of m], subst dec.simps[of n]) simp
  qed
qed

lemma round_even_mono_nat:
  assumes "x \<le> of_nat n" and "0 \<le> x"
  shows "round_even x \<le> n"
proof -
  have f: "\<lfloor>x\<rfloor> \<le> int n" using assms(1) by (simp add: floor_le_iff)
  show ?thesis
  proof (cases "\<lfloor>x\<rfloor> = int n")
    case True
    then have "x = of_nat n" using assms(1) by (metis floor_correct order_antisym of_int_of_nat_eq)
    then show ?thesis by (simp add: round_even_def)
  next
    case False
    then show ?thesis using f by (auto simp: round_even_def Let_def)
  qed
qed

lemma fmt_d_length:
  assumes "\<bar>i\<bar> \<le> int n"
  shows "length (fmt_d i) \<le> (if i < 0 then 1 else 0) + length (dec n)"
proof -
  have "nat \<bar>i\<bar> \<le> n" using assms by linarith
  from dec_length_mono[OF this] show ?thesis by (auto simp: fmt_d_def)
qed

lemma fmt_f_length:
  assumes "\<bar>r\<bar> \<le> of_nat n"
  shows "length (fmt_f p r) \<le> (if r < 0 then 1 else 0) + length (dec n) + (if p = 0 then 0 else p + 1)"
proof -
  have "\<bar>r\<bar> * 10 ^ p \<le> of_nat (n * 10 ^ p)"
    using assms by (simp add: mult_right_mono)
  then have "round_even (\<bar>r\<bar> * 10 ^ p) \<le> n * 10 ^ p" by (intro round_even_mono_nat) auto
  then have "round_even (\<bar>r\<bar> * 10 ^ p) div 10 ^ p \<le> n"
    by (metis div_le_mono nonzero_mult_div_cancel_right power_not_zero zero_neq_numeral)
  from dec_length_mono[OF this] show ?thesis by (auto simp: fmt_f_def Let_def simp del: abs_if)
qed

lemma length_pad [simp]: "length (pad_left w s) = max w (length s)"
  by (auto simp: pad_left_def)

end
