(* ===== verification/Gui.thy ===== *)
theory Gui
  imports Device Format
begin

text \<open>
  The user interface (\<^verbatim>\<open>src/applications/lvgl/lv_port_indev.c\<close>): the page that is built at start-up, its
  labels and icons, their refreshing every twenty seconds and the command that switches the tabs.
  The widgets of the LVGL library are a list in the order of their creation, a pointer to a widget is
  a position in it; styles, sizes and alignments are left out. \<open>None\<close> is a failed assertion of the
  library, the use of a widget as one of another class, or a write past the end of a buffer.
\<close>

section \<open>Widgets\<close>

datatype lv_class = Lv_obj | Lv_label | Lv_img | Lv_btnmatrix | Lv_tabview

record lv_obj =
  obj_class :: lv_class
  obj_parent :: "nat option"
  obj_text :: bytes
  tab_map :: "bytes list"
  tab_cnt :: nat
  tab_cur :: nat

text \<open>The pointers of \<^verbatim>\<open>rtc_lvobj\<close>, with the widgets and the periods of the timers.\<close>

record gui =
  objs :: "lv_obj list"
  timers :: "nat list"
  tabview :: "nat option"
  sensor_lab :: "nat option"
  memo_lab :: "nat option"
  weather_icon :: "nat option list"
  weather_info_lab :: "nat option list"
  vbat :: "nat option"
  wifi :: "nat option"
  time_lab :: "nat option"

definition new_widget :: "lv_class \<Rightarrow> nat option \<Rightarrow> bytes \<Rightarrow> lv_obj" where
  "new_widget c p s = \<lparr>obj_class = c, obj_parent = p, obj_text = s, tab_map = [], tab_cnt = 0, tab_cur = 0\<rparr>"

definition create :: "lv_class \<Rightarrow> bytes \<Rightarrow> nat \<Rightarrow> gui \<Rightarrow> nat \<times> gui" where
  "create c s p g = (length (objs g), g\<lparr>objs := objs g @ [new_widget c (Some p) s]\<rparr>)"

definition lv_obj_create :: "nat \<Rightarrow> gui \<Rightarrow> nat \<times> gui" where
  "lv_obj_create = create Lv_obj []"

definition lv_label_create :: "nat \<Rightarrow> gui \<Rightarrow> nat \<times> gui" where
  "lv_label_create = create Lv_label (bs ''Text'')"

definition lv_img_create :: "nat \<Rightarrow> gui \<Rightarrow> nat \<times> gui" where
  "lv_img_create = create Lv_img []"

definition lv_tabview_create :: "nat \<Rightarrow> gui \<Rightarrow> nat \<times> gui" where
  "lv_tabview_create p g =
     (let (obj, g) = create Lv_tabview [] p g;
          (btnm, g) = create Lv_btnmatrix [] obj g;
          (cont, g) = lv_obj_create obj g
      in (obj, g))"

definition set_text :: "lv_class \<Rightarrow> nat option \<Rightarrow> bytes \<Rightarrow> gui \<Rightarrow> gui option" where
  "set_text c obj s g = do {
     i \<leftarrow> obj;
     w \<leftarrow> load (objs g) i;
     if obj_class w = c then Some (g\<lparr>objs := (objs g)[i := w\<lparr>obj_text := s\<rparr>]\<rparr>) else None }"

definition lv_label_set_text :: "nat option \<Rightarrow> bytes \<Rightarrow> gui \<Rightarrow> gui option" where
  "lv_label_set_text = set_text Lv_label"

definition lv_img_set_src :: "nat option \<Rightarrow> bytes \<Rightarrow> gui \<Rightarrow> gui option" where
  "lv_img_set_src = set_text Lv_img"

definition lv_obj_get_child :: "nat \<Rightarrow> nat \<Rightarrow> gui \<Rightarrow> nat option" where
  "lv_obj_get_child p k g = load (map fst (List.filter (\<lambda>(i, w). obj_parent w = Some p) (enumerate 0 (objs g)))) k"

definition lv_obj_get_child_cnt :: "nat \<Rightarrow> gui \<Rightarrow> nat" where
  "lv_obj_get_child_cnt p g = length (List.filter (\<lambda>w. obj_parent w = Some p) (objs g))"

definition lv_tabview_get_content :: "nat \<Rightarrow> gui \<Rightarrow> nat option" where
  "lv_tabview_get_content tv g = lv_obj_get_child tv 1 g"

definition lv_tabview_set_act :: "nat option \<Rightarrow> nat \<Rightarrow> gui \<Rightarrow> gui option" where
  "lv_tabview_set_act obj k g = do {
     i \<leftarrow> obj;
     w \<leftarrow> load (objs g) i;
     if obj_class w \<noteq> Lv_tabview then None
     else
       let k = (if k \<ge> tab_cnt w then to_u32 (int (tab_cnt w) - 1) else k)
       in case lv_tabview_get_content i g of
            None \<Rightarrow> Some g
          | Some _ \<Rightarrow> Some (g\<lparr>objs := (objs g)[i := w\<lparr>tab_cur := to_u16 (int k)\<rparr>]\<rparr>) }"

definition lv_tabview_add_tab :: "nat option \<Rightarrow> bytes \<Rightarrow> gui \<Rightarrow> (nat \<times> gui) option" where
  "lv_tabview_add_tab obj name g = do {
     i \<leftarrow> obj;
     cont \<leftarrow> lv_tabview_get_content i g;
     let (page, g) = lv_obj_create cont g;
     let tab_id = lv_obj_get_child_cnt cont g;
     w \<leftarrow> load (objs g) i;
     if obj_class w \<noteq> Lv_tabview then None
     else do {
       let cnt = to_u16 (int (tab_cnt w) + 1);
       let g = g\<lparr>objs := (objs g)[i := w\<lparr>tab_map := take (tab_id - 1) (tab_map w) @ [name], tab_cnt := cnt\<rparr>]\<rparr>;
       g \<leftarrow> (if cnt = 1 then lv_tabview_set_act obj 0 g else Some g);
       Some (page, g) } }"

definition lv_scr_act :: "gui \<Rightarrow> nat" where
  "lv_scr_act g = 0"

definition lv_timer_create :: "nat \<Rightarrow> gui \<Rightarrow> gui" where
  "lv_timer_create period g = g\<lparr>timers := period # timers g\<rparr>"

section \<open>Texts\<close>

definition LV_SYMBOL_BATTERY_FULL :: bytes where "LV_SYMBOL_BATTERY_FULL = [0xEF, 0x89, 0x80]"
definition LV_SYMBOL_BATTERY_3 :: bytes where "LV_SYMBOL_BATTERY_3 = [0xEF, 0x89, 0x81]"
definition LV_SYMBOL_BATTERY_2 :: bytes where "LV_SYMBOL_BATTERY_2 = [0xEF, 0x89, 0x82]"
definition LV_SYMBOL_BATTERY_1 :: bytes where "LV_SYMBOL_BATTERY_1 = [0xEF, 0x89, 0x83]"
definition LV_SYMBOL_BATTERY_EMPTY :: bytes where "LV_SYMBOL_BATTERY_EMPTY = [0xEF, 0x89, 0x84]"
definition LV_SYMBOL_WIFI_LINK :: bytes where "LV_SYMBOL_WIFI_LINK = [0xEE, 0x98, 0x8E]"
definition LV_SYMBOL_WIFI_UNLINK :: bytes where "LV_SYMBOL_WIFI_UNLINK = [0xEE, 0x98, 0xB2]"

text \<open>The Chinese words of the interface in UTF-8.\<close>

definition wendu :: bytes where "wendu = [0xE6, 0xB8, 0xA9, 0xE5, 0xBA, 0xA6]"
definition shidu :: bytes where "shidu = [0xE6, 0xB9, 0xBF, 0xE5, 0xBA, 0xA6]"
definition qiya :: bytes where "qiya = [0xE6, 0xB0, 0x94, 0xE5, 0x8E, 0x8B]"
definition du :: bytes where "du = [0xE5, 0xBA, 0xA6]"
definition jintian :: bytes where "jintian = [0xE4, 0xBB, 0x8A, 0xE5, 0xA4, 0xA9]"
definition mingtian :: bytes where "mingtian = [0xE6, 0x98, 0x8E, 0xE5, 0xA4, 0xA9]"
definition tianqi :: bytes where "tianqi = [0xE5, 0xA4, 0xA9, 0xE6, 0xB0, 0x94]"
definition beiwanglu :: bytes where "beiwanglu = [0xE5, 0xA4, 0x87, 0xE5, 0xBF, 0x98, 0xE5, 0xBD, 0x95]"
definition beijing :: bytes where "beijing = [0xE8, 0x83, 0x8C, 0xE6, 0x99, 0xAF]"
definition shezhi :: bytes where "shezhi = [0xE8, 0xAE, 0xBE, 0xE7, 0xBD, 0xAE]"

definition DEFATLT_WEATHER_ICON_PATH :: bytes where
  "DEFATLT_WEATHER_ICON_PATH = bs ''S:/sysfile/icon/tianqi_48/tianqi-%s.bin''"

definition DEFAULT_SHT30_LABFMT :: bytes where
  "DEFAULT_SHT30_LABFMT = wendu @ bs '':%2.0fC '' @ shidu @ bs '':%2.0f%%''"

definition DEFAULT_GZP6816_LABFMT :: bytes where
  "DEFAULT_GZP6816_LABFMT = qiya @ bs '':%2.2fhPa''"

definition DEFAULT_SENSOR_LABFMT :: bytes where
  "DEFAULT_SENSOR_LABFMT = DEFAULT_SHT30_LABFMT @ [10] @ DEFAULT_GZP6816_LABFMT"

definition WEATHER_LABFMT :: bytes where
  "WEATHER_LABFMT = wendu @ [58, 10] @ bs ''%d-%d'' @ du"

text \<open>
  \<^verbatim>\<open>strftime\<close> with the conversions the interface uses; a date that does not fit leaves the array
  undetermined (\<open>None\<close>).
\<close>

fun time_conv :: "u8 \<Rightarrow> tm \<Rightarrow> bytes option" where
  "time_conv c t =
     (if c = 89 then Some (fmt_d (tm_year t + 1900))
      else if c = 109 then Some (digits 2 (nat (tm_mon t + 1)))
      else if c = 100 then Some (digits 2 (nat (tm_mday t)))
      else if c = 72 then Some (digits 2 (nat (tm_hour t)))
      else if c = 77 then Some (digits 2 (nat (tm_min t)))
      else None)"

fun vtime :: "bytes \<Rightarrow> tm \<Rightarrow> bytes option" where
  "vtime [] t = Some []" |
  "vtime [c] t = (if c = 37 then None else Some [c])" |
  "vtime (c # k # cs) t =
     (if c = 37 then do { s \<leftarrow> time_conv k t; r \<leftarrow> vtime cs t; Some (s @ r) }
      else map_option ((#) c) (vtime (k # cs) t))"

definition strftime :: "nat \<Rightarrow> bytes \<Rightarrow> tm \<Rightarrow> bytes option" where
  "strftime k fmt t = do { s \<leftarrow> vtime fmt t; if length s < k then Some s else None }"

section \<open>Icons and the clock\<close>

definition set_vbat_icon :: "nat option \<Rightarrow> nat \<Rightarrow> gui \<Rightarrow> gui option" where
  "set_vbat_icon o_vbat vbat_percent g =
     (if o_vbat = None then Some g
      else if vbat_percent > 100 then lv_label_set_text o_vbat LV_SYMBOL_BATTERY_FULL g
      else if vbat_percent > 75 then lv_label_set_text o_vbat LV_SYMBOL_BATTERY_3 g
      else if vbat_percent > 50 then lv_label_set_text o_vbat LV_SYMBOL_BATTERY_2 g
      else if vbat_percent > 25 then lv_label_set_text o_vbat LV_SYMBOL_BATTERY_1 g
      else lv_label_set_text o_vbat LV_SYMBOL_BATTERY_EMPTY g)"

definition set_wifi_icon :: "nat option \<Rightarrow> bool \<Rightarrow> gui \<Rightarrow> gui option" where
  "set_wifi_icon o_wifi is_connected g =
     (if o_wifi = None then Some g
      else if is_connected then lv_label_set_text o_wifi LV_SYMBOL_WIFI_LINK g
      else lv_label_set_text o_wifi LV_SYMBOL_WIFI_UNLINK g)"

definition sensor_args :: "desk \<Rightarrow> arg list" where
  "sensor_args ds = [DblArg (fst (sht30 (meas ds))), DblArg (snd (sht30 (meas ds))), DblArg (pressure (gzp6816d (meas ds)))]"

definition update_time_cb :: "nat \<Rightarrow> desk \<Rightarrow> gui \<Rightarrow> gui option" where
  "update_time_cb curtime ds g = do {
     let tm_info = localtime_r curtime;
     str \<leftarrow> strftime 100 (bs ''%Y-%m-%d %H:%M'') tm_info;
     g \<leftarrow> lv_label_set_text (time_lab g) str g;
     g \<leftarrow> (if sensor_lab g \<noteq> None
           then do { str \<leftarrow> sprintf 100 DEFAULT_SENSOR_LABFMT (sensor_args ds); lv_label_set_text (sensor_lab g) str g }
           else Some g);
     if vbat g \<noteq> None then set_vbat_icon (vbat g) 20 g else Some g }"

definition create_status_bar :: "nat \<Rightarrow> nat \<Rightarrow> gui \<Rightarrow> (nat \<times> gui) option" where
  "create_status_bar curtime p g = do {
     let (status_bar, g) = lv_obj_create p g;
     let (lab, g) = lv_label_create status_bar g;
     let g = g\<lparr>time_lab := Some lab\<rparr>;
     let tm_info = localtime_r curtime;
     time_str \<leftarrow> strftime 32 (bs ''%Y-%m-%d %H:%M'') tm_info;
     g \<leftarrow> lv_label_set_text (time_lab g) time_str g;
     let g = lv_timer_create 20000 g;
     Some (status_bar, g) }"

section \<open>The weather page\<close>

record epd_show_weather_info_t =
  icon_code :: u32
  temp_max :: int
  temp_min :: int
  day :: int

definition day_weather :: "nat \<Rightarrow> epd_show_weather_info_t \<Rightarrow> gui \<Rightarrow> gui option" where
  "day_weather p wi g = do {
     let (cont, g) = lv_obj_create p g;
     let days_flag = (if day wi = 0 then 0 else 1);
     let (label, g) = lv_label_create cont g;
     g \<leftarrow> lv_label_set_text (Some label) (if day wi = 0 then jintian else mingtian) g;
     let (sub_layout, g) = lv_obj_create cont g;
     let (icon, g) = lv_img_create sub_layout g;
     let g = g\<lparr>weather_icon := (weather_icon g)[days_flag := Some icon]\<rparr>;
     suffix \<leftarrow> get_weather_icon_suffix (icon_code wi);
     iconpath \<leftarrow> sprintf 100 DEFATLT_WEATHER_ICON_PATH [StrArg (bs suffix)];
     g \<leftarrow> lv_img_set_src (Some icon) iconpath g;
     let (sub_sub_cont, g) = lv_obj_create sub_layout g;
     let (lab, g) = lv_label_create sub_sub_cont g;
     let g = g\<lparr>weather_info_lab := (weather_info_lab g)[days_flag := Some lab]\<rparr>;
     str \<leftarrow> sprintf 128 WEATHER_LABFMT [IntArg (temp_max wi), IntArg (temp_min wi)];
     lv_label_set_text (Some lab) str g }"

text \<open>\<^verbatim>\<open>atoi\<close> on memory stops at the first byte that is not part of a number.\<close>

definition atoi_at :: "bytes \<Rightarrow> nat \<Rightarrow> int" where
  "atoi_at m off = atoi (map (\<lambda>b. char_of (unat b)) (drop off m))"

definition weather_of :: "bytes \<Rightarrow> int \<Rightarrow> epd_show_weather_info_t option" where
  "weather_of w i = do {
     tmax \<leftarrow> load w off_tempMax;
     tmin \<leftarrow> load w off_tempMin;
     Some \<lparr>icon_code = of_int (atoi_at w off_iconDay), temp_max = sint tmax, temp_min = sint tmin, day = i\<rparr> }"

definition create_weather_layout :: "desk \<Rightarrow> nat \<Rightarrow> gui \<Rightarrow> (nat \<times> gui) option" where
  "create_weather_layout dev p g = do {
     let (cont, g) = lv_obj_create p g;
     g \<leftarrow> for_each (\<lambda>i g. do {
            let (weather_cont, g) = lv_obj_create cont g;
            weather \<leftarrow> weather_of (weather_info (device_cfg dev)) i;
            day_weather weather_cont weather g }) [0, 1] g;
     Some (cont, g) }"

section \<open>The page\<close>

definition tabview_create :: "desk \<Rightarrow> nat \<Rightarrow> gui \<Rightarrow> gui option" where
  "tabview_create dev p g = do {
     let (tv, g) = lv_tabview_create p g;
     let g = g\<lparr>tabview := Some tv\<rparr>;
     (tab1, g) \<leftarrow> lv_tabview_add_tab (tabview g) tianqi g;
     (tab2, g) \<leftarrow> lv_tabview_add_tab (tabview g) beiwanglu g;
     (tab3, g) \<leftarrow> lv_tabview_add_tab (tabview g) beijing g;
     (tab4, g) \<leftarrow> lv_tabview_add_tab (tabview g) shezhi g;
     (_, g) \<leftarrow> create_weather_layout dev tab1 g;
     let (lab, g) = lv_label_create tab1 g;
     let g = g\<lparr>sensor_lab := Some lab\<rparr>;
     str \<leftarrow> sprintf 50 DEFAULT_SENSOR_LABFMT (sensor_args dev);
     g \<leftarrow> lv_label_set_text (sensor_lab g) str g;
     let (lab, g) = lv_label_create tab2 g;
     let g = g\<lparr>memo_lab := Some lab\<rparr>;
     lv_label_set_text (memo_lab g) (memo (device_cfg dev)) g }"

definition switch_tabview_cmd :: "string list \<Rightarrow> gui \<Rightarrow> gui option" where
  "switch_tabview_cmd argv g =
     (if tabview g = None then Some g
      else if length argv < 2 then Some g
      else let tab_index = atoi (argv ! 1) in
        if tab_index < 0 \<or> tab_index > 3 then Some g
        else lv_tabview_set_act (tabview g) (nat tab_index) g)"

definition create_tabview_layout :: "desk \<Rightarrow> nat \<Rightarrow> gui \<Rightarrow> (nat \<times> gui) option" where
  "create_tabview_layout dev p g = do {
     let (bottom_layout, g) = lv_obj_create p g;
     g \<leftarrow> tabview_create dev bottom_layout g;
     Some (bottom_layout, g) }"

definition main_page :: "nat \<Rightarrow> desk \<Rightarrow> gui \<Rightarrow> gui option" where
  "main_page curtime dev g = do {
     let screen = lv_scr_act g;
     let (screen_layout, g) = lv_obj_create screen g;
     (status_bar, g) \<leftarrow> create_status_bar curtime screen_layout g;
     (_, g) \<leftarrow> create_tabview_layout dev screen_layout g;
     Some g }"

definition lv_user_gui_init :: "nat \<Rightarrow> desk \<Rightarrow> gui \<Rightarrow> gui option" where
  "lv_user_gui_init curtime dev g = main_page curtime dev g"

text \<open>Before the page is built there is the screen, and \<^verbatim>\<open>rtc_lvobj\<close> is all zero.\<close>

definition blank :: gui where
  "blank = \<lparr>objs = [new_widget Lv_obj None []], timers = [], tabview = None, sensor_lab = None, memo_lab = None,
     weather_icon = [None, None], weather_info_lab = [None, None], vbat = None, wifi = None, time_lab = None\<rparr>"


section \<open>Properties\<close>

text \<open>The texts written out.\<close>

definition sensor_text :: "rat \<Rightarrow> rat \<Rightarrow> rat \<Rightarrow> bytes" where
  "sensor_text t h p = wendu @ [58] @ pad_left 2 (fmt_f 0 t) @ [67, 32] @ shidu @ [58] @ pad_left 2 (fmt_f 0 h) @ [37, 10] @
     qiya @ [58] @ pad_left 2 (fmt_f 2 p) @ bs ''hPa''"

definition clock_text :: "tm \<Rightarrow> bytes" where
  "clock_text t = fmt_d (tm_year t + 1900) @ [45] @ digits 2 (nat (tm_mon t + 1)) @ [45] @ digits 2 (nat (tm_mday t)) @
     [32] @ digits 2 (nat (tm_hour t)) @ [58] @ digits 2 (nat (tm_min t))"

lemma vformat_sensor:
  "vformat DEFAULT_SENSOR_LABFMT (sensor_args ds) =
     Some (sensor_text (fst (sht30 (meas ds))) (snd (sht30 (meas ds))) (pressure (gzp6816d (meas ds))))"
  by (simp add: DEFAULT_SENSOR_LABFMT_def DEFAULT_SHT30_LABFMT_def DEFAULT_GZP6816_LABFMT_def sensor_args_def sensor_text_def
      wendu_def shidu_def qiya_def bs_def take_prec_def convert_def) (simp only: numeral_2_eq_2)

lemma vtime_clock: "vtime (bs ''%Y-%m-%d %H:%M'') t = Some (clock_text t)"
  by (simp add: bs_def clock_text_def)

lemma vformat_weather:
  "vformat WEATHER_LABFMT [IntArg a, IntArg b] = Some (wendu @ [58, 10] @ pad_left 0 (fmt_d a) @ [45] @ pad_left 0 (fmt_d b) @ du)"
  by (simp add: WEATHER_LABFMT_def wendu_def du_def bs_def take_prec_def convert_def)

lemma vformat_icon:
  "vformat DEFATLT_WEATHER_ICON_PATH [StrArg s] = Some (bs ''S:/sysfile/icon/tianqi_48/tianqi-'' @ pad_left 0 s @ bs ''.bin'')"
  by (simp add: DEFATLT_WEATHER_ICON_PATH_def bs_def take_prec_def convert_def)


text \<open>Readings as the sensors can give them: the ranges of the data sheets, and of the driver's formula.\<close>

definition readings_ok :: "desk \<Rightarrow> bool" where
  "readings_ok ds \<longleftrightarrow> - 45 \<le> fst (sht30 (meas ds)) \<and> fst (sht30 (meas ds)) \<le> 130 \<and>
     0 \<le> snd (sht30 (meas ds)) \<and> snd (sht30 (meas ds)) \<le> 100 \<and>
     0 \<le> pressure (gzp6816d (meas ds)) \<and> pressure (gzp6816d (meas ds)) \<le> 26000 \<and>
     - 40 \<le> temperature (gzp6816d (meas ds)) \<and> temperature (gzp6816d (meas ds)) < 150"

lemma fmt_f_range:
  assumes "- of_nat m \<le> r" and "r \<le> of_nat n"
  shows "length (fmt_f p r) \<le> max (1 + length (dec m)) (length (dec n)) + (if p = 0 then 0 else p + 1)"
proof (cases "r < 0")
  case True
  then have "\<bar>r\<bar> \<le> of_nat m" using assms(1) by simp
  from fmt_f_length[OF this, of p] True show ?thesis by (auto simp: max_def)
next
  case False
  then have "\<bar>r\<bar> \<le> of_nat n" using assms(2) by simp
  from fmt_f_length[OF this, of p] False show ?thesis by (auto simp: max_def)
qed

lemma dec_lengths [simp]:
  "length (dec 0) = 1" "length (dec 45) = 2" "length (dec 130) = 3" "length (dec 100) = 3" "length (dec 26000) = 5"
  "length (dec 128) = 3" "length (dec 150) = 3" "length (dec 40) = 2"
  by (simp_all add: dec.simps)

lemma sensor_text_length:
  assumes "readings_ok ds"
  shows "length (sensor_text (fst (sht30 (meas ds))) (snd (sht30 (meas ds))) (pressure (gzp6816d (meas ds)))) \<le> 42"
proof -
  have "length (fmt_f 0 (fst (sht30 (meas ds)))) \<le> 3"
    using fmt_f_range[of 45 "fst (sht30 (meas ds))" 130 0] assms by (simp add: readings_ok_def)
  moreover have "length (fmt_f 0 (snd (sht30 (meas ds)))) \<le> 3"
    using fmt_f_length[of "snd (sht30 (meas ds))" 100 0] assms by (simp add: readings_ok_def)
  moreover have "length (fmt_f 2 (pressure (gzp6816d (meas ds)))) \<le> 8"
    using fmt_f_length[of "pressure (gzp6816d (meas ds))" 26000 2] assms by (simp add: readings_ok_def)
  ultimately show ?thesis
    by (simp add: sensor_text_def wendu_def shidu_def qiya_def)
qed

lemma clock_text_length:
  assumes "t < 2 ^ 32"
  shows "length (clock_text (localtime_r t)) = 16"
proof -
  have "to_u32 (int t + rt_tz_get) < 2 ^ 32" by (rule to_u32_bound)
  from gmtime_fields[OF this] obtain m where m: "m \<le> 136" "tm_year (localtime_r t) = int m + 70"
    by (auto simp: localtime_r_def)
  have "dec n = digits (Suc (Suc (Suc (Suc 0)))) n" if "1000 \<le> n" "n < 10000" for n
  proof -
    have "n div 10 \<ge> 100" "n div 10 div 10 \<ge> 10" "n div 10 div 10 div 10 < 10" using that by auto
    then show ?thesis using that by (simp add: dec.simps[of n] dec.simps[of "n div 10"] dec.simps[of "n div 10 div 10"]
      dec.simps[of "n div 10 div 10 div 10"] del: div_mult2_eq)
  qed
  from this[of "1970 + m"] m have "fmt_d (tm_year (localtime_r t) + 1900) = digits (Suc (Suc (Suc (Suc 0)))) (1970 + m)"
    by (simp add: fmt_d_def nat_add_distrib)
  then show ?thesis by (simp add: clock_text_def)
qed


text \<open>A forecast fits its buffers: two temperatures of eight bits and an icon of the table.\<close>

definition weather_text :: "epd_show_weather_info_t \<Rightarrow> bytes" where
  "weather_text wi = wendu @ [58, 10] @ fmt_d (temp_max wi) @ [45] @ fmt_d (temp_min wi) @ du"

definition icon_path :: "u32 \<Rightarrow> bytes" where
  "icon_path c = bs ''S:/sysfile/icon/tianqi_48/tianqi-'' @ bs (weather_icons ! weather_ord (get_weather_type c)) @ bs ''.bin''"

lemma pad_0 [simp]: "pad_left 0 s = s"
  by (simp add: pad_left_def)

lemma sprintf_weather:
  assumes "\<bar>temp_max wi\<bar> \<le> 128" and "\<bar>temp_min wi\<bar> \<le> 128"
  shows "sprintf 128 WEATHER_LABFMT [IntArg (temp_max wi), IntArg (temp_min wi)] = Some (weather_text wi)"
  using fmt_d_length[of "temp_max wi" 128] fmt_d_length[of "temp_min wi" 128] assms
  by (simp add: sprintf_def vformat_weather weather_text_def wendu_def du_def split: if_splits)

lemma icon_suffix: "get_weather_icon_suffix c = Some (weather_icons ! weather_ord (get_weather_type c))"
proof -
  have "length weather_icons = WEATHER_TYPE_COUNT" by (simp add: weather_icons_def WEATHER_TYPE_COUNT_def)
  then show ?thesis using weather_ord_lt by (simp add: get_weather_icon_suffix_def load_def)
qed

lemma weather_icon_lengths: "list_all (\<lambda>s. length s \<le> 10) weather_icons"
  by (simp add: weather_icons_def)

lemma sprintf_icon:
  "sprintf 100 DEFATLT_WEATHER_ICON_PATH [StrArg (bs (weather_icons ! weather_ord (get_weather_type c)))] = Some (icon_path c)"
proof -
  have "length weather_icons = WEATHER_TYPE_COUNT" by (simp add: weather_icons_def WEATHER_TYPE_COUNT_def)
  then have "length (weather_icons ! weather_ord (get_weather_type c)) \<le> 10"
    using weather_ord_lt weather_icon_lengths by (simp add: list_all_length)
  then show ?thesis by (simp add: sprintf_def vformat_icon icon_path_def)
qed

lemmas widget_simps = lv_obj_create_def lv_label_create_def lv_img_create_def create_def lv_label_set_text_def lv_img_set_src_def
  set_text_def load_def new_widget_def nth_append list_update_append Let_def

definition day_widgets :: "nat \<Rightarrow> nat \<Rightarrow> epd_show_weather_info_t \<Rightarrow> lv_obj list" where
  "day_widgets n p wi =
     [new_widget Lv_obj (Some p) [],
      new_widget Lv_label (Some n) (if day wi = 0 then jintian else mingtian),
      new_widget Lv_obj (Some n) [],
      new_widget Lv_img (Some (n + 2)) (icon_path (icon_code wi)),
      new_widget Lv_obj (Some (n + 2)) [],
      new_widget Lv_label (Some (n + 4)) (weather_text wi)]"

lemma day_weather_run:
  assumes "\<bar>temp_max wi\<bar> \<le> 128" and "\<bar>temp_min wi\<bar> \<le> 128"
  shows "day_weather p wi g = Some (g\<lparr>objs := objs g @ day_widgets (length (objs g)) p wi,
     weather_icon := (weather_icon g)[if day wi = 0 then 0 else 1 := Some (length (objs g) + 3)],
     weather_info_lab := (weather_info_lab g)[if day wi = 0 then 0 else 1 := Some (length (objs g) + 5)]\<rparr>)"
  by (cases g) (simp add: day_weather_def widget_simps icon_suffix sprintf_icon sprintf_weather[OF assms] day_widgets_def,
    simp add: eval_nat_numeral)


lemma weather_of_run:
  assumes "length w = sizeof_weather_infos"
  shows "\<exists>wi. weather_of w i = Some (wi\<lparr>day := i\<rparr>) \<and> \<bar>temp_max wi\<bar> \<le> 128 \<and> \<bar>temp_min wi\<bar> \<le> 128"
proof -
  have b: "\<bar>sint (x :: u8)\<bar> \<le> 128" for x
    using sint_lt[of x] sint_ge[of x] by simp
  have "off_tempMax < length w" "off_tempMin < length w"
    by (simp_all add: assms weather_offsets sizeof_weather_infos_def)
  then show ?thesis
    using b by (intro exI[of _ "\<lparr>icon_code = of_int (atoi_at w off_iconDay), temp_max = sint (w ! off_tempMax),
      temp_min = sint (w ! off_tempMin), day = i\<rparr>"]) (simp add: weather_of_def load_def)
qed

lemma status_bar_run:
  assumes "t < 2 ^ 32"
  shows "create_status_bar t p g = Some (length (objs g),
    g\<lparr>objs := objs g @ [new_widget Lv_obj (Some p) [], new_widget Lv_label (Some (length (objs g))) (clock_text (localtime_r t))],
      time_lab := Some (length (objs g) + 1), timers := 20000 # timers g\<rparr>)"
  using clock_text_length[OF assms]
  by (cases g) (simp add: create_status_bar_def widget_simps strftime_def vtime_clock lv_timer_create_def)

text \<open>The tab view and its pages within the list of widgets.\<close>

definition tabs :: "lv_obj list \<Rightarrow> nat \<Rightarrow> bytes list \<Rightarrow> lv_obj list" where
  "tabs pre p names = pre @
     \<lparr>obj_class = Lv_tabview, obj_parent = Some p, obj_text = [], tab_map = names, tab_cnt = length names, tab_cur = 0\<rparr> #
     new_widget Lv_btnmatrix (Some (length pre)) [] # new_widget Lv_obj (Some (length pre)) [] #
     replicate (length names) (new_widget Lv_obj (Some (length pre + 2)) [])"

definition no_child :: "nat \<Rightarrow> lv_obj list \<Rightarrow> bool" where
  "no_child n ws \<longleftrightarrow> (\<forall>w\<in>set ws. obj_parent w \<noteq> Some n)"

lemma no_child_filter:
  "no_child n ws \<Longrightarrow> List.filter (\<lambda>(i, w). obj_parent w = Some n) (enumerate k ws) = []"
  "no_child n ws \<Longrightarrow> List.filter (\<lambda>w. obj_parent w = Some n) ws = []"
  by (auto simp: no_child_def filter_empty_conv in_set_enumerate_eq)

lemma tabview_create_run:
  "lv_tabview_create p g = (length (objs g), g\<lparr>objs := tabs (objs g) p []\<rparr>)"
  by (cases g) (simp add: lv_tabview_create_def create_def lv_obj_create_def tabs_def new_widget_def)

lemma no_child_pages: "m \<noteq> n \<Longrightarrow> no_child m (replicate k (new_widget c (Some n) t))"
  by (simp add: no_child_def new_widget_def)

lemma content_run:
  assumes "no_child (length pre) pre" and "no_child (length pre) post" and "p < length pre" and "objs g = tabs pre p names @ post"
  shows "lv_tabview_get_content (length pre) g = Some (length pre + 2)"
  using assms no_child_pages[of "length pre" "length pre + 2" "length names" Lv_obj "[]"]
  by (simp add: lv_tabview_get_content_def lv_obj_get_child_def tabs_def enumerate_append_eq no_child_filter
      new_widget_def load_def)

lemma add_tab_run:
  assumes "no_child (length pre) pre" and "no_child (length pre + 2) pre" and "p < length pre" and "objs g = tabs pre p names"
    and "length names < 100"
  shows "lv_tabview_add_tab (Some (length pre)) name g =
    Some (length pre + 3 + length names, g\<lparr>objs := tabs pre p (names @ [name])\<rparr>)"
proof -
  let ?n = "length pre" and ?page = "new_widget Lv_obj (Some (length pre + 2)) []"
  let ?w = "\<lparr>obj_class = Lv_tabview, obj_parent = Some p, obj_text = [], tab_map = names, tab_cnt = length names, tab_cur = 0\<rparr>"
  let ?g = "g\<lparr>objs := tabs pre p names @ [?page]\<rparr>" and ?g' = "g\<lparr>objs := tabs pre p (names @ [name])\<rparr>"
  have c: "lv_tabview_get_content ?n g = Some (?n + 2)" "lv_tabview_get_content ?n ?g' = Some (?n + 2)"
    using content_run[OF assms(1) _ assms(3), of "[]"] assms(4) by (simp_all add: no_child_def)
  have cr: "lv_obj_create (?n + 2) g = (?n + 3 + length names, ?g)"
    by (simp add: lv_obj_create_def create_def assms(4)) (simp add: tabs_def)
  have cnt: "lv_obj_get_child_cnt (?n + 2) ?g = Suc (length names)"
    using assms(2,3) by (simp add: lv_obj_get_child_cnt_def tabs_def no_child_filter new_widget_def)
  have w: "load (objs ?g) ?n = Some ?w" "load (objs ?g') ?n = Some (?w\<lparr>tab_map := names @ [name], tab_cnt := Suc (length names)\<rparr>)"
    by (simp_all add: load_def tabs_def nth_append)
  have u: "(objs ?g)[?n := ?w\<lparr>tab_map := names @ [name], tab_cnt := Suc (length names)\<rparr>] = objs ?g'"
    by (simp add: tabs_def list_update_append replicate_append_same)
  have s: "(objs ?g')[?n := ?w\<lparr>tab_map := names @ [name], tab_cnt := Suc (length names), tab_cur := 0\<rparr>] = objs ?g'"
    by (simp add: tabs_def list_update_append)
  have "to_u16 (int (length names) + 1) = Suc (length names)" using assms(5) by (simp add: to_u16_id)
  moreover have "lv_tabview_set_act (Some ?n) 0 ?g' = Some ?g'"
    using c(2) w(2) s by (simp add: lv_tabview_set_act_def to_u16_def)
  ultimately show ?thesis
    using c cr cnt w u by (cases "names = []") (simp_all add: lv_tabview_add_tab_def Let_def)
qed

text \<open>The page as a whole: five tabs' worth of widgets after the status bar, then the weather.\<close>

definition bar_widgets :: "nat \<Rightarrow> lv_obj list" where
  "bar_widgets t = [new_widget Lv_obj None [], new_widget Lv_obj (Some 0) [], new_widget Lv_obj (Some 1) [],
     new_widget Lv_label (Some 2) (clock_text (localtime_r t)), new_widget Lv_obj (Some 1) []]"

definition tab_names :: "bytes list" where
  "tab_names = [tianqi, beiwanglu, beijing, shezhi]"

definition tabs_built :: "nat \<Rightarrow> gui" where
  "tabs_built t = blank\<lparr>objs := tabs (bar_widgets t) 4 tab_names, timers := [20000], tabview := Some 5, time_lab := Some 3\<rparr>"

definition finish_page :: "desk \<Rightarrow> gui \<Rightarrow> gui option" where
  "finish_page ds g = do {
     (_, g) \<leftarrow> create_weather_layout ds 8 g;
     let (lab, g) = lv_label_create 8 g;
     let g = g\<lparr>sensor_lab := Some lab\<rparr>;
     str \<leftarrow> sprintf 50 DEFAULT_SENSOR_LABFMT (sensor_args ds);
     g \<leftarrow> lv_label_set_text (sensor_lab g) str g;
     let (lab, g) = lv_label_create 9 g;
     let g = g\<lparr>memo_lab := Some lab\<rparr>;
     lv_label_set_text (memo_lab g) (memo (device_cfg ds)) g }"

lemma tabs_run:
  assumes "t < 2 ^ 32"
  shows "main_page t ds blank = finish_page ds (tabs_built t)"
proof -
  let ?pre = "bar_widgets t"
  have n: "length ?pre = 5" "no_child (length ?pre) ?pre" "no_child (length ?pre + 2) ?pre" "4 < length ?pre"
    by (simp_all add: bar_widgets_def no_child_def new_widget_def)
  have four: "(4 :: nat) = Suc (Suc (Suc (Suc 0)))" by simp
  let ?g = "\<lambda>names. blank\<lparr>objs := tabs ?pre 4 names, timers := [20000], tabview := Some 5, time_lab := Some 3\<rparr>"
  have a: "lv_tabview_add_tab (Some 5) name (?g names) = Some (8 + length names, ?g (names @ [name]))" if "length names < 100" for name names
    using add_tab_run[OF n(2-4), of "?g names" names name] that n(1) by (simp add: add_ac)
  have "main_page t ds blank = do {
      (_, g) \<leftarrow> (do {
        g \<leftarrow> tabview_create ds 4 (blank\<lparr>objs := ?pre, timers := [20000], time_lab := Some 3\<rparr>); Some (4 :: nat, g) });
      Some g }"
    by (simp add: main_page_def lv_scr_act_def lv_obj_create_def create_def status_bar_run[OF assms] create_tabview_layout_def
        blank_def bar_widgets_def numeral_2_eq_2 numeral_3_eq_3 four)
  also have "\<dots> = tabview_create ds 4 (blank\<lparr>objs := ?pre, timers := [20000], time_lab := Some 3\<rparr>)"
    by (cases "tabview_create ds 4 (blank\<lparr>objs := ?pre, timers := [20000], time_lab := Some 3\<rparr>)") simp_all
  also have "\<dots> = finish_page ds (tabs_built t)"
    using a[of "[]" tianqi] a[of "[tianqi]" beiwanglu] a[of "[tianqi, beiwanglu]" beijing] a[of "[tianqi, beiwanglu, beijing]" shezhi] n(1)
    by (simp add: tabview_create_def tabview_create_run finish_page_def tabs_built_def tab_names_def Let_def blank_def)
  finally show ?thesis .
qed



definition weather_widgets :: "nat \<Rightarrow> nat \<Rightarrow> epd_show_weather_info_t \<Rightarrow> lv_obj list" where
  "weather_widgets n p wi =
     [new_widget Lv_obj (Some p) [], new_widget Lv_obj (Some n) []] @ day_widgets (n + 2) (n + 1) (wi\<lparr>day := 0\<rparr>) @
     [new_widget Lv_obj (Some n) []] @ day_widgets (n + 9) (n + 8) (wi\<lparr>day := 1\<rparr>)"

lemma weather_layout_run:
  assumes "weather_of (weather_info (device_cfg ds)) 0 = Some wi" and "length (weather_info (device_cfg ds)) = sizeof_weather_infos"
  shows "create_weather_layout ds p g = Some (length (objs g),
    g\<lparr>objs := objs g @ weather_widgets (length (objs g)) p wi,
      weather_icon := (weather_icon g)[0 := Some (length (objs g) + 5), 1 := Some (length (objs g) + 12)],
      weather_info_lab := (weather_info_lab g)[0 := Some (length (objs g) + 7), 1 := Some (length (objs g) + 14)]\<rparr>)"
proof -
  from weather_of_run[OF assms(2), of 0] assms(1) have b: "\<bar>temp_max wi\<bar> \<le> 128" "\<bar>temp_min wi\<bar> \<le> 128" by auto
  have w: "weather_of (weather_info (device_cfg ds)) i = Some (wi\<lparr>day := i\<rparr>)" for i
    using assms(1) by (auto simp: weather_of_def bind_Some_iff)
  have "day_weather p (wi\<lparr>day := i\<rparr>) g = Some (g\<lparr>objs := objs g @ day_widgets (length (objs g)) p (wi\<lparr>day := i\<rparr>),
     weather_icon := (weather_icon g)[if i = 0 then 0 else 1 := Some (length (objs g) + 3)],
     weather_info_lab := (weather_info_lab g)[if i = 0 then 0 else 1 := Some (length (objs g) + 5)]\<rparr>)" for p i g
    using day_weather_run[of "wi\<lparr>day := i\<rparr>" p g] b by simp
  moreover have "length (day_widgets n p v) = 6" for n p v by (simp add: day_widgets_def)
  ultimately show ?thesis
    by (cases g) (simp add: create_weather_layout_def w lv_obj_create_def create_def weather_widgets_def add_ac)
qed

definition page :: "nat \<Rightarrow> desk \<Rightarrow> epd_show_weather_info_t \<Rightarrow> gui" where
  "page t ds wi = blank\<lparr>objs := tabs (bar_widgets t) 4 tab_names @ weather_widgets 12 8 wi @
      [new_widget Lv_label (Some 8)
         (sensor_text (fst (sht30 (meas ds))) (snd (sht30 (meas ds))) (pressure (gzp6816d (meas ds)))),
       new_widget Lv_label (Some 9) (memo (device_cfg ds))],
     timers := [20000], tabview := Some 5, time_lab := Some 3, sensor_lab := Some 27, memo_lab := Some 28,
     weather_icon := [Some 17, Some 24], weather_info_lab := [Some 19, Some 26]\<rparr>"

lemma main_page_run:
  assumes "t < 2 ^ 32" and "readings_ok ds" and "weather_of (weather_info (device_cfg ds)) 0 = Some wi"
    and "length (weather_info (device_cfg ds)) = sizeof_weather_infos"
  shows "main_page t ds blank = Some (page t ds wi)"
proof -
  have n: "length (tabs (bar_widgets t) 4 tab_names) = 12" by (simp add: tabs_def bar_widgets_def tab_names_def)
  have l: "length (weather_widgets n p wi) = 15" for n p by (simp add: weather_widgets_def day_widgets_def)
  have "sprintf 50 DEFAULT_SENSOR_LABFMT (sensor_args ds) =
      Some (sensor_text (fst (sht30 (meas ds))) (snd (sht30 (meas ds))) (pressure (gzp6816d (meas ds))))"
    using sensor_text_length[OF assms(2)] by (simp add: sprintf_def vformat_sensor)
  then show ?thesis
    unfolding tabs_run[OF assms(1)] finish_page_def weather_layout_run[OF assms(3,4)]
    by (simp add: tabs_built_def n l page_def lv_label_create_def create_def lv_label_set_text_def set_text_def load_def
        nth_append list_update_append new_widget_def blank_def)
qed


section \<open>The life of the page\<close>

text \<open>
  What happens to the page once it is built: the timer refreshes it with the time and the readings of
  the moment, and the console switches tabs.
\<close>

datatype gui_event = Refresh nat desk | Switch "string list"

fun gui_step :: "gui_event \<Rightarrow> gui \<Rightarrow> gui option" where
  "gui_step (Refresh t ds) g = update_time_cb t ds g" |
  "gui_step (Switch argv) g = switch_tabview_cmd argv g"

fun possible_event :: "gui_event \<Rightarrow> bool" where
  "possible_event (Refresh t ds) \<longleftrightarrow> t < 2 ^ 32 \<and> readings_ok ds" |
  "possible_event (Switch argv) \<longleftrightarrow> True"

definition has_class :: "lv_class \<Rightarrow> gui \<Rightarrow> nat option \<Rightarrow> bool" where
  "has_class c g p \<longleftrightarrow> p \<noteq> None \<and> the p < length (objs g) \<and> obj_class (objs g ! the p) = c"

text \<open>
  Every pointer is to a widget of the class it is used as, the widgets form a tree below the
  screen, and the tab view has its four tabs with one of them shown.
\<close>

definition gui_ok :: "gui \<Rightarrow> bool" where
  "gui_ok g \<longleftrightarrow>
     list_all (has_class Lv_label g) ([time_lab g, sensor_lab g, memo_lab g] @ weather_info_lab g) \<and>
     distinct ([time_lab g, sensor_lab g, memo_lab g] @ weather_info_lab g) \<and>
     length (weather_info_lab g) = 2 \<and> length (weather_icon g) = 2 \<and> list_all (has_class Lv_img g) (weather_icon g) \<and>
     vbat g = None \<and> wifi g = None \<and>
     list_all (\<lambda>(i, w). case obj_parent w of None \<Rightarrow> i = 0 | Some p \<Rightarrow> p < i) (enumerate 0 (objs g)) \<and>
     has_class Lv_tabview g (tabview g) \<and> lv_tabview_get_content (the (tabview g)) g \<noteq> None \<and>
     tab_cnt (objs g ! the (tabview g)) = 4 \<and> tab_cur (objs g ! the (tabview g)) < 4"

text \<open>The shape of the page is all that its well-formedness depends on, apart from the tab shown.\<close>

definition shape :: "gui \<Rightarrow> (lv_class \<times> nat option \<times> nat) list \<times> gui" where
  "shape g = (map (\<lambda>w. (obj_class w, obj_parent w, tab_cnt w)) (objs g), g\<lparr>objs := []\<rparr>)"

lemma get_child_parents:
  "lv_obj_get_child p k g = load (map fst (List.filter (\<lambda>(i, q). q = Some p) (enumerate 0 (map obj_parent (objs g))))) k"
proof -
  have "map fst (List.filter (\<lambda>(i, w). obj_parent w = Some p) (enumerate n ws)) =
      map fst (List.filter (\<lambda>(i, q). q = Some p) (enumerate n (map obj_parent ws)))" for n and ws :: "lv_obj list"
    by (induction ws arbitrary: n) auto
  then show ?thesis by (simp only: lv_obj_get_child_def)
qed

lemma shape_gui_ok:
  assumes "gui_ok g" and "shape g' = shape g" and "tab_cur (objs g' ! the (tabview g)) < 4"
  shows "gui_ok g'"
proof -
  from assms(2) have m: "map (\<lambda>w. (obj_class w, obj_parent w, tab_cnt w)) (objs g') = map (\<lambda>w. (obj_class w, obj_parent w, tab_cnt w)) (objs g)"
    and p: "g'\<lparr>objs := []\<rparr> = g\<lparr>objs := []\<rparr>" by (simp_all add: shape_def)
  from m have l: "length (objs g') = length (objs g)" by (rule map_eq_imp_length_eq)
  have i: "obj_class (objs g' ! i) = obj_class (objs g ! i) \<and> obj_parent (objs g' ! i) = obj_parent (objs g ! i) \<and>
      tab_cnt (objs g' ! i) = tab_cnt (objs g ! i)" if "i < length (objs g)" for i
    using arg_cong[OF m, of "\<lambda>xs. xs ! i"] that l by simp
  have q: "time_lab g' = time_lab g" "sensor_lab g' = sensor_lab g" "memo_lab g' = memo_lab g" "tabview g' = tabview g"
    "weather_info_lab g' = weather_info_lab g" "weather_icon g' = weather_icon g" "vbat g' = vbat g" "wifi g' = wifi g"
    using p by (cases g; cases g'; simp)+
  have h: "has_class c g' = has_class c g" for c
    by (rule ext) (use i in \<open>auto simp: has_class_def l\<close>)
  have "map obj_parent (objs g') = map obj_parent (objs g)" using i l by (simp add: list_eq_iff_nth_eq)
  then have "lv_tabview_get_content n g' = lv_tabview_get_content n g" for n
    by (simp add: lv_tabview_get_content_def get_child_parents)
  then show ?thesis
    using assms(1,3) i by (simp add: gui_ok_def q h l has_class_def list_all_length nth_enumerate_eq)
qed

lemma page_ok: "gui_ok (page t ds wi)"
proof -
  have n: "length (tabs (bar_widgets t) 4 tab_names) = 12" by (simp add: tabs_def bar_widgets_def tab_names_def)
  have "no_child 5 (weather_widgets 12 8 wi)" by (simp add: no_child_def weather_widgets_def day_widgets_def new_widget_def)
  then have "lv_tabview_get_content (length (bar_widgets t)) (page t ds wi) = Some (length (bar_widgets t) + 2)"
    by (intro content_run[where p = 4 and names = tab_names and
          post = "weather_widgets 12 8 wi @ [new_widget Lv_label (Some 8)
         (sensor_text (fst (sht30 (meas ds))) (snd (sht30 (meas ds))) (pressure (gzp6816d (meas ds)))),
       new_widget Lv_label (Some 9) (memo (device_cfg ds))]"])
       (auto simp: no_child_def bar_widgets_def new_widget_def page_def)
  moreover have "length (bar_widgets t) = 5" by (simp add: bar_widgets_def)
  ultimately have c: "lv_tabview_get_content 5 (page t ds wi) \<noteq> None" by simp
  have o: "objs (page t ds wi) = tabs (bar_widgets t) 4 tab_names @ weather_widgets 12 8 wi @
      [new_widget Lv_label (Some 8)
         (sensor_text (fst (sht30 (meas ds))) (snd (sht30 (meas ds))) (pressure (gzp6816d (meas ds)))),
       new_widget Lv_label (Some 9) (memo (device_cfg ds))]" by (simp add: page_def)
  have "list_all (\<lambda>(i, w). case obj_parent w of None \<Rightarrow> i = 0 | Some p \<Rightarrow> p < i) (enumerate 0 (objs (page t ds wi)))"
    unfolding o by (simp add: tabs_def bar_widgets_def tab_names_def weather_widgets_def day_widgets_def new_widget_def)
  moreover have "length (objs (page t ds wi)) = 29"
    unfolding o by (simp add: tabs_def bar_widgets_def tab_names_def weather_widgets_def day_widgets_def)
  ultimately show ?thesis
    using c unfolding gui_ok_def has_class_def
    by (simp add: page_def blank_def tabs_def bar_widgets_def tab_names_def weather_widgets_def day_widgets_def new_widget_def)
qed


text \<open>
  What a user sees, as an abstract specification: the clock, the readings and the tab change with the
  events; the memo, the forecasts and their icons do not.
\<close>

definition moving :: "gui \<Rightarrow> bytes \<times> bytes \<times> nat" where
  "moving g = (obj_text (objs g ! the (time_lab g)), obj_text (objs g ! the (sensor_lab g)), tab_cur (objs g ! the (tabview g)))"

definition fixed :: "gui \<Rightarrow> bytes list" where
  "fixed g = map (\<lambda>p. obj_text (objs g ! the p)) ([memo_lab g] @ weather_info_lab g @ weather_icon g)"

fun show_event :: "gui_event \<Rightarrow> bytes \<times> bytes \<times> nat \<Rightarrow> bytes \<times> bytes \<times> nat" where
  "show_event (Refresh t ds) (clock, sensors, tab) =
     (clock_text (localtime_r t), sensor_text (fst (sht30 (meas ds))) (snd (sht30 (meas ds))) (pressure (gzp6816d (meas ds))), tab)" |
  "show_event (Switch argv) (clock, sensors, tab) =
     (clock, sensors, if 2 \<le> length argv \<and> 0 \<le> atoi (argv ! 1) \<and> atoi (argv ! 1) \<le> 3 then nat (atoi (argv ! 1)) else tab)"

lemma set_label_run:
  assumes "has_class Lv_label g p"
  shows "lv_label_set_text p s g = Some (g\<lparr>objs := (objs g)[the p := (objs g ! the p)\<lparr>obj_text := s\<rparr>]\<rparr>)"
  using assms by (auto simp: has_class_def lv_label_set_text_def set_text_def load_def)

lemma shape_set_text:
  "shape (g\<lparr>objs := (objs g)[i := (objs g ! i)\<lparr>obj_text := s\<rparr>]\<rparr>) = shape g"
  "shape (g\<lparr>objs := (objs g)[i := (objs g ! i)\<lparr>tab_cur := k\<rparr>]\<rparr>) = shape g"
  by (cases "i < length (objs g)"; auto simp: shape_def list_eq_iff_nth_eq nth_list_update)+

lemma gui_ok_pointers:
  assumes "gui_ok g"
  obtains t s m v a b c d where "time_lab g = Some t" "sensor_lab g = Some s" "memo_lab g = Some m" "tabview g = Some v"
    "weather_info_lab g = [Some a, Some b]" "weather_icon g = [Some c, Some d]"
    "distinct [t, s, m, a, b]" "list_all (\<lambda>i. i < length (objs g) \<and> obj_class (objs g ! i) = Lv_label) [t, s, m, a, b]"
    "list_all (\<lambda>i. i < length (objs g) \<and> obj_class (objs g ! i) = Lv_img) [c, d]"
    "v < length (objs g)" "obj_class (objs g ! v) = Lv_tabview" "vbat g = None"
proof -
  from assms have "length (weather_info_lab g) = 2" "length (weather_icon g) = 2" by (simp_all add: gui_ok_def)
  then obtain a b c d where "weather_info_lab g = [a, b]" "weather_icon g = [c, d]" by (auto simp: length_Suc_conv eval_nat_numeral)
  moreover from this assms have "time_lab g \<noteq> None" "sensor_lab g \<noteq> None" "memo_lab g \<noteq> None" "tabview g \<noteq> None"
    "a \<noteq> None" "b \<noteq> None" "c \<noteq> None" "d \<noteq> None" by (simp_all add: gui_ok_def has_class_def)
  then obtain t s m v a' b' c' d' where "time_lab g = Some t" "sensor_lab g = Some s" "memo_lab g = Some m"
    "tabview g = Some v" "a = Some a'" "b = Some b'" "c = Some c'" "d = Some d'"
    by (simp only: not_None_eq) blast
  ultimately show ?thesis using assms by (intro that[of t s m v a' b' c' d']) (simp_all add: gui_ok_def has_class_def)
qed

lemma refresh_step:
  assumes "gui_ok g" and "t < 2 ^ 32" and "readings_ok ds"
  shows "\<exists>g'. update_time_cb t ds g = Some g' \<and> gui_ok g' \<and> moving g' = show_event (Refresh t ds) (moving g) \<and> fixed g' = fixed g"
proof -
  from gui_ok_pointers[OF assms(1)] obtain lt ls m v a b c d where p:
    "time_lab g = Some lt" "sensor_lab g = Some ls" "memo_lab g = Some m" "tabview g = Some v"
    "weather_info_lab g = [Some a, Some b]" "weather_icon g = [Some c, Some d]"
    "distinct [lt, ls, m, a, b]" "list_all (\<lambda>i. i < length (objs g) \<and> obj_class (objs g ! i) = Lv_label) [lt, ls, m, a, b]"
    "list_all (\<lambda>i. i < length (objs g) \<and> obj_class (objs g ! i) = Lv_img) [c, d]"
    "v < length (objs g)" "obj_class (objs g ! v) = Lv_tabview" "vbat g = None" .
  let ?S = "sensor_text (fst (sht30 (meas ds))) (snd (sht30 (meas ds))) (pressure (gzp6816d (meas ds)))"
  let ?g1 = "g\<lparr>objs := (objs g)[lt := (objs g ! lt)\<lparr>obj_text := clock_text (localtime_r t)\<rparr>]\<rparr>"
  let ?g2 = "?g1\<lparr>objs := (objs ?g1)[ls := (objs ?g1 ! ls)\<lparr>obj_text := ?S\<rparr>]\<rparr>"
  have "has_class Lv_label g (Some lt)" "has_class Lv_label ?g1 (Some ls)" using p(7,8) by (auto simp: has_class_def)
  then have "update_time_cb t ds g = Some ?g2"
    using clock_text_length[OF assms(2)] sensor_text_length[OF assms(3)] p(1,2,12)
    by (simp add: update_time_cb_def strftime_def vtime_clock sprintf_def vformat_sensor set_label_run Let_def)
  moreover have ne: "v \<notin> {lt, ls}" "c \<notin> {lt, ls}" "d \<notin> {lt, ls}" using p(8,9,11) by auto
  moreover have "shape ?g2 = shape g" by (simp only: shape_set_text)
  then have "gui_ok ?g2"
    using assms(1) ne(1) by (intro shape_gui_ok[OF assms(1)]) (auto simp: p(4) gui_ok_def)
  ultimately show ?thesis
    using p by (intro exI[of _ ?g2]) (auto simp: moving_def fixed_def)
qed

lemma switch_step:
  assumes "gui_ok g"
  shows "\<exists>g'. switch_tabview_cmd argv g = Some g' \<and> gui_ok g' \<and> moving g' = show_event (Switch argv) (moving g) \<and> fixed g' = fixed g"
proof (cases "2 \<le> length argv \<and> 0 \<le> atoi (argv ! 1) \<and> atoi (argv ! 1) \<le> 3")
  case True
  from gui_ok_pointers[OF assms] obtain lt ls m v a b c d where p:
    "time_lab g = Some lt" "sensor_lab g = Some ls" "memo_lab g = Some m" "tabview g = Some v"
    "weather_info_lab g = [Some a, Some b]" "weather_icon g = [Some c, Some d]"
    "distinct [lt, ls, m, a, b]" "list_all (\<lambda>i. i < length (objs g) \<and> obj_class (objs g ! i) = Lv_label) [lt, ls, m, a, b]"
    "list_all (\<lambda>i. i < length (objs g) \<and> obj_class (objs g ! i) = Lv_img) [c, d]"
    "v < length (objs g)" "obj_class (objs g ! v) = Lv_tabview" "vbat g = None" .
  let ?k = "nat (atoi (argv ! 1))"
  let ?g = "g\<lparr>objs := (objs g)[v := (objs g ! v)\<lparr>tab_cur := ?k\<rparr>]\<rparr>"
  have "tab_cnt (objs g ! v) = 4" "lv_tabview_get_content v g \<noteq> None" using assms p(4) by (auto simp: gui_ok_def)
  then have "lv_tabview_set_act (Some v) ?k g = Some ?g"
    using p(10,11) True by (auto simp: lv_tabview_set_act_def load_def to_u16_id)
  then have "switch_tabview_cmd argv g = Some ?g" using True p(4) by (simp add: switch_tabview_cmd_def Let_def)
  moreover have "gui_ok ?g"
    by (rule shape_gui_ok[OF assms shape_set_text(2)]) (use p(4,10) True in auto)
  moreover have "v \<notin> {lt, ls, m, a, b, c, d}" using p(8,9,11) by auto
  ultimately show ?thesis
    using p True by (intro exI[of _ ?g]) (auto simp: moving_def fixed_def)
next
  case False
  then have "switch_tabview_cmd argv g = Some g" by (auto simp: switch_tabview_cmd_def Let_def)
  then show ?thesis using assms False by (cases "moving g") auto
qed

lemma gui_run:
  assumes "gui_ok g" and "list_all possible_event es"
  shows "\<exists>g'. for_each gui_step es g = Some g' \<and> gui_ok g' \<and> moving g' = fold show_event es (moving g) \<and> fixed g' = fixed g"
  using assms
proof (induction es arbitrary: g)
  case (Cons e es)
  from Cons.prems have "\<exists>g'. gui_step e g = Some g' \<and> gui_ok g' \<and> moving g' = show_event e (moving g) \<and> fixed g' = fixed g"
    by (cases e) (use refresh_step switch_step in auto)
  then obtain g1 where g1: "gui_step e g = Some g1" "gui_ok g1" "moving g1 = show_event e (moving g)" "fixed g1 = fixed g" by blast
  from Cons.IH[OF g1(2)] Cons.prems g1 show ?case by auto
qed simp


text \<open>The clock: its digits determine the date and the minute.\<close>

lemma digit_inj: "a < 10 \<Longrightarrow> b < 10 \<Longrightarrow> digit a = digit b \<longleftrightarrow> a = b"
proof
  assume "a < 10" "b < 10" "digit a = digit b"
  then have "unat (of_nat (48 + a) :: u8) = unat (of_nat (48 + b) :: u8)" by (simp add: digit_def)
  then show "a = b" using \<open>a < 10\<close> \<open>b < 10\<close> by (simp only: unat_of_nat) simp
qed simp

lemma digits_inj: "digits k a = digits k b \<longleftrightarrow> a mod 10 ^ k = b mod 10 ^ k"
proof (induction k arbitrary: a b)
  case (Suc k)
  have split: "x * 10 + c = y * 10 + d \<longleftrightarrow> x = y \<and> c = d" if "c < 10" "d < 10" for x y c d :: nat
  proof
    assume h: "x * 10 + c = y * 10 + d"
    then have "x = y" using that by linarith
    with h show "x = y \<and> c = d" by simp
  qed simp
  have e: "a mod 10 ^ Suc k = a div 10 mod 10 ^ k * 10 + a mod 10" for a :: nat
    by (simp add: mod_mult2_eq mult.commute)
  have "a mod 10 ^ Suc k = b mod 10 ^ Suc k \<longleftrightarrow> a div 10 mod 10 ^ k = b div 10 mod 10 ^ k \<and> a mod 10 = b mod 10"
    unfolding e by (rule split) simp_all
  then show ?case by (simp add: Suc.IH digit_inj)
qed simp

lemma year_text:
  assumes "1000 \<le> n" and "n < 10000"
  shows "fmt_d (int n) = digits (Suc (Suc (Suc (Suc 0)))) n"
proof -
  have "n div 10 \<ge> 100" "n div 10 div 10 \<ge> 10" "n div 10 div 10 div 10 < 10" using assms by auto
  then show ?thesis
    using assms by (simp add: fmt_d_def dec.simps[of n] dec.simps[of "n div 10"] dec.simps[of "n div 10 div 10"]
      dec.simps[of "n div 10 div 10 div 10"] del: div_mult2_eq)
qed

lemma gmtime_year: "t < 2 ^ 32 \<Longrightarrow> \<exists>m. m \<le> 136 \<and> tm_year (gmtime_r t) = int m + 70"
  using gmtime_fields by blast

lemma clock_text_inj:
  assumes "s < 2 ^ 32" and "t < 2 ^ 32"
  shows "clock_text (gmtime_r s) = clock_text (gmtime_r t) \<longleftrightarrow>
    tm_year (gmtime_r s) = tm_year (gmtime_r t) \<and> tm_mon (gmtime_r s) = tm_mon (gmtime_r t) \<and>
    tm_mday (gmtime_r s) = tm_mday (gmtime_r t) \<and> tm_hour (gmtime_r s) = tm_hour (gmtime_r t) \<and>
    tm_min (gmtime_r s) = tm_min (gmtime_r t)"
proof -
  from gmtime_year[OF assms(1)] gmtime_year[OF assms(2)] obtain m n where y: "m \<le> 136" "n \<le> 136"
    "tm_year (gmtime_r s) + 1900 = int (1970 + m)" "tm_year (gmtime_r t) + 1900 = int (1970 + n)" by auto
  have v: "valid_tm (gmtime_r s)" "valid_tm (gmtime_r t)" using gmtime_fields assms by blast+
  have f: "fmt_d (int (1970 + m)) = digits (Suc (Suc (Suc (Suc 0)))) (1970 + m)" "fmt_d (int (1970 + n)) = digits (Suc (Suc (Suc (Suc 0)))) (1970 + n)"
    by (rule year_text; use y(1,2) in simp)+
  have r: "0 \<le> a \<Longrightarrow> a < 100 \<Longrightarrow> 0 \<le> b \<Longrightarrow> b < 100 \<Longrightarrow> digits 2 (nat a) = digits 2 (nat b) \<longleftrightarrow> a = b" for a b
    by (simp add: digits_inj nat_less_iff eq_nat_nat_iff)
  have "digits (Suc (Suc (Suc (Suc 0)))) (1970 + m) = digits (Suc (Suc (Suc (Suc 0)))) (1970 + n) \<longleftrightarrow> m = n"
    using y(1,2) by (simp only: digits_inj) simp
  moreover have "tm_year (gmtime_r s) = tm_year (gmtime_r t) \<longleftrightarrow> m = n" using y(3,4) by linarith
  ultimately show ?thesis
    using v unfolding clock_text_def y(3,4) f
    by (simp add: r valid_tm_def del: digits.simps)
qed


lemma minute_split: "(t :: nat) div 86400 = t div 60 div 1440" "t mod 86400 div 60 = t div 60 mod 1440"
  by (simp_all add: div_mult2_eq[symmetric] mod_mult2_eq[of t 60 1440, simplified])

lemma clock_minute:
  assumes "s < 2 ^ 32" and "t < 2 ^ 32"
  shows "clock_text (gmtime_r s) = clock_text (gmtime_r t) \<longleftrightarrow> s div 60 = t div 60"
proof
  assume "s div 60 = t div 60"
  then have "s div 86400 = t div 86400" "s mod 86400 div 60 = t mod 86400 div 60" by (simp_all only: minute_split)
  then have "tm_year (gmtime_r s) = tm_year (gmtime_r t) \<and> tm_mon (gmtime_r s) = tm_mon (gmtime_r t) \<and>
    tm_mday (gmtime_r s) = tm_mday (gmtime_r t) \<and> tm_hour (gmtime_r s) = tm_hour (gmtime_r t) \<and>
    tm_min (gmtime_r s) = tm_min (gmtime_r t)"
    by (simp add: gmtime_r_def Let_def case_prod_beta)
  then show "clock_text (gmtime_r s) = clock_text (gmtime_r t)" using clock_text_inj[OF assms] by blast
next
  assume "clock_text (gmtime_r s) = clock_text (gmtime_r t)"
  then have f: "tm_year (gmtime_r s) = tm_year (gmtime_r t)" "tm_mon (gmtime_r s) = tm_mon (gmtime_r t)"
    "tm_mday (gmtime_r s) = tm_mday (gmtime_r t)" "tm_hour (gmtime_r s) = tm_hour (gmtime_r t)"
    "tm_min (gmtime_r s) = tm_min (gmtime_r t)" using clock_text_inj[OF assms] by blast+
  from gmtime_fields[OF assms(1)] obtain m r where s: "s div 86400 = days_before m + r" "tm_year (gmtime_r s) = int m + 70"
    "spm ! nat (tm_mon (gmtime_r s)) + tm_mday (gmtime_r s) - 1 + (if isleap (1970 + int m) \<and> tm_mon (gmtime_r s) > 1 then 1 else 0) = int r"
    "tm_min (gmtime_r s) = int (s mod 86400 div 60 mod 60)" "tm_hour (gmtime_r s) = int (s mod 86400 div 60 div 60)" by blast
  from gmtime_fields[OF assms(2)] obtain n q where t: "t div 86400 = days_before n + q" "tm_year (gmtime_r t) = int n + 70"
    "spm ! nat (tm_mon (gmtime_r t)) + tm_mday (gmtime_r t) - 1 + (if isleap (1970 + int n) \<and> tm_mon (gmtime_r t) > 1 then 1 else 0) = int q"
    "tm_min (gmtime_r t) = int (t mod 86400 div 60 mod 60)" "tm_hour (gmtime_r t) = int (t mod 86400 div 60 div 60)" by blast
  have "m = n" using s(2) t(2) f(1) by simp
  then have "int r = int q" unfolding s(3)[symmetric] t(3)[symmetric] f by simp
  then have d: "s div 86400 = t div 86400" using s(1) t(1) \<open>m = n\<close> by simp
  have "s mod 86400 div 60 div 60 = t mod 86400 div 60 div 60" "s mod 86400 div 60 mod 60 = t mod 86400 div 60 mod 60"
    using s(4,5) t(4,5) f(4,5) by simp_all
  then have "s mod 86400 div 60 = t mod 86400 div 60" by (metis div_mult_mod_eq)
  with d show "s div 60 = t div 60" unfolding minute_split by (metis div_mult_mod_eq)
qed

text \<open>
  C22. The page never goes wrong: it is built without writing past a buffer or using a widget as one
  of another class, and from then on every refresh and every tab command finds every widget it
  uses, of the right class, and leaves the tree of widgets and the four tabs well-formed.
\<close>

theorem page_well_formed:
  assumes "t < 2 ^ 32" and "readings_ok ds" and "length (weather_info (device_cfg ds)) = sizeof_weather_infos"
    and "gui_ok g" and "possible_event e"
  shows "(\<exists>g0. lv_user_gui_init t ds blank = Some g0 \<and> gui_ok g0) \<and> (\<exists>g'. gui_step e g = Some g' \<and> gui_ok g')"
proof -
  from weather_of_run[OF assms(3), of 0] obtain wi where "weather_of (weather_info (device_cfg ds)) 0 = Some wi" by blast
  from main_page_run[OF assms(1,2) this assms(3)] have "lv_user_gui_init t ds blank = Some (page t ds wi)"
    by (simp add: lv_user_gui_init_def)
  then show ?thesis using page_ok gui_run[OF assms(4), of "[e]"] assms(5) by (auto split: option.splits)
qed

text \<open>
  C19. What the page shows refines its specification: after any sequence of refreshes and tab commands
  the clock and the readings are those of the last refresh and the tab is the one of the last
  command that named a tab, while a command with any other number changes nothing.
\<close>

theorem page_refines_display:
  assumes "t < 2 ^ 32" and "readings_ok ds" and "length (weather_info (device_cfg ds)) = sizeof_weather_infos"
    and "list_all possible_event es"
  shows "\<exists>g0 g. lv_user_gui_init t ds blank = Some g0 \<and> for_each gui_step es g0 = Some g \<and>
    moving g = fold show_event es (clock_text (localtime_r t),
      sensor_text (fst (sht30 (meas ds))) (snd (sht30 (meas ds))) (pressure (gzp6816d (meas ds))), 0)"
proof -
  from weather_of_run[OF assms(3), of 0] obtain wi where "weather_of (weather_info (device_cfg ds)) 0 = Some wi" by blast
  from main_page_run[OF assms(1,2) this assms(3)] have "lv_user_gui_init t ds blank = Some (page t ds wi)"
    by (simp add: lv_user_gui_init_def)
  moreover have "moving (page t ds wi) = (clock_text (localtime_r t),
      sensor_text (fst (sht30 (meas ds))) (snd (sht30 (meas ds))) (pressure (gzp6816d (meas ds))), 0)"
    by (simp add: moving_def page_def blank_def tabs_def bar_widgets_def tab_names_def weather_widgets_def day_widgets_def new_widget_def)
  ultimately show ?thesis using gui_run[OF page_ok assms(4), of t ds wi] by auto
qed

text \<open>
  C30. The forecast and the memo are those of the moment the page was built, whatever the server sends
  later, and both columns of the forecast, today's and tomorrow's, show the temperatures and the icon
  of the first day.
\<close>

theorem forecast_and_memo_frozen:
  assumes "t < 2 ^ 32" and "readings_ok ds" and "length (weather_info (device_cfg ds)) = sizeof_weather_infos"
    and "list_all possible_event es"
  shows "\<exists>g0 g wi. lv_user_gui_init t ds blank = Some g0 \<and> for_each gui_step es g0 = Some g \<and>
    weather_of (weather_info (device_cfg ds)) 0 = Some wi \<and>
    fixed g = [memo (device_cfg ds), weather_text wi, weather_text wi, icon_path (icon_code wi), icon_path (icon_code wi)]"
proof -
  from weather_of_run[OF assms(3), of 0] obtain wi where wi: "weather_of (weather_info (device_cfg ds)) 0 = Some wi" by blast
  from main_page_run[OF assms(1,2) wi assms(3)] have "lv_user_gui_init t ds blank = Some (page t ds wi)"
    by (simp add: lv_user_gui_init_def)
  moreover have "fixed (page t ds wi) =
      [memo (device_cfg ds), weather_text wi, weather_text wi, icon_path (icon_code wi), icon_path (icon_code wi)]"
    by (simp add: fixed_def page_def blank_def tabs_def bar_widgets_def tab_names_def weather_widgets_def day_widgets_def new_widget_def
        weather_text_def)
  ultimately show ?thesis using wi gui_run[OF page_ok assms(4), of t ds wi] by auto
qed

text \<open>
  C29. The clock label identifies the minute: two refreshes leave the same text on it exactly when they
  happened within the same minute of local time, for all time stamps of 32 bits.
\<close>

theorem clock_identifies_minute:
  assumes "gui_ok g" and "readings_ok ds" and "s < 2 ^ 32" and "t < 2 ^ 32"
  shows "\<exists>gs gt. update_time_cb s ds g = Some gs \<and> update_time_cb t ds g = Some gt \<and>
    (fst (moving gs) = fst (moving gt) \<longleftrightarrow> to_u32 (int s + rt_tz_get) div 60 = to_u32 (int t + rt_tz_get) div 60)"
proof -
  from refresh_step[OF assms(1,3,2)] refresh_step[OF assms(1,4,2)] obtain gs gt where
    "update_time_cb s ds g = Some gs" "update_time_cb t ds g = Some gt" "fst (moving gs) = clock_text (localtime_r s)"
    "fst (moving gt) = clock_text (localtime_r t)" by (cases "moving g") auto
  then show ?thesis
    using clock_minute[OF to_u32_bound to_u32_bound, of "int s + rt_tz_get" "int t + rt_tz_get"] by (simp add: localtime_r_def)
qed


section \<open>Instances\<close>

definition sample_weather :: epd_show_weather_info_t where
  "sample_weather = \<lparr>icon_code = 100, temp_max = 30, temp_min = 21, day = 0\<rparr>"

lemma fresh_desk_ok:
  "readings_ok fresh_desk" "length (weather_info (device_cfg fresh_desk)) = sizeof_weather_infos" "memo (device_cfg fresh_desk) = []"
  by (simp_all add: readings_ok_def fresh_desk_def zero_cfg_def)

lemma atoi_two: "atoi ''2'' = 2" "atoi ''7'' = 7"
  by (simp_all add: atoi_def)

theorem page_well_formed_witness:
  "(\<exists>g0. lv_user_gui_init 1749600000 fresh_desk blank = Some g0 \<and> gui_ok g0) \<and>
   (\<exists>g'. gui_step (Switch [''switch_tabview'', ''2'']) (page 0 fresh_desk sample_weather) = Some g' \<and> gui_ok g')"
  using page_well_formed[of 1749600000 fresh_desk "page 0 fresh_desk sample_weather" "Switch [''switch_tabview'', ''2'']"]
    fresh_desk_ok page_ok by simp

theorem page_refines_display_witness:
  "\<exists>g0 g. lv_user_gui_init 0 fresh_desk blank = Some g0 \<and>
    for_each gui_step [Switch [''switch_tabview'', ''2''], Refresh 1749600000 fresh_desk, Switch [''switch_tabview'', ''7'']] g0 = Some g \<and>
    moving g = (clock_text (localtime_r 1749600000), sensor_text 0 0 0, 2)"
proof -
  have "(fst (sht30 (meas fresh_desk)), snd (sht30 (meas fresh_desk)), pressure (gzp6816d (meas fresh_desk))) = (0, 0, 0)"
    by (simp add: fresh_desk_def)
  then show ?thesis
    using page_refines_display[of 0 fresh_desk "[Switch [''switch_tabview'', ''2''], Refresh 1749600000 fresh_desk, Switch [''switch_tabview'', ''7'']]"]
      fresh_desk_ok atoi_two by simp
qed

theorem forecast_and_memo_frozen_witness:
  "\<exists>g0 g wi. lv_user_gui_init 0 fresh_desk blank = Some g0 \<and>
    for_each gui_step [Refresh 1749600000 (fresh_desk\<lparr>device_cfg := zero_cfg\<lparr>memo := [65]\<rparr>\<rparr>)] g0 = Some g \<and>
    fixed g = [[], weather_text wi, weather_text wi, icon_path (icon_code wi), icon_path (icon_code wi)]"
  using forecast_and_memo_frozen[of 0 fresh_desk "[Refresh 1749600000 (fresh_desk\<lparr>device_cfg := zero_cfg\<lparr>memo := [65]\<rparr>\<rparr>)]"]
    fresh_desk_ok by (fastforce simp: readings_ok_def)

theorem clock_identifies_minute_witness:
  "\<exists>gs gt. update_time_cb 1749600000 fresh_desk (page 0 fresh_desk sample_weather) = Some gs \<and>
    update_time_cb 1749600059 fresh_desk (page 0 fresh_desk sample_weather) = Some gt \<and> fst (moving gs) = fst (moving gt)"
  using clock_identifies_minute[OF page_ok, of fresh_desk 1749600000 1749600059 0 fresh_desk sample_weather] fresh_desk_ok
  by (auto simp: rt_tz_get_def to_u32_id)

end
