(* ===== verification/Kstdio.thy ===== *)
theory Kstdio
  imports Format Calendar
begin

text \<open>
  Console output: \<^verbatim>\<open>rt_vsnprintf\<close> with its number printing (\<^verbatim>\<open>src/rt-thread/src/klibc/kstdio.c\<close>) and
  \<^verbatim>\<open>rt_kprintf\<close> (\<^verbatim>\<open>src/rt-thread/src/kservice.c\<close>), through which the firmware reports everything. The
  configuration has no 64-bit arguments, so every number is a 32-bit word. What a conversion emits is
  a list of bytes in the order of the code; \<^verbatim>\<open>rt_vsnprintf\<close> stores each of them only below the end of
  the buffer. \<open>None\<close> is an argument that is missing or of another kind, or an access outside an array.
\<close>

section \<open>Numbers\<close>

record kflags =
  ZEROPAD :: bool
  SIGN :: bool
  PLUS :: bool
  SPACE :: bool
  LEFT :: bool
  SPECIAL :: bool
  LARGE :: bool

definition no_flags :: kflags where
  "no_flags = \<lparr>ZEROPAD = False, SIGN = False, PLUS = False, SPACE = False, LEFT = False, SPECIAL = False, LARGE = False\<rparr>"

definition small_digits :: bytes where "small_digits = bs ''0123456789abcdef''"
definition large_digits :: bytes where "large_digits = bs ''0123456789ABCDEF''"

text \<open>The digits, last one first, in the temporary array of 32 bytes.\<close>

function digit_loop :: "bytes \<Rightarrow> nat \<Rightarrow> nat \<Rightarrow> bytes \<Rightarrow> bytes option" where
  "digit_loop table b num tmp =
     (if num = 0 then Some tmp
      else if length tmp < 32 then do { d \<leftarrow> load table (num mod b); digit_loop table b (num div b) (tmp @ [d]) }
      else None)"
  by auto
termination
  by (relation "measure (\<lambda>(_, _, _, tmp). 32 - length tmp)") auto

declare digit_loop.simps [simp del]

definition number_sign :: "u32 \<Rightarrow> u8 \<Rightarrow> kflags \<Rightarrow> u8 \<times> u32" where
  "number_sign num qualifier type =
     (if \<not> SIGN type then (0, num)
      else
        let (sign, num) =
          (if qualifier = 104 then
             if sint (ucast num :: u16) < 0 then (45, ucast (ucast (- num) :: u16)) else (0, num)
           else if sint num < 0 then (45, - num) else (0, num))
        in (if sign \<noteq> 45 then if PLUS type then 43 else if SPACE type then 32 else sign else sign, num))"

text \<open>A loop \<^verbatim>\<open>while (size-- > 0)\<close>: how often it runs, and the value it leaves.\<close>

definition runs :: "int \<Rightarrow> nat" where "runs n = nat n"
definition left_over :: "int \<Rightarrow> int" where "left_over n = (if n > 0 then - 1 else n - 1)"

text \<open>The second half of \<^verbatim>\<open>print_number\<close>: the digits are there, the rest is filling.\<close>

definition number_layout :: "kflags \<Rightarrow> nat \<Rightarrow> u8 \<Rightarrow> int \<Rightarrow> int \<Rightarrow> bytes \<Rightarrow> bytes" where
  "number_layout type b sign room precision_bak tmp =
     (let c = (if ZEROPAD type then 48 else 32);
          i = int (length tmp);
          precision = (if i > precision_bak then i else precision_bak);
          room = room - precision;
          (lead, room) =
            (if \<not> (ZEROPAD type \<or> LEFT type) then
               let room = (if sign \<noteq> 0 \<and> room > 0 then room - 1 else room)
               in (replicate (runs room) 32, left_over room)
             else ([], room));
          (signs, room) = (if sign \<noteq> 0 then ([sign], room - 1) else ([], room));
          special =
            (if SPECIAL type then
               if b = 2 then [48, 98] else if b = 8 then [48] else if b = 16 then [48, if LARGE type then 88 else 120] else []
             else []);
          (middle, room) = (if \<not> LEFT type then (replicate (runs room) c, left_over room) else ([], room));
          zeros = replicate (runs (precision - i)) 48;
          digs = (if precision_bak \<noteq> 0 then rev tmp else [])
      in lead @ signs @ special @ middle @ zeros @ digs @ replicate (runs room) 32)"

definition print_number :: "u32 \<Rightarrow> nat \<Rightarrow> u8 \<Rightarrow> int \<Rightarrow> int \<Rightarrow> kflags \<Rightarrow> bytes option" where
  "print_number num b qualifier s precision type =
     (let table = (if LARGE type then large_digits else small_digits);
          type = (if LEFT type then type\<lparr>ZEROPAD := False\<rparr> else type);
          (sign, num) = number_sign num qualifier type;
          room = (if SPECIAL type then if b = 2 \<or> b = 16 then s - 2 else if b = 8 then s - 1 else s else s)
      in do {
        tmp \<leftarrow> (if num = 0 then Some [48] else digit_loop table b (unat num) []);
        Some (number_layout type b sign room precision tmp) })"

section \<open>Format strings\<close>

datatype karg = KNum u32 | KStr "bytes option" | KDbl rat

definition ISDIGIT :: "u8 \<Rightarrow> bool" where
  "ISDIGIT c \<longleftrightarrow> 48 \<le> c \<and> c \<le> 57"

fun get_flags :: "kflags \<Rightarrow> bytes \<Rightarrow> kflags \<times> bytes" where
  "get_flags f [] = (f, [])" |
  "get_flags f (c # cs) =
     (if c = 45 then get_flags (f\<lparr>LEFT := True\<rparr>) cs
      else if c = 43 then get_flags (f\<lparr>PLUS := True\<rparr>) cs
      else if c = 32 then get_flags (f\<lparr>SPACE := True\<rparr>) cs
      else if c = 35 then get_flags (f\<lparr>SPECIAL := True\<rparr>) cs
      else if c = 48 then get_flags (f\<lparr>ZEROPAD := True\<rparr>) cs
      else (f, c # cs))"

fun skip_atoi :: "int \<Rightarrow> bytes \<Rightarrow> int \<times> bytes" where
  "skip_atoi i [] = (i, [])" |
  "skip_atoi i (c # cs) = (if ISDIGIT c then skip_atoi (i * 10 + (uint c - 48)) cs else (i, c # cs))"

definition next_num :: "karg list \<Rightarrow> (u32 \<times> karg list) option" where
  "next_num args = (case args of KNum n # r \<Rightarrow> Some (n, r) | _ \<Rightarrow> None)"

definition get_width :: "kflags \<Rightarrow> bytes \<Rightarrow> karg list \<Rightarrow> (int \<times> kflags \<times> bytes \<times> karg list) option" where
  "get_width f cs args =
     (if cs \<noteq> [] \<and> ISDIGIT (hd cs) then (case skip_atoi 0 cs of (w, r) \<Rightarrow> Some (w, f, r, args))
      else if cs \<noteq> [] \<and> hd cs = 42 then do {
        (n, args) \<leftarrow> next_num args;
        Some (if sint n < 0 then (- sint n, f\<lparr>LEFT := True\<rparr>, tl cs, args) else (sint n, f, tl cs, args)) }
      else Some (- 1, f, cs, args))"

definition get_precision :: "bytes \<Rightarrow> karg list \<Rightarrow> (int \<times> bytes \<times> karg list) option" where
  "get_precision cs args =
     (if cs \<noteq> [] \<and> hd cs = 46 then
        let cs = tl cs in
        if cs \<noteq> [] \<and> ISDIGIT (hd cs) then (case skip_atoi 0 cs of (p, r) \<Rightarrow> Some (p, r, args))
        else if cs \<noteq> [] \<and> hd cs = 42 then do { (n, args) \<leftarrow> next_num args; Some (max 0 (sint n), tl cs, args) }
        else Some (0, cs, args)
      else Some (- 1, cs, args))"

definition get_qualifier :: "bytes \<Rightarrow> u8 \<times> bytes" where
  "get_qualifier cs =
     (if cs \<noteq> [] \<and> (hd cs = 104 \<or> hd cs = 108 \<or> hd cs = 122) then
        if hd cs = 104 \<and> tl cs \<noteq> [] \<and> hd (tl cs) = 104 then (72, tl (tl cs)) else (hd cs, tl cs)
      else (0, cs))"

definition string_conv :: "bytes option \<Rightarrow> int \<Rightarrow> int \<Rightarrow> kflags \<Rightarrow> bytes" where
  "string_conv s field_width precision f =
     (let s = (case s of None \<Rightarrow> bs ''(NULL)'' | Some s \<Rightarrow> s);
          len = (if field_width \<ge> 0 then min (nat field_width) (length s) else length s);
          len = (if precision > 0 \<and> int len > precision then nat precision else len);
          fill = replicate (nat (field_width - int len)) 32
      in (if LEFT f then [] else fill) @ take len s @ (if LEFT f then fill else []))"

definition char_conv :: "u32 \<Rightarrow> int \<Rightarrow> kflags \<Rightarrow> bytes" where
  "char_conv n field_width f =
     (let fill = replicate (nat (field_width - 1)) 32
      in (if LEFT f then [] else fill) @ [ucast n] @ (if LEFT f then fill else []))"

definition read_num :: "u8 \<Rightarrow> bool \<Rightarrow> u32 \<Rightarrow> u32" where
  "read_num qualifier sign n =
     (if qualifier = 72 then scast (ucast n :: u8)
      else if qualifier = 104 then
        if sign then scast (ucast n :: u16) else ucast (ucast n :: u16)
      else n)"

text \<open>One conversion: what it emits, and the rest of the format and of the arguments.\<close>

definition conversion :: "bytes \<Rightarrow> karg list \<Rightarrow> (bytes \<times> bytes \<times> karg list) option" where
  "conversion cs args = (case get_flags no_flags cs of (f, cs) \<Rightarrow> do {
     (field_width, f, cs, args) \<leftarrow> get_width f cs args;
     (precision, cs, args) \<leftarrow> get_precision cs args;
     let (qualifier, cs) = get_qualifier cs;
     (case cs of
        [] \<Rightarrow> Some ([37], [], args)
      | k # cs \<Rightarrow>
          if k = 99 then do { (n, args) \<leftarrow> next_num args; Some (char_conv n field_width f, cs, args) }
          else if k = 115 then (case args of KStr s # args \<Rightarrow> Some (string_conv s field_width precision f, cs, args) | _ \<Rightarrow> None)
          else if k = 112 then do {
            (n, args) \<leftarrow> next_num args;
            let (field_width, f) = (if field_width = - 1 then (10, f\<lparr>SPECIAL := True, ZEROPAD := True\<rparr>) else (field_width, f));
            t \<leftarrow> print_number n 16 qualifier field_width precision f;
            Some (t, cs, args) }
          else if k = 37 then Some ([37], cs, args)
          else if k = 98 \<or> k = 111 \<or> k = 88 \<or> k = 120 \<or> k = 100 \<or> k = 105 \<or> k = 117 then do {
            let b = (if k = 98 then 2 else if k = 111 then 8 else if k = 88 \<or> k = 120 then 16 else 10);
            let f = (if k = 88 then f\<lparr>LARGE := True\<rparr> else if k = 100 \<or> k = 105 then f\<lparr>SIGN := True\<rparr> else f);
            (n, args) \<leftarrow> next_num args;
            t \<leftarrow> print_number (read_num qualifier (SIGN f) n) b qualifier field_width precision f;
            Some (t, cs, args) }
          else if k = 101 \<or> k = 69 \<or> k = 71 \<or> k = 103 \<or> k = 102 \<or> k = 70 then
            (case args of KDbl _ # args \<Rightarrow> Some ([37, k], cs, args) | _ \<Rightarrow> None)
          else Some ([37, k], cs, args)) })"

lemma get_flags_length: "get_flags f cs = (f', r) \<Longrightarrow> length r \<le> length cs"
  by (induction f cs rule: get_flags.induct) (auto split: if_splits)

lemma skip_atoi_length: "skip_atoi i cs = (w, r) \<Longrightarrow> length r \<le> length cs"
  by (induction i cs rule: skip_atoi.induct) (auto split: if_splits)

lemma get_width_length: "get_width f cs args = Some (w, f', r, args') \<Longrightarrow> length r \<le> length cs"
  by (auto simp: get_width_def bind_Some_iff split: if_splits prod.splits dest: skip_atoi_length)

lemma get_precision_length: "get_precision cs args = Some (p, r, args') \<Longrightarrow> length r \<le> length cs"
  by (auto simp: get_precision_def bind_Some_iff Let_def split: if_splits prod.splits dest!: skip_atoi_length)

lemma get_qualifier_length: "get_qualifier cs = (q, r) \<Longrightarrow> length r \<le> length cs"
  by (auto simp: get_qualifier_def split: if_splits)

lemmas parse_lengths = get_flags_length get_width_length get_precision_length get_qualifier_length

lemma conversion_length:
  assumes "conversion cs args = Some (t, r, args')"
  shows "length r \<le> length cs"
proof -
  obtain f r1 where 1: "get_flags no_flags cs = (f, r1)" by fastforce
  with assms obtain w f2 r2 a2 where 2: "get_width f r1 args = Some (w, f2, r2, a2)"
    by (auto simp: conversion_def bind_Some_iff)
  with assms 1 obtain p r3 a3 where 3: "get_precision r2 a2 = Some (p, r3, a3)"
    by (auto simp: conversion_def bind_Some_iff)
  obtain q r4 where 4: "get_qualifier r3 = (q, r4)" by fastforce
  have "length r4 \<le> length cs" using 1 2 3 4 by (blast dest: parse_lengths le_trans)
  moreover have "length r \<le> length r4"
    using assms 1 2 3 4 by (auto simp: conversion_def bind_Some_iff Let_def split: list.splits if_splits karg.splits prod.splits)
  ultimately show ?thesis by simp
qed

function kformat :: "bytes \<Rightarrow> karg list \<Rightarrow> bytes option" where
  "kformat [] args = Some []" |
  "kformat (c # cs) args =
     (if c \<noteq> 37 then map_option ((#) c) (kformat cs args)
      else case conversion cs args of
        None \<Rightarrow> None
      | Some (t, r, args) \<Rightarrow> map_option ((@) t) (kformat r args))"
  by pat_completeness auto
termination
  by (relation "measure (\<lambda>(cs, _). length cs)") (auto dest!: conversion_length)

section \<open>Into a buffer\<close>

definition putc :: "nat \<Rightarrow> u8 \<Rightarrow> bytes \<times> nat \<Rightarrow> (bytes \<times> nat) option" where
  "putc e c st = (case st of (buf, str) \<Rightarrow>
     if str < e then do { buf \<leftarrow> store buf str c; Some (buf, str + 1) } else Some (buf, str + 1))"

text \<open>
  \<open>base_addr\<close> is the address of the buffer: an end past the last address becomes the last address.
\<close>

definition rt_vsnprintf :: "nat \<Rightarrow> bytes \<Rightarrow> nat \<Rightarrow> bytes \<Rightarrow> karg list \<Rightarrow> (nat \<times> bytes) option" where
  "rt_vsnprintf base_addr buf n fmt args =
     (let n = (if base_addr + n < 2 ^ 32 then n else 2 ^ 32 - 1 - base_addr) in do {
        out \<leftarrow> kformat fmt args;
        (buf, str) \<leftarrow> for_each (putc n) out (buf, 0);
        buf \<leftarrow> (if n > 0 then if str < n then store buf str 0 else store buf (n - 1) 0 else Some buf);
        Some (str, buf) })"

definition rt_vsprintf :: "nat \<Rightarrow> bytes \<Rightarrow> bytes \<Rightarrow> karg list \<Rightarrow> (nat \<times> bytes) option" where
  "rt_vsprintf base_addr buf fmt args = rt_vsnprintf base_addr buf (2 ^ 32 - 1) fmt args"

definition RT_CONSOLEBUF_SIZE :: nat where "RT_CONSOLEBUF_SIZE = 256"

text \<open>The console: the static log buffer at its address, and the bytes handed to the device so far.\<close>

record console =
  log_addr :: nat
  rt_log_buf :: bytes
  printed :: bytes

definition rt_kprintf :: "bytes \<Rightarrow> karg list \<Rightarrow> console \<Rightarrow> (nat \<times> console) option" where
  "rt_kprintf fmt args con = do {
     (len, buf) \<leftarrow> rt_vsnprintf (log_addr con) (rt_log_buf con) (RT_CONSOLEBUF_SIZE - 1) fmt args;
     let len = (if len > RT_CONSOLEBUF_SIZE - 1 then RT_CONSOLEBUF_SIZE - 1 else len);
     Some (len, con\<lparr>rt_log_buf := buf, printed := printed con @ take len buf\<rparr>) }"

definition console_ok :: "console \<Rightarrow> bool" where
  "console_ok con \<longleftrightarrow> length (rt_log_buf con) = RT_CONSOLEBUF_SIZE \<and> log_addr con + RT_CONSOLEBUF_SIZE \<le> 2 ^ 32"

section \<open>Properties\<close>

lemma puts_beyond: "n \<le> k \<Longrightarrow> for_each (putc n) out (buf, k) = Some (buf, k + length out)"
  by (induction out arbitrary: k) (simp_all add: putc_def)

lemma puts_run:
  assumes "n \<le> length buf" and "k \<le> length buf"
  shows "for_each (putc n) out (buf, k) =
    Some (take k buf @ take (n - k) out @ drop (k + length (take (n - k) out)) buf, k + length out)"
  using assms
proof (induction out arbitrary: buf k)
  case (Cons c out)
  show ?case
  proof (cases "k < n")
    case True
    then have p: "putc n c (buf, k) = Some (buf[k := c], Suc k)" using Cons.prems by (simp add: putc_def store_def)
    have t: "take (Suc k) (buf[k := c]) = take k buf @ [c]" using True Cons.prems by (simp add: take_Suc_conv_app_nth)
    obtain j where j: "n - k = Suc j" "n - Suc k = j" using True by (cases "n - k") auto
    show ?thesis using p t Cons.IH[of "buf[k := c]" "Suc k"] Cons.prems True by (simp add: j)
  next
    case False
    then have "putc n c (buf, k) = Some (buf, Suc k)" by (simp add: putc_def)
    moreover have "for_each (putc n) out (buf, Suc k) = Some (buf, Suc k + length out)" using False by (intro puts_beyond) simp
    ultimately show ?thesis using False by simp
  qed
qed simp

lemma vsnprintf_run:
  assumes "kformat fmt args = Some out" and "n \<le> length buf" and "0 < n" and "base_addr + n < 2 ^ 32"
  shows "rt_vsnprintf base_addr buf n fmt args =
    Some (length out, take (n - 1) out @ 0 # drop (Suc (min (n - 1) (length out))) buf)"
proof -
  let ?m = "min n (length out)"
  have p: "for_each (putc n) out (buf, 0) = Some (take ?m out @ drop ?m buf, length out)"
    using puts_run[OF assms(2), of 0 out] by (simp add: min_def take_all)
  have u: "(take ?m out @ drop ?m buf)[k := 0] = take k out @ 0 # drop (Suc k) buf"
    if "k \<le> ?m" "?m \<le> Suc k" "k < length buf" for k
    using that by (subst upd_conv_take_nth_drop) (auto simp: min_def)
  show ?thesis
  proof (cases "length out < n")
    case True
    then show ?thesis using p u[of "length out"] assms
      by (simp add: rt_vsnprintf_def store_def)
  next
    case False
    then show ?thesis using p u[of "n - 1"] assms
      by (simp add: rt_vsnprintf_def store_def)
  qed
qed


lemma kprintf_run:
  assumes "kformat fmt args = Some out" and "console_ok con"
  shows "\<exists>con'. rt_kprintf fmt args con = Some (min (length out) 255, con') \<and> console_ok con' \<and>
    printed con' = printed con @ (if length out \<le> 254 then out else take 254 out @ [0])"
proof -
  from vsnprintf_run[OF assms(1), of "RT_CONSOLEBUF_SIZE - 1" "rt_log_buf con" "log_addr con"] assms(2)
  have "rt_vsnprintf (log_addr con) (rt_log_buf con) 255 fmt args =
      Some (length out, take 254 out @ 0 # drop (Suc (min 254 (length out))) (rt_log_buf con))"
    by (simp add: RT_CONSOLEBUF_SIZE_def console_ok_def)
  then show ?thesis
    using assms(2) by (cases "length out = 255") (auto simp: rt_kprintf_def RT_CONSOLEBUF_SIZE_def console_ok_def Let_def)
qed

text \<open>
  C31. \<^verbatim>\<open>rt_kprintf\<close> writes a message of up to 254 characters to the console as it is; of a longer one
  it writes the first 254 followed by a zero byte, and reports 255.
\<close>

theorem kprintf_output:
  assumes "kformat fmt args = Some out" and "console_ok con"
  shows "\<exists>con'. rt_kprintf fmt args con = Some (min (length out) 255, con') \<and> console_ok con' \<and>
    printed con' = printed con @ (if length out \<le> 254 then out else take 254 out @ [0])"
  by (rule kprintf_run[OF assms])

definition cold_console :: console where
  "cold_console = \<lparr>log_addr = 0x20000000, rt_log_buf = replicate 256 0, printed = []\<rparr>"

theorem kprintf_output_witness:
  "\<exists>con'. rt_kprintf (bs ''%s'') [KStr (Some (replicate 300 65))] cold_console = Some (255, con') \<and>
    printed con' = replicate 254 65 @ [0]"
proof -
  have "kformat (bs ''%s'') [KStr (Some (replicate 300 65))] = Some (replicate 300 65)"
    by (simp add: bs_def conversion_def get_width_def get_precision_def get_qualifier_def ISDIGIT_def string_conv_def no_flags_def)
  from kprintf_output[OF this, of cold_console] show ?thesis
    by (auto simp: console_ok_def cold_console_def RT_CONSOLEBUF_SIZE_def)
qed


lemma small_digit: "d < 10 \<Longrightarrow> load small_digits d = Some (digit d)"
  by (auto simp: load_def small_digits_def bs_def digit_def less_Suc_eq eval_nat_numeral)

lemma dec_pos: "dec n \<noteq> []"
  by (subst dec.simps) simp

lemma digit_loop_dec:
  assumes "0 < n" and "length tmp + length (dec n) \<le> 32"
  shows "digit_loop small_digits 10 n tmp = Some (tmp @ rev (dec n))"
  using assms
proof (induction n arbitrary: tmp rule: less_induct)
  case (less n)
  have l: "length tmp < 32" using less.prems(2) dec_pos[of n] by (cases "dec n") auto
  have s: "digit_loop small_digits 10 n tmp = digit_loop small_digits 10 (n div 10) (tmp @ [digit (n mod 10)])"
    using less.prems(1) l by (subst digit_loop.simps) (simp add: small_digit)
  show ?case
  proof (cases "n < 10")
    case True
    then show ?thesis unfolding s by (simp add: digit_loop.simps[of _ _ 0] dec.simps[of n])
  next
    case False
    then have d: "dec n = dec (n div 10) @ [digit (n mod 10)]" by (simp add: dec.simps[of n])
    show ?thesis unfolding s using less.IH[of "n div 10" "tmp @ [digit (n mod 10)]"] False less.prems d by simp
  qed
qed

lemma dec_length_32: "length (dec (unat (n :: u32))) \<le> 10"
proof -
  have "unat n < 4294967296" by (rule order_less_le_trans[OF unsigned_less]) simp
  then have "unat n \<le> 4294967295" by simp
  from dec_length_mono[OF this] show ?thesis by (simp add: dec.simps)
qed

lemma sint_32: "sint (n :: u32) = (if uint n < 2 ^ 31 then uint n else uint n - 2 ^ 32)"
proof (cases "uint n < 2 ^ 31")
  case True
  then show ?thesis by (simp add: sint_uint signed_take_bit_eq_take_bit_shift take_bit_eq_mod)
next
  case False
  then have "(uint n + 2 ^ 31) mod 2 ^ 32 = (uint n - 2 ^ 31) mod 2 ^ 32"
    using minus_mod_self2[of "uint n + 2 ^ 31" "2 ^ 32"] by simp
  then show ?thesis
    using False uint_lt2p[of n] by (simp add: sint_uint signed_take_bit_eq_take_bit_shift take_bit_eq_mod)
qed

lemma loop_dec: "n \<noteq> 0 \<Longrightarrow> digit_loop small_digits 10 (unat (n :: u32)) [] = Some (rev (dec (unat n)))"
  using digit_loop_dec[of "unat n" "[]"] dec_length_32[of n] by (simp add: unat_gt_0)

lemma dec_0: "dec 0 = [48]"
  by (simp add: dec.simps digit_def)

lemma left_over_neg: "left_over n < 0"
  by (simp add: left_over_def)

lemma runs_neg [simp]: "n \<le> 0 \<Longrightarrow> runs n = 0"
  by (simp add: runs_def)

lemma runs_left_over [simp]: "runs (left_over n) = 0" "runs (left_over n - 1) = 0"
  using left_over_neg[of n] by (simp_all add: runs_def)

text \<open>What is printed for a number with at most a width and zero padding.\<close>

lemma number_digits: "(if n = 0 then Some [48] else digit_loop small_digits 10 (unat n) []) = Some (rev (dec (unat (n :: u32))))"
  using loop_dec[of n] by (simp add: dec_0)

lemmas print_unfold = print_number_def number_layout_def kflags.simps if_False if_True simp_thms Let_def prod.case number_digits

lemma print_decimal:
  assumes "f = no_flags \<or> f = no_flags\<lparr>ZEROPAD := True\<rparr>"
  shows "print_number n 10 0 w (- 1) f =
    Some (replicate (runs (w - int (length (dec (unat n))))) (if ZEROPAD f then 48 else 32) @ dec (unat n))"
  using assms by (elim disjE) (simp_all only: number_sign_def no_flags_def print_unfold, simp_all)

lemma print_signed:
  "print_number n 10 0 (- 1) (- 1) (no_flags\<lparr>SIGN := True\<rparr>) = Some (fmt_d (sint n))"
proof (cases "sint n < 0")
  case True
  then have u: "unat (- n) = nat (- sint n)"
    using uint_lt2p[of n] by (auto simp: sint_32 unat_eq_nat_uint uint_word_ariths zmod_zminus1_eq_if split: if_splits)
  have s: "number_sign n 0 (no_flags\<lparr>SIGN := True\<rparr>) = (45, - n)" using True by (simp add: number_sign_def no_flags_def)
  show ?thesis using s True unfolding no_flags_def
    by (simp only: print_unfold) (simp add: fmt_d_def u)
next
  case False
  then have "sint n = uint n" using uint_lt2p[of n] by (simp add: sint_32 split: if_splits)
  then have u: "unat n = nat (sint n)" by simp
  have s: "number_sign n 0 (no_flags\<lparr>SIGN := True\<rparr>) = (0, n)" using False by (simp add: number_sign_def no_flags_def)
  show ?thesis using s False unfolding no_flags_def
    by (simp only: print_unfold) (simp add: fmt_d_def u)
qed


lemma digit_loop_total:
  assumes "2 \<le> b" and "b \<le> length table" and "n < 2 ^ (32 - length tmp)" and "length tmp \<le> 32"
  shows "\<exists>r. digit_loop table b n tmp = Some r"
  using assms
proof (induction "32 - length tmp" arbitrary: n tmp)
  case 0
  then show ?case by (subst digit_loop.simps) simp
next
  case (Suc k)
  show ?case
  proof (cases "n = 0")
    case True
    then show ?thesis by (subst digit_loop.simps) simp
  next
    case False
    have "n mod b < length table" using Suc.prems(1,2) by (meson le_trans less_le_trans mod_less_divisor zero_less_numeral order_less_le_trans)
    then obtain d where d: "load table (n mod b) = Some d" by (simp add: load_def)
    have "n div b \<le> n div 2" using Suc.prems(1) by (intro div_le_mono2) auto
    also have "n div 2 < 2 ^ k" using Suc.prems(3) Suc.hyps(2) by (metis less_mult_imp_div_less power_Suc mult.commute)
    finally have l: "n div b < 2 ^ k" .
    have "31 - length tmp = k" using Suc.hyps(2) by simp
    then have "\<exists>r. digit_loop table b (n div b) (tmp @ [d]) = Some r"
      using Suc.hyps(2) Suc.prems l by (intro Suc.hyps(1)) auto
    moreover have "length tmp < 32" using Suc.hyps(2) by simp
    ultimately show ?thesis using d False by (subst digit_loop.simps) simp
  qed
qed

text \<open>The conversions the firmware uses, whatever follows them.\<close>

lemma conversion_d: "conversion (100 # r) (KNum n # args) = Some (fmt_d (sint n), r, args)"
  using print_signed[of n]
  by (simp add: conversion_def get_width_def get_precision_def get_qualifier_def ISDIGIT_def next_num_def read_num_def no_flags_def)

lemma conversion_u: "conversion (117 # r) (KNum n # args) = Some (dec (unat n), r, args)"
proof -
  have "runs (- 1 - int k) = 0" for k by (simp add: runs_def)
  then show ?thesis
    using print_decimal[of no_flags n "- 1"]
    by (simp add: conversion_def get_width_def get_precision_def get_qualifier_def ISDIGIT_def next_num_def read_num_def no_flags_def)
qed

lemma conversion_08u:
  "conversion (48 # 56 # 117 # r) (KNum n # args) = Some (replicate (8 - length (dec (unat n))) 48 @ dec (unat n), r, args)"
proof -
  have "runs (8 - int (length (dec (unat n)))) = 8 - length (dec (unat n))" by (simp add: runs_def)
  then show ?thesis
    using print_decimal[of "no_flags\<lparr>ZEROPAD := True\<rparr>" n 8]
    by (simp add: conversion_def get_width_def get_precision_def get_qualifier_def ISDIGIT_def next_num_def read_num_def no_flags_def)
qed

lemma conversion_s: "conversion (115 # r) (KStr (Some s) # args) = Some (s, r, args)"
  by (simp add: conversion_def get_width_def get_precision_def get_qualifier_def ISDIGIT_def string_conv_def no_flags_def)

lemmas conversions = conversion_d conversion_u conversion_08u conversion_s

text \<open>
  C28. Numbers are printed as they should be: \<^verbatim>\<open>%d\<close> gives the signed and \<^verbatim>\<open>%u\<close> the unsigned decimal
  numeral of every 32-bit argument, a width with a zero fills up with zeros, and the temporary array
  is large enough for every number in every base the conversions use.
\<close>

theorem console_numbers:
  "kformat (bs ''%d'') [KNum n] = Some (fmt_d (sint n)) \<and> kformat (bs ''%u'') [KNum n] = Some (dec (unat n)) \<and>
   kformat (bs ''%08u'') [KNum n] = Some (replicate (8 - length (dec (unat n))) 48 @ dec (unat n)) \<and>
   list_all (\<lambda>b. print_number n b q w p f \<noteq> None) [2, 8, 10, 16]"
proof -
  have "\<exists>r. digit_loop table b (unat m) [] = Some r" if "b \<in> {2, 8, 10, 16}" "table = small_digits \<or> table = large_digits"
    for b table and m :: u32
  proof (rule digit_loop_total)
    show "unat m < 2 ^ (32 - length [])" by (rule order_less_le_trans[OF unsigned_less]) simp
  qed (use that in \<open>auto simp: small_digits_def large_digits_def\<close>)
  then have "print_number n b q w p f \<noteq> None" if "b \<in> {2, 8, 10, 16}" for b
    using that by (auto simp: print_number_def Let_def case_prod_beta bind_eq_None_conv split: if_splits)
  then show ?thesis by (simp add: bs_def conversions)
qed

end
