(* ===== verification/Report.thy ===== *)
theory Report
  imports Gui Kstdio
begin

text \<open>
  The reports on the console: the command \<^verbatim>\<open>status\<close> (\<open>ele_ds_print_status\<close> of
  \<^verbatim>\<open>src/applications/ele_ds/ele_ds.c\<close>) and the command \<^verbatim>\<open>showcfg\<close> (\<open>ele_ds_cfg_print\<close> of
  \<^verbatim>\<open>src/applications/dfs/dfscfg.c\<close>), and the composition of the readings of the main loop with
  everything that formats them.
\<close>

section \<open>Commands\<close>

definition newline :: bytes where "newline = [10]"

definition ele_ds_print_status :: "desk option \<Rightarrow> console \<Rightarrow> console option" where
  "ele_ds_print_status g_ele_ds con = (case g_ele_ds of
      None \<Rightarrow> do { (_, con) \<leftarrow> rt_kprintf (bs ''ele_ds is NULL'' @ newline) [] con; Some con }
    | Some ds \<Rightarrow> do {
        str \<leftarrow> sprintf 64 (bs ''[GZP6816D]Pressure: %f, Temperature: %f'')
          [DblArg (pressure (gzp6816d (meas ds))), DblArg (temperature (gzp6816d (meas ds)))];
        (_, con) \<leftarrow> rt_kprintf (bs ''%s'' @ newline) [KStr (Some str)] con;
        str \<leftarrow> sprintf 64 (bs ''[SHT30]Temperature: %f, Humidity: %f'')
          [DblArg (fst (sht30 (meas ds))), DblArg (snd (sht30 (meas ds)))];
        (_, con) \<leftarrow> rt_kprintf (bs ''%s'' @ newline) [KStr (Some str)] con;
        str \<leftarrow> sprintf 64 (bs ''[BAT]Voltage: %f percent = %f%%'' @ newline)
          [DblArg (curvbat (meas ds)), DblArg (curvbat_percent (meas ds))];
        (_, con) \<leftarrow> rt_kprintf str [] con;
        Some con })"

definition weather_line :: "bytes \<Rightarrow> nat \<Rightarrow> console \<Rightarrow> console option" where
  "weather_line w i con = do {
     let o_i = i * sizeof_weather_info;
     text_s \<leftarrow> str_at w (o_i + off_textDay);
     (_, con) \<leftarrow> rt_kprintf (bs ''weather[%d]: %s'' @ [9]) [KNum (of_nat i), KStr (Some text_s)] con;
     tmax \<leftarrow> load w (o_i + off_tempMax);
     tmin \<leftarrow> load w (o_i + off_tempMin);
     (_, con) \<leftarrow> rt_kprintf (bs ''tempMax: %d tempMin: %d'' @ newline) [KNum (scast tmax), KNum (scast tmin)] con;
     Some con }"

text \<open>A sequence of calls of \<^verbatim>\<open>rt_kprintf\<close>.\<close>

definition kprintfs :: "(bytes \<times> karg list) list \<Rightarrow> console \<Rightarrow> console option" where
  "kprintfs = for_each (\<lambda>(fmt, args) con. map_option snd (rt_kprintf fmt args con))"

definition cfg_messages :: "ele_ds_cfg_t \<Rightarrow> (bytes \<times> karg list) list" where
  "cfg_messages cfg =
     [(bs ''config file info:'' @ newline, []),
      (bs ''version: %08u'' @ newline, [KNum (version (clientcfg cfg))]),
      (bs ''cityid: %d'' @ newline, [KNum (cityid (clientcfg cfg))]),
      (bs ''wifi_ssid: %s'' @ newline, [KStr (Some (wifi_ssid cfg))]),
      (bs ''wifi_passwd: %s'' @ newline, [KStr (Some (wifi_passwd cfg))]),
      (bs ''server_addr: %s'' @ newline, [KStr (Some (server_addr cfg))]),
      (bs ''server_port: %d'' @ newline, [KNum (ucast (server_port cfg))]),
      (bs ''weather info:'' @ newline, [])]"

definition ele_ds_cfg_print :: "ele_ds_cfg_t \<Rightarrow> console \<Rightarrow> console option" where
  "ele_ds_cfg_print cfg con = do {
     con \<leftarrow> kprintfs (cfg_messages cfg) con;
     for_each (weather_line (weather_info cfg)) [0..<7] con }"

definition ele_ds_cfg_print_cmd :: "string list \<Rightarrow> desk option \<Rightarrow> console \<Rightarrow> console option" where
  "ele_ds_cfg_print_cmd argv g_ele_ds con = do { ds \<leftarrow> g_ele_ds; ele_ds_cfg_print (device_cfg ds) con }"

section \<open>What the readings can be\<close>

lemma pressure_bounded: "0 \<le> CALC_PRESSURE w" "CALC_PRESSURE w \<le> 26000"
proof -
  define n where "n = unat (w - of_int DMIN)"
  have "n < 4294967296" unfolding n_def by (rule order_less_le_trans[OF unsigned_less]) simp
  then have "(of_nat n :: rat) < of_nat 4294967296" by (simp only: of_nat_less_iff)
  then show "0 \<le> CALC_PRESSURE w" "CALC_PRESSURE w \<le> 26000"
    unfolding CALC_PRESSURE_def n_def[symmetric] by (simp_all add: PMAX_def PMIN_def DMAX_def DMIN_def OFFSET_PRESSURE_def)
qed

lemma get_gzp_readings:
  assumes "i2cdev (baro_dev e)"
  shows "\<exists>r d. get_gzp6816d_data e data = Some (r, d) \<and>
    (d = data \<or> 0 \<le> pressure d \<and> pressure d \<le> 26000 \<and> - 40 \<le> temperature d \<and> temperature d < 150)"
proof -
  from read_bytes_six[of "replicate 6 0" "baro_bus e" "baro_dev e"] obtain r buf where
    rb: "read_bytes (baro_bus e) (baro_dev e) (replicate 6 0) 6 = Some (r, buf)" "length buf = 6" by auto
  have c: "\<exists>d. cal_rawdata x = Some d \<and> 0 \<le> pressure d \<and> pressure d \<le> 26000 \<and> - 40 \<le> temperature d \<and> temperature d < 150"
    if "length x = 6" for x
    using cal_rawdata_eq[OF that] pressure_bounded temperature_in_range by auto
  have "load buf 0 = Some (buf ! 0)" using rb(2) by (simp add: load_def)
  then show ?thesis
    using assms rb c[of buf] c[of "replicate 6 0"]
    by (auto simp: get_gzp6816d_data_def gzp6816d_fetch_data_def gzp6816d_readsls_def RT_EOK_def RT_ERROR_def RT_EBUSY_def sizeof_data_def)
qed


text \<open>The humidity sensor within the ranges of its data sheet.\<close>

definition sht_in_range :: "surroundings \<Rightarrow> bool" where
  "sht_in_range e \<longleftrightarrow>
     - 45 \<le> sht_temperature (snd (sht3x_answer e)) \<and> sht_temperature (snd (sht3x_answer e)) \<le> 130 \<and>
     0 \<le> sht_humidity (snd (sht3x_answer e)) \<and> sht_humidity (snd (sht3x_answer e)) \<le> 100"

lemma truncate_bounds:
  "- of_int a \<le> (r :: rat) \<Longrightarrow> r \<le> of_int b \<Longrightarrow> 0 \<le> a \<Longrightarrow> 0 \<le> b \<Longrightarrow> - a \<le> float_to_int r \<and> float_to_int r \<le> b"
  by (auto simp: float_to_int_def le_floor_iff floor_le_iff ceiling_le_iff le_ceiling_iff)

lemma get_all_readings:
  assumes "desk_ok ds" and "readings_ok ds" and "i2cdev (baro_dev e)" and "sht_in_range e"
  shows "\<exists>ds'. get_all_sensor_data e ds = Some (RT_EOK, ds') \<and> readings_ok ds'"
proof -
  from get_gzp_readings[OF assms(3), of "gzp6816d (meas ds)"] obtain r d where
    g: "get_gzp6816d_data e (gzp6816d (meas ds)) = Some (r, d)"
       "d = gzp6816d (meas ds) \<or> 0 \<le> pressure d \<and> pressure d \<le> 26000 \<and> - 40 \<le> temperature d \<and> temperature d < 150" by blast
  obtain q dev where s: "sht3x_answer e = (q, dev)" by fastforce
  from assms(1) obtain dev0 where "sht3x_dev ds = Some dev0" "desk_init ds" by (auto simp: desk_ok_def)
  moreover have "- 45 \<le> (of_int (float_to_int (sht_temperature dev)) :: rat) \<and> (of_int (float_to_int (sht_temperature dev)) :: rat) \<le> 130"
    using truncate_bounds[of 45 "sht_temperature dev" 130] assms(4) s by (simp add: sht_in_range_def)
  moreover have "0 \<le> (of_int (float_to_int (sht_humidity dev)) :: rat) \<and> (of_int (float_to_int (sht_humidity dev)) :: rat) \<le> 100"
    using truncate_bounds[of 0 "sht_humidity dev" 100] assms(4) s by (simp add: sht_in_range_def)
  ultimately show ?thesis
    using assms(2) g s by (auto simp: get_all_sensor_data_def get_sht30_data_def readings_ok_def Let_def)
qed

lemma main_round_readings:
  assumes "desk_ok ds" and "readings_ok ds" and "i2cdev (baro_dev e)" and "adc_value e BAT_ADC_CH < ADC_CONVERT_MAXVAL" and "sht_in_range e"
  shows "\<exists>ds' s'. main_round e (n, ds, s) = Some (n + 1, ds', s') \<and> desk_ok ds' \<and> readings_ok ds'"
proof -
  from get_all_readings[OF assms(1-3,5)] get_all_ok[OF assms(1,3)] obtain ds1 where
    g: "get_all_sensor_data e ds = Some (RT_EOK, ds1)" "desk_ok ds1" "readings_ok ds1" by auto
  obtain q ds2 where c: "ele_ds_get_curvbat e ds1 = (q, ds2)" by fastforce
  with curvbat_ok[OF g(2) assms(4)] have "desk_ok ds2" by simp
  moreover have "readings_ok ds2" using c g(3) by (auto simp: ele_ds_get_curvbat_def readings_ok_def Let_def split: if_splits)
  ultimately show ?thesis using g c by (simp add: main_round_def rt_pin_write_def)
qed

lemma main_rounds_readings:
  assumes "desk_ok ds" and "readings_ok ds"
    and "list_all (\<lambda>e. i2cdev (baro_dev e) \<and> adc_value e BAT_ADC_CH < ADC_CONVERT_MAXVAL \<and> sht_in_range e) es"
  shows "\<exists>ds' s'. main_rounds es (n, ds, s) = Some (n + of_nat (length es), ds', s') \<and> desk_ok ds' \<and> readings_ok ds'"
  using assms
proof (induction es arbitrary: n ds s)
  case (Cons e es)
  from Cons.prems main_round_readings[of ds e n s] obtain ds1 s1 where
    r: "main_round e (n, ds, s) = Some (n + 1, ds1, s1)" "desk_ok ds1" "readings_ok ds1" by auto
  with Cons.IH[of ds1 "n + 1" s1] Cons.prems obtain ds' s' where
    "main_rounds es (n + 1, ds1, s1) = Some (n + 1 + of_nat (length es), ds', s')" "desk_ok ds'" "readings_ok ds'" by auto
  then show ?case using r by (auto simp: main_rounds_def algebra_simps)
qed (simp add: main_rounds_def)

section \<open>What is printed\<close>

definition status_lines :: "desk \<Rightarrow> bytes list" where
  "status_lines ds =
     [bs ''[GZP6816D]Pressure: '' @ fmt_f 6 (pressure (gzp6816d (meas ds))) @ bs '', Temperature: '' @ fmt_f 6 (temperature (gzp6816d (meas ds))),
      bs ''[SHT30]Temperature: '' @ fmt_f 6 (fst (sht30 (meas ds))) @ bs '', Humidity: '' @ fmt_f 6 (snd (sht30 (meas ds))),
      bs ''[BAT]Voltage: '' @ fmt_f 6 (curvbat (meas ds)) @ bs '' percent = '' @ fmt_f 6 (curvbat_percent (meas ds)) @ [37]]"

lemma vformat_status:
  "vformat (bs ''[GZP6816D]Pressure: %f, Temperature: %f'') [DblArg a, DblArg b] =
     Some (bs ''[GZP6816D]Pressure: '' @ fmt_f 6 a @ bs '', Temperature: '' @ fmt_f 6 b)"
  "vformat (bs ''[SHT30]Temperature: %f, Humidity: %f'') [DblArg a, DblArg b] =
     Some (bs ''[SHT30]Temperature: '' @ fmt_f 6 a @ bs '', Humidity: '' @ fmt_f 6 b)"
  "vformat (bs ''[BAT]Voltage: %f percent = %f%%'' @ newline) [DblArg a, DblArg b] =
     Some (bs ''[BAT]Voltage: '' @ fmt_f 6 a @ bs '' percent = '' @ fmt_f 6 b @ [37, 10])"
  by (simp_all add: bs_def newline_def take_prec_def convert_def)

lemma kformat_plain: "37 \<notin> set s \<Longrightarrow> kformat (s @ r) args = map_option ((@) s) (kformat r args)"
  by (cases "kformat r args"; induction s; auto)

lemma kformat_line: "kformat (bs ''%s'' @ newline) [KStr (Some s)] = Some (s @ [10])"
  by (simp add: bs_def newline_def conversion_def get_width_def get_precision_def get_qualifier_def ISDIGIT_def string_conv_def no_flags_def)

lemma digit_not_percent: "d < 10 \<Longrightarrow> digit d \<noteq> 37"
proof
  assume "d < 10" "digit d = 37"
  then have "unat (of_nat (48 + d) :: u8) = unat (37 :: u8)" by (simp only: digit_def)
  then show False using \<open>d < 10\<close> by (simp only: unat_of_nat) simp
qed

lemma dec_no_percent: "37 \<notin> set (dec n)"
proof (induction n rule: dec.induct)
  case (1 n)
  then show ?case using digit_not_percent[of n] digit_not_percent[of "n mod 10"] by (subst dec.simps) auto
qed

lemma digits_no_percent: "37 \<notin> set (digits k n)"
proof (induction k n rule: digits.induct)
  case (2 k n)
  then show ?case using digit_not_percent[of "n mod 10"] by auto
qed simp

lemma fmt_f_no_percent: "37 \<notin> set (fmt_f p r)"
  using dec_no_percent digits_no_percent by (simp add: fmt_f_def Let_def)

lemma kformat_battery:
  "kformat (bs ''[BAT]Voltage: '' @ fmt_f 6 a @ bs '' percent = '' @ fmt_f 6 b @ [37, 10]) [] =
     Some (bs ''[BAT]Voltage: '' @ fmt_f 6 a @ bs '' percent = '' @ fmt_f 6 b @ [37, 10])"
proof -
  have "37 \<notin> set (bs ''[BAT]Voltage: '' @ fmt_f 6 a @ bs '' percent = '' @ fmt_f 6 b)"
    using fmt_f_no_percent by (simp add: bs_def)
  from kformat_plain[OF this, of "[37, 10]" "[]"] show ?thesis
    by (simp add: conversion_def get_width_def get_precision_def get_qualifier_def ISDIGIT_def)
qed


lemma status_line_lengths:
  assumes "desk_ok ds" and "readings_ok ds"
  shows "list_all (\<lambda>l. length l < 63) (status_lines ds)"
proof -
  have p: "length (fmt_f 6 (pressure (gzp6816d (meas ds)))) \<le> 12"
    using fmt_f_length[of "pressure (gzp6816d (meas ds))" 26000 6] assms(2) by (simp add: readings_ok_def)
  have t: "length (fmt_f 6 (temperature (gzp6816d (meas ds)))) \<le> 10"
    using fmt_f_range[of 40 "temperature (gzp6816d (meas ds))" 150 6] assms(2) by (simp add: readings_ok_def)
  have s: "length (fmt_f 6 (fst (sht30 (meas ds)))) \<le> 10" "length (fmt_f 6 (snd (sht30 (meas ds)))) \<le> 10"
    using fmt_f_range[of 45 "fst (sht30 (meas ds))" 130 6] fmt_f_length[of "snd (sht30 (meas ds))" 100 6] assms(2)
    by (simp_all add: readings_ok_def)
  have v: "0 \<le> curvbat (meas ds)" "curvbat (meas ds) \<le> 7" "0 \<le> curvbat_percent (meas ds)" "curvbat_percent (meas ds) \<le> 200"
    using assms(1) by (auto simp: desk_ok_def ADC_REFVAL_def MAX_VBAT_def field_simps)
  have d: "length (dec 7) = 1" "length (dec 200) = 3" by (simp_all add: dec.simps)
  have b: "length (fmt_f 6 (curvbat (meas ds))) \<le> 8" "length (fmt_f 6 (curvbat_percent (meas ds))) \<le> 10"
    using fmt_f_length[of "curvbat (meas ds)" 7 6] fmt_f_length[of "curvbat_percent (meas ds)" 200 6] v d by simp_all
  show ?thesis using p t s b by (simp add: status_lines_def)
qed

lemma status_run:
  assumes "desk_ok ds" and "readings_ok ds" and "console_ok con"
  shows "\<exists>con'. ele_ds_print_status (Some ds) con = Some con' \<and> console_ok con' \<and>
    printed con' = printed con @ concat (map (\<lambda>l. l @ newline) (status_lines ds))"
proof -
  obtain l1 l2 l3 where l: "status_lines ds = [l1, l2, l3]" by (simp add: status_lines_def)
  with status_line_lengths[OF assms(1,2)] have n: "length l1 < 63" "length l2 < 63" "length l3 < 63" by simp_all
  have s: "sprintf 64 (bs ''[GZP6816D]Pressure: %f, Temperature: %f'')
      [DblArg (pressure (gzp6816d (meas ds))), DblArg (temperature (gzp6816d (meas ds)))] = Some l1"
    "sprintf 64 (bs ''[SHT30]Temperature: %f, Humidity: %f'') [DblArg (fst (sht30 (meas ds))), DblArg (snd (sht30 (meas ds)))] = Some l2"
    "sprintf 64 (bs ''[BAT]Voltage: %f percent = %f%%'' @ newline) [DblArg (curvbat (meas ds)), DblArg (curvbat_percent (meas ds))] =
      Some (l3 @ newline)"
    using l n by (auto simp: sprintf_def vformat_status[unfolded newline_def] status_lines_def newline_def)
  have k: "kformat (l3 @ newline) [] = Some (l3 @ newline)"
    using l kformat_battery[of "curvbat (meas ds)" "curvbat_percent (meas ds)"] by (auto simp: status_lines_def newline_def)
  from kprintf_run[OF kformat_line assms(3), of l1] n obtain c1 where
    c1: "rt_kprintf (bs ''%s'' @ newline) [KStr (Some l1)] con = Some (Suc (length l1), c1)" "console_ok c1" "printed c1 = printed con @ l1 @ newline"
    by (auto simp: newline_def)
  from kprintf_run[OF kformat_line c1(2), of l2] n obtain c2 where
    c2: "rt_kprintf (bs ''%s'' @ newline) [KStr (Some l2)] c1 = Some (Suc (length l2), c2)" "console_ok c2" "printed c2 = printed c1 @ l2 @ newline"
    by (auto simp: newline_def)
  from kprintf_run[OF k c2(2)] n obtain c3 where
    c3: "rt_kprintf (l3 @ newline) [] c2 = Some (Suc (length l3), c3)" "console_ok c3" "printed c3 = printed c2 @ l3 @ newline"
    by (auto simp: newline_def)
  show ?thesis
    using s c1 c2 c3 l by (simp add: ele_ds_print_status_def)
qed




section \<open>The configuration on the console\<close>

definition day_line :: "nat \<Rightarrow> bytes \<Rightarrow> u8 \<Rightarrow> u8 \<Rightarrow> bytes" where
  "day_line i text_s tmax tmin = bs ''weather['' @ dec i @ bs '']: '' @ text_s @ [9] @
     bs ''tempMax: '' @ fmt_d (sint tmax) @ bs '' tempMin: '' @ fmt_d (sint tmin) @ newline"

definition cfg_lines :: "ele_ds_cfg_t \<Rightarrow> bytes list" where
  "cfg_lines cfg =
     [bs ''config file info:'',
      bs ''version: '' @ replicate (8 - length (dec (unat (version (clientcfg cfg))))) 48 @ dec (unat (version (clientcfg cfg))),
      bs ''cityid: '' @ fmt_d (sint (cityid (clientcfg cfg))), bs ''wifi_ssid: '' @ wifi_ssid cfg,
      bs ''wifi_passwd: '' @ wifi_passwd cfg, bs ''server_addr: '' @ server_addr cfg,
      bs ''server_port: '' @ dec (unat (server_port cfg)), bs ''weather info:'']"

text \<open>One message that fits.\<close>

lemma kprint_short:
  assumes "kformat fmt args = Some out" and "length out \<le> 254" and "console_ok con"
  obtains len con' where "rt_kprintf fmt args con = Some (len, con')" "console_ok con'" "printed con' = printed con @ out"
  using kprintf_run[OF assms(1,3)] assms(2) by auto

lemma fmt_d_short: "length (fmt_d (sint (n :: u32))) \<le> 11" "length (fmt_d (sint (b :: u8))) \<le> 4"
proof -
  have "\<bar>sint n\<bar> \<le> int 2147483648" using sint_lt[of n] sint_ge[of n] by simp
  moreover have "length (dec 2147483648) = 10" by (simp add: dec.simps)
  ultimately show "length (fmt_d (sint n)) \<le> 11" using fmt_d_length[of "sint n" 2147483648] by (simp split: if_splits)
  have "\<bar>sint b\<bar> \<le> int 128" using sint_lt[of b] sint_ge[of b] by simp
  from fmt_d_length[OF this] show "length (fmt_d (sint b)) \<le> 4" by (simp split: if_splits)
qed

lemma weather_line_run:
  assumes "str_at w (i * sizeof_weather_info + off_textDay) = Some text_s" and "length text_s \<le> 200"
    and "i < 7" and "length w = sizeof_weather_infos" and "console_ok con"
  shows "\<exists>con'. weather_line w i con = Some con' \<and> console_ok con' \<and> printed con' = printed con @
    day_line i text_s (w ! (i * sizeof_weather_info + off_tempMax)) (w ! (i * sizeof_weather_info + off_tempMin))"
proof -
  let ?a = "w ! (i * sizeof_weather_info + off_tempMax)" and ?b = "w ! (i * sizeof_weather_info + off_tempMin)"
  have l: "load w (i * sizeof_weather_info + off_tempMax) = Some ?a" "load w (i * sizeof_weather_info + off_tempMin) = Some ?b"
    using assms(3,4) by (auto simp: load_def weather_offsets sizeof_weather_infos_def)
  have "sint (of_nat i :: u32) = int i" using assms(3) by (simp add: sint_32 uint_nat unat_of_nat)
  then have d: "fmt_d (sint (of_nat i :: u32)) = dec i" "length (dec i) = 1"
    using assms(3) by (simp_all add: fmt_d_def dec.simps[of i])
  have k1: "kformat (bs ''weather[%d]: %s'' @ [9]) [KNum (of_nat i), KStr (Some text_s)] = Some (bs ''weather['' @ dec i @ bs '']: '' @ text_s @ [9])"
    by (simp add: bs_def conversions d)
  have k2: "kformat (bs ''tempMax: %d tempMin: %d'' @ newline) [KNum (scast ?a), KNum (scast ?b)] =
      Some (bs ''tempMax: '' @ fmt_d (sint ?a) @ bs '' tempMin: '' @ fmt_d (sint ?b) @ newline)"
    by (simp add: bs_def newline_def conversions sint_up_scast is_up)
  obtain n1 c1 where c1: "rt_kprintf (bs ''weather[%d]: %s'' @ [9]) [KNum (of_nat i), KStr (Some text_s)] con = Some (n1, c1)" "console_ok c1"
    "printed c1 = printed con @ bs ''weather['' @ dec i @ bs '']: '' @ text_s @ [9]"
    by (rule kprint_short[OF k1 _ assms(5)]) (use assms(2) d in simp)
  obtain n2 c2 where "rt_kprintf (bs ''tempMax: %d tempMin: %d'' @ newline) [KNum (scast ?a), KNum (scast ?b)] c1 = Some (n2, c2)"
    "console_ok c2" "printed c2 = printed c1 @ bs ''tempMax: '' @ fmt_d (sint ?a) @ bs '' tempMin: '' @ fmt_d (sint ?b) @ newline"
    by (rule kprint_short[OF k2 _ c1(2)]) (use fmt_d_short(2)[of ?a] fmt_d_short(2)[of ?b] in \<open>simp add: newline_def\<close>)
  then show ?thesis using assms(1) l c1 by (simp add: weather_line_def day_line_def)
qed


lemma kprintfs_run:
  assumes "list_all2 (\<lambda>(fmt, args) out. kformat fmt args = Some out \<and> length out \<le> 254) ms outs" and "console_ok con"
  shows "\<exists>con'. kprintfs ms con = Some con' \<and> console_ok con' \<and> printed con' = printed con @ concat outs"
  using assms
proof (induction ms arbitrary: outs con)
  case (Cons m ms)
  obtain fmt args where m: "m = (fmt, args)" by fastforce
  from Cons.prems(1) m obtain out outs' where o: "outs = out # outs'" "kformat fmt args = Some out" "length out \<le> 254"
    "list_all2 (\<lambda>(fmt, args) out. kformat fmt args = Some out \<and> length out \<le> 254) ms outs'" by (auto simp: list_all2_Cons1)
  obtain n c where c: "rt_kprintf fmt args con = Some (n, c)" "console_ok c" "printed c = printed con @ out"
    by (rule kprint_short[OF o(2,3) Cons.prems(2)])
  from Cons.IH[OF o(4) c(2)] c o(1) m show ?case by (auto simp: kprintfs_def)
qed (simp add: kprintfs_def)

lemma weather_lines_run:
  assumes "list_all (\<lambda>i. \<exists>t. str_at w (i * sizeof_weather_info + off_textDay) = Some t \<and> length t \<le> 200 \<and> i < 7) is"
    and "length w = sizeof_weather_infos" and "console_ok con"
  shows "\<exists>con' outs. for_each (weather_line w) is con = Some con' \<and> console_ok con' \<and> printed con' = printed con @ concat outs \<and>
    list_all2 (\<lambda>i out. \<exists>t. str_at w (i * sizeof_weather_info + off_textDay) = Some t \<and>
      out = day_line i t (w ! (i * sizeof_weather_info + off_tempMax)) (w ! (i * sizeof_weather_info + off_tempMin))) is outs"
  using assms
proof (induction "is" arbitrary: con)
  case (Cons i js)
  then obtain t where t: "str_at w (i * sizeof_weather_info + off_textDay) = Some t" "length t \<le> 200" "i < 7" by auto
  from weather_line_run[OF t assms(2) Cons.prems(3)] obtain c where
    c: "weather_line w i con = Some c" "console_ok c" "printed c = printed con @
      day_line i t (w ! (i * sizeof_weather_info + off_tempMax)) (w ! (i * sizeof_weather_info + off_tempMin))" by blast
  from Cons.IH[OF _ assms(2) c(2)] Cons.prems(1) obtain c' outs where
    r: "for_each (weather_line w) js c = Some c'" "console_ok c'" "printed c' = printed c @ concat outs"
    "list_all2 (\<lambda>i out. \<exists>t. str_at w (i * sizeof_weather_info + off_textDay) = Some t \<and>
      out = day_line i t (w ! (i * sizeof_weather_info + off_tempMax)) (w ! (i * sizeof_weather_info + off_tempMin))) js outs" by auto
  show ?case
    using t c r by (intro exI[of _ c'] exI[of _ "day_line i t (w ! (i * sizeof_weather_info + off_tempMax))
      (w ! (i * sizeof_weather_info + off_tempMin)) # outs"]) auto
qed simp

text \<open>
  The command \<^verbatim>\<open>showcfg\<close> prints the whole configuration, passwords included: eight lines for the
  settings, each in full as long as the strings have at most two hundred characters, then a line for
  each of the seven days of the forecast.
\<close>

theorem showcfg_output:
  assumes "length (wifi_ssid cfg) \<le> 200" and "length (wifi_passwd cfg) \<le> 200" and "length (server_addr cfg) \<le> 200"
    and "length (weather_info cfg) = sizeof_weather_infos" and "console_ok con"
    and "list_all (\<lambda>i. \<exists>t. str_at (weather_info cfg) (i * sizeof_weather_info + off_textDay) = Some t \<and> length t \<le> 200) [0..<7]"
  shows "\<exists>con' outs. ele_ds_cfg_print cfg con = Some con' \<and>
    printed con' = printed con @ concat (map (\<lambda>l. l @ newline) (cfg_lines cfg)) @ concat outs \<and>
    list_all2 (\<lambda>i out. \<exists>t. str_at (weather_info cfg) (i * sizeof_weather_info + off_textDay) = Some t \<and>
      out = day_line i t (weather_info cfg ! (i * sizeof_weather_info + off_tempMax))
        (weather_info cfg ! (i * sizeof_weather_info + off_tempMin))) [0..<7] outs"
proof -
  have p: "fmt_d (sint (ucast (server_port cfg) :: u32)) = dec (unat (server_port cfg))"
  proof -
    have "sint (ucast (server_port cfg) :: u32) = uint (server_port cfg)"
      using uint_lt2p[of "server_port cfg"] by (simp add: sint_32 uint_up_ucast is_up)
    then show ?thesis by (simp add: fmt_d_def)
  qed
  have "unat (server_port cfg) < 65536" by (rule order_less_le_trans[OF unsigned_less]) simp
  then have "length (dec (unat (server_port cfg))) \<le> length (dec 65535)" by (intro dec_length_mono) simp
  moreover have "length (dec 65535) = 5" by (simp add: dec.simps)
  ultimately have "list_all2 (\<lambda>(fmt, args) out. kformat fmt args = Some out \<and> length out \<le> 254) (cfg_messages cfg) (map (\<lambda>l. l @ newline) (cfg_lines cfg))"
    using assms(1-3) dec_length_32[of "version (clientcfg cfg)"] fmt_d_short(1)[of "cityid (clientcfg cfg)"] p
    by (simp add: cfg_messages_def cfg_lines_def bs_def newline_def conversions)
  from kprintfs_run[OF this assms(5)] obtain c where c: "kprintfs (cfg_messages cfg) con = Some c" "console_ok c"
    "printed c = printed con @ concat (map (\<lambda>l. l @ newline) (cfg_lines cfg))" by blast
  from weather_lines_run[OF _ assms(4) c(2), of "[0..<7]"] assms(6) c show ?thesis
    by (auto simp: ele_ds_cfg_print_def list_all_iff)
qed

theorem showcfg_output_witness:
  "\<exists>con' outs. ele_ds_cfg_print zero_cfg cold_console = Some con' \<and>
    printed con' = concat (map (\<lambda>l. l @ newline) (cfg_lines zero_cfg)) @ concat outs \<and> length outs = 7"
proof -
  have z: "str_at (weather_info zero_cfg) (i * sizeof_weather_info + off_textDay) = Some []" if "i < 7" for i
  proof -
    have "0 < sizeof_weather_infos - (i * sizeof_weather_info + off_textDay)"
      using that by (simp add: weather_offsets sizeof_weather_infos_def)
    then show ?thesis by (simp add: str_at_def c_str_def zero_cfg_def Let_def)
  qed
  have "list_all (\<lambda>i. \<exists>t. str_at (weather_info zero_cfg) (i * sizeof_weather_info + off_textDay) = Some t \<and> length t \<le> 200) [0..<7]"
    using z by (auto simp: list_all_iff)
  with showcfg_output[of zero_cfg cold_console] obtain con' outs where
    "ele_ds_cfg_print zero_cfg cold_console = Some con'"
    "printed con' = printed cold_console @ concat (map (\<lambda>l. l @ newline) (cfg_lines zero_cfg)) @ concat outs" "length outs = 7"
    by (auto simp: zero_cfg_def console_ok_def cold_console_def RT_CONSOLEBUF_SIZE_def dest!: list_all2_lengthD)
  then show ?thesis by (auto simp: cold_console_def)
qed

end
