(* ===== verification/Button.thy ===== *)
theory Button
  imports Sleep
begin

text \<open>
  The buttons of \<^verbatim>\<open>src/applications/btn/btn.c\<close>: the pins the scanner reads, the classification of its
  event codes and the beeper that follows them. The scanner itself is a package outside the sources;
  it calls the first of these functions and delivers the event codes to the last. \<open>None\<close> as a pin level
  stands for a pin that is not driven, which the pull-up resistor keeps high.
\<close>

section \<open>Codes\<close>

datatype btn_state = MFBD_BTN_STATE_UP | MFBD_BTN_STATE_DOWN

definition test_nbtn :: nat where "test_nbtn = 0x1300"
definition test_nbtn1 :: nat where "test_nbtn1 = 0x1400"
definition test_nbtn2 :: nat where "test_nbtn2 = 0x1500"

definition up_code :: "nat \<Rightarrow> nat" where "up_code b = b"
definition down_code :: "nat \<Rightarrow> nat" where "down_code b = b + 1"
definition long_code :: "nat \<Rightarrow> nat" where "long_code b = b + 2"

lemmas btn_codes = test_nbtn_def test_nbtn1_def test_nbtn2_def up_code_def down_code_def long_code_def

section \<open>Operations\<close>

definition rt_pin_read :: "pin \<Rightarrow> system \<Rightarrow> nat" where
  "rt_pin_read p s = (if pin_level s p = Some False then 0 else 1)"

definition bsp_btn_check :: "nat \<Rightarrow> system \<Rightarrow> btn_state" where
  "bsp_btn_check btn_index s =
     (if btn_index = 1 \<and> rt_pin_read LEFT_KEY s = 0 then MFBD_BTN_STATE_DOWN
      else if btn_index = 2 \<and> rt_pin_read MID_KEY s = 0 then MFBD_BTN_STATE_DOWN
      else if btn_index = 3 \<and> rt_pin_read RIGHT_KEY s = 0 then MFBD_BTN_STATE_DOWN
      else MFBD_BTN_STATE_UP)"

definition btn_click_islong :: "nat \<Rightarrow> bool" where
  "btn_click_islong v \<longleftrightarrow> v = long_code test_nbtn \<or> v = long_code test_nbtn1 \<or> v = long_code test_nbtn2"

definition btn_click_isup :: "nat \<Rightarrow> bool" where
  "btn_click_isup v \<longleftrightarrow> v = up_code test_nbtn \<or> v = up_code test_nbtn1 \<or> v = up_code test_nbtn2"

record btn_beeper =
  pre_value :: nat
  beeped :: nat

definition btn_curclick_ctrbeep :: "nat \<Rightarrow> btn_beeper \<Rightarrow> btn_beeper" where
  "btn_curclick_ctrbeep v b =
     (if btn_click_isup v \<or> btn_click_islong v then
        if pre_value b \<noteq> v then
          (if btn_click_islong (pre_value b) then b else b\<lparr>beeped := beeped b + 1\<rparr>)\<lparr>pre_value := v\<rparr>
        else b\<lparr>beeped := beeped b + 1\<rparr>
      else b)"

definition user_button_init :: "system \<Rightarrow> system" where
  "user_button_init s = rt_pin_mode RIGHT_KEY PIN_MODE_INPUT_PULLUP
     (rt_pin_mode MID_KEY PIN_MODE_INPUT_PULLUP (rt_pin_mode LEFT_KEY PIN_MODE_INPUT_PULLUP s))"

section \<open>Properties\<close>

text \<open>A sequence of events of the scanner.\<close>

definition beep_events :: "nat list \<Rightarrow> btn_beeper \<Rightarrow> btn_beeper" where
  "beep_events = fold btn_curclick_ctrbeep"

definition click :: "nat \<Rightarrow> nat list" where "click b = [down_code b, up_code b]"
definition long_press :: "nat \<Rightarrow> nat list" where "long_press b = [down_code b, long_code b, up_code b]"

definition beeper_ready :: "btn_beeper \<Rightarrow> bool" where
  "beeper_ready b \<longleftrightarrow> \<not> btn_click_islong (pre_value b)"

lemma gesture_beeps_once:
  assumes "btn \<in> {test_nbtn, test_nbtn1, test_nbtn2}" and "beeper_ready b"
  shows "beep_events (click btn) b = \<lparr>pre_value = up_code btn, beeped = beeped b + 1\<rparr>"
    and "beep_events (long_press btn) b = \<lparr>pre_value = up_code btn, beeped = beeped b + 1\<rparr>"
  using assms
  by (auto simp: beep_events_def click_def long_press_def btn_curclick_ctrbeep_def btn_click_isup_def btn_click_islong_def
    beeper_ready_def btn_codes split: if_splits)

text \<open>
  Every click and every long press of the three buttons, in any order, gives exactly one beep.
\<close>

theorem gestures_beep:
  assumes "list_all (\<lambda>g. \<exists>btn \<in> {test_nbtn, test_nbtn1, test_nbtn2}. g = click btn \<or> g = long_press btn) gs"
    and "beeper_ready b"
  shows "beeped (beep_events (concat gs) b) = beeped b + length gs \<and> beeper_ready (beep_events (concat gs) b)"
  using assms
proof (induction gs arbitrary: b)
  case (Cons g gs)
  then obtain btn where btn: "btn \<in> {test_nbtn, test_nbtn1, test_nbtn2}" "g = click btn \<or> g = long_press btn" by auto
  then have g: "beep_events g b = \<lparr>pre_value = up_code btn, beeped = beeped b + 1\<rparr>"
    using gesture_beeps_once[OF btn(1) Cons.prems(2)] by auto
  then have "beeper_ready (beep_events g b)" using btn(1) by (auto simp: beeper_ready_def btn_click_islong_def btn_codes)
  with Cons.IH[OF _ this] Cons.prems(1) g show ?case by (simp add: beep_events_def)
qed (simp add: beep_events_def)

end
