(* ===== verification/Spec2Isabelle.thy ===== *)
theory Spec2Isabelle
  imports Client Display Report Button
begin

text \<open>
  The firmware of the electronic desk display \<^verbatim>\<open>ele_ds\<close>, an STM32F4 with RT-Thread: its own code under
  \<^verbatim>\<open>src/applications\<close> and \<^verbatim>\<open>src/components\<close>, and those parts of RT-Thread (ring buffer, power manager,
  calendar, alarm service, formatted output) and of LVGL (the widgets of its page) whose behaviour it
  rests on. The configuration is that of \<^verbatim>\<open>src/rtconfig.h\<close> and of the
  Keil project: pressure sensor, humidity sensor, active beeper, no air quality sensor, e-paper panel
  not in test mode.

  \<^bold>\<open>The program.\<close> \<^verbatim>\<open>main\<close> starts the device and reads sensors and battery forever. A network thread
  puts what the server sends into a ring buffer, a parser thread takes packets out and runs the
  receive machine: memos and forecasts go into the configuration, updates into a file that is
  checked by its CRC. Archives are unpacked by a console command through a tar library. The
  configuration is a JSON file on the flash. A page of LVGL widgets shows the clock, the readings, the
  forecast and the memo; LVGL renders areas that the display port draws into a
  one-bit image and sends to the e-paper panel. A console command puts the board to sleep until an
  alarm wakes it, others print the readings and the configuration. This version of the start-up has the
  calls of the network client and of the daily alarm commented out; both are modelled as they stand.

  \<^bold>\<open>Conventions.\<close> Functions pass their state explicitly, as a record per component. The result \<open>None\<close>
  is undefined behaviour: an access outside an object, a null pointer, a failed \<^verbatim>\<open>RT_ASSERT\<close>; a theorem
  that ends in \<open>Some\<close> shows that none of it happens. Error codes are the integers of the code.
  Integers keep their width where it can matter: as words, or as \<open>nat\<close> and \<open>int\<close> with the reduction
  (\<open>to_u16\<close>, \<open>to_u32\<close>, \<open>to_i32\<close>) written where C reduces. Floating-point values are exact rationals, so
  rounding is not modelled. Memory is a list of bytes with \<open>load\<close>, \<open>store\<close> and \<open>memcpy\<close>.
  What lies outside the sources is an argument: cJSON's printing and parsing, the humidity sensor's
  package, the I2C bus, the heap, the readings of pins and clocks.

  \<^bold>\<open>The theories.\<close>
  \<^item> \<open>Prelude\<close>: integer types, memory, C strings, error codes; loops with fuel (\<open>run_loop\<close>) and over
    lists (\<open>for_each\<close>); the locale \<open>machine\<close> of step relations with an invariant, interpreted for the
    client (\<open>clm\<close>), for power management (\<open>pmm\<close>) and for the alarm service (\<open>asv\<close>).
  \<^item> \<open>Ringbuffer\<close> (\<^verbatim>\<open>src/rt-thread/components/drivers/ipc/ringbuffer.c\<close>): every operation, with its mirror
    bits; refinement of a bounded queue, the locale \<open>byte_fifo\<close>, interpreted as \<open>rbq\<close>.
  \<^item> \<open>Vfs\<close>: the file-system calls the firmware uses, with descriptors and free space; the locale
    \<open>chunk_sink\<close> of files written piece by piece, interpreted as \<open>fsink\<close>.
  \<^item> \<open>Crc\<close> and \<open>Common\<close> (\<^verbatim>\<open>src/applications/common/common.c\<close>): the table-driven checksum equals the bitwise
    polynomial division and finds every change of one byte; \<^verbatim>\<open>crcfile\<close>; unpacking of archives, which
    restores what was packed but does not end on a crafted header; the JSON helpers.
  \<^item> \<open>Microtar\<close> (\<^verbatim>\<open>src/applications/microtar/microtar.c\<close>): header codec and stream operations; headers and
    files that were written are found and read back.
  \<^item> \<open>Weather\<close>, \<open>Json\<close>, \<open>Config\<close> (\<^verbatim>\<open>src/applications/weather\<close>, \<^verbatim>\<open>src/applications/dfs/dfscfg.c\<close>): codes and icons; the
    configuration, its JSON form and its file, with the round trip and the boots on which it fails.
  \<^item> \<open>Client\<close> (\<^verbatim>\<open>src/applications/ele_ds/client.c\<close>): the receive machine; connecting; the two threads as the step relation
    \<open>client_step\<close> with an invariant under every interleaving; downloads arrive intact; the ways in
    which messages are lost or overflow.
  \<^item> \<open>Paint\<close> (\<^verbatim>\<open>src/components/epaper/gui/GUI_Paint.c\<close>): pixels, areas, lines, circles, characters and
    numbers; the locale \<open>canvas\<close> relates the packed image to a plane of shades, interpreted as \<open>pix\<close>.
  \<^item> \<open>Epd\<close> (\<^verbatim>\<open>src/components/epaper/driver/EPD_2in7_V2.c\<close>, \<^verbatim>\<open>DEV_Config.c\<close>): the driver as sequences of pin and bus
    accesses; what a decoder of that sequence receives.
  \<^item> \<open>Display\<close> (\<^verbatim>\<open>src/applications/lvgl/lv_port_disp.c\<close>): a flushed area reaches the panel, except its first
    column.
  \<^item> \<open>Gzp6816d\<close> (\<^verbatim>\<open>src/components/gzp6816d_driver\<close>): decoding, ranges and error paths of the pressure sensor.
  \<^item> \<open>Calendar\<close> (\<^verbatim>\<open>ctime.c\<close> of RT-Thread): time stamps and dates convert into each other.
  \<^item> \<open>Alarmsvc\<close> (\<^verbatim>\<open>src/rt-thread/components/drivers/rtc/alarm.c\<close>, the alarm of \<^verbatim>\<open>drv_rtc.c\<close>): the list of alarms,
    the update that rings those that are due and programs the next; the service stays well-formed under
    all its operations (\<open>alarm_step\<close>), arms the nearest alarm, and rings a one-shot alarm at most once.
  \<^item> \<open>Alarm\<close> (\<^verbatim>\<open>src/applications/alarm\<close>, \<^verbatim>\<open>alarm_sample\<close> of \<^verbatim>\<open>src/applications/pm/ele_ds_pm.c\<close>): the wake-up and the
    daily alarm on that service, through the locale \<open>alarm_provider\<close>, interpreted as \<open>apr\<close>; the beeper.
  \<^item> \<open>Sleep\<close> (\<^verbatim>\<open>src/rt-thread/components/drivers/pm/pm.c\<close>, \<^verbatim>\<open>src/applications/pm/ele_ds_pm.c\<close>): the steps of the idle
    thread, of the console and of the alarm thread as \<open>pm_step\<close>; the invariant, that sleep ends after two
    passes, and the sleep command from its request to the alarm.
  \<^item> \<open>Device\<close>, \<open>Button\<close> (\<^verbatim>\<open>src/applications/ele_ds/ele_ds.c\<close>, \<^verbatim>\<open>main.c\<close>, \<^verbatim>\<open>btn/btn.c\<close>): readings, start-up and \<^verbatim>\<open>main\<close>
    with its three outcomes; button events and the beeper.
  \<^item> \<open>Format\<close>, \<open>Kstdio\<close>, \<open>Report\<close> (C's \<^verbatim>\<open>sprintf\<close>; \<^verbatim>\<open>src/rt-thread/src/klibc/kstdio.c\<close> and \<^verbatim>\<open>rt_kprintf\<close>; the commands
    \<^verbatim>\<open>status\<close> and \<^verbatim>\<open>showcfg\<close>): formatted output stays in its buffer and prints the numerals of its
    arguments; the reports fit their buffers in every state of the main loop.
  \<^item> \<open>Gui\<close> (\<^verbatim>\<open>src/applications/lvgl/lv_port_indev.c\<close>, tab view, label and image of LVGL): the page as a list of
    widgets, its refresh and the tab command; every pointer is of the class it is used as, and the page
    refines what it should show: the last readings and the last tab.
  \<^item> This theory: what spans the components, the way of an update from the network to its files.

  \<^bold>\<open>Bounds and fuel.\<close> \<open>parse_recv_data\<close> has four rounds, which its four states never exceed; \<open>untar\<close> and
  \<open>crcfile\<close> take their fuel as an argument, and the theorems name an amount that suffices (one round per
  file, one per block) or show that none does; the lines and circles of \<open>Paint\<close> have fuel beyond the
  size of the largest image and are shown to end. Waiting for the panel consumes a list of readings
  of the busy pin, and returns exactly if one of them releases it.

  Refreshes, alarms and rounds of the main loop are lists of environments of any length.

  \<^bold>\<open>Not modelled.\<close> Styles, layout and drawing of the widgets inside LVGL, generated fonts, the panel's
  demonstration and the LVGL demonstrations, which are not called, the scheduler, drivers and HAL below
  the calls named above, the scanning of buttons (a package outside the sources), the air quality sensor
  (not configured), tickless sleep and device suspension of the power manager, which this firmware does
  not use, the number drawing with decimals of the drawing library, which depends on the rounding of
  floating-point numbers, and the release of memory of a ring buffer. Threads interleave at the
  granularity of the steps of \<open>client_step\<close>, \<open>alarm_step\<close> and \<open>pm_step\<close>, the critical sections of the code;
  data races inside a step are outside the model.
\<close>

section \<open>From the network to the files\<close>


text \<open>An archive of one file, sent in one packet to an idle client with an empty file system.\<close>

definition demo_entries :: "(bytes \<times> bytes) list" where
  "demo_entries = [([97], [1, 2, 3])]"

definition demo_client :: ele_ds where
  "demo_client = cl_start\<lparr>fsys := cl_fs\<lparr>dirs := (\<lambda>p. p = UPDATE_DIR \<or> p = [])\<rparr>\<rparr>"

definition demo_api :: cjson_api where
  "demo_api = cl_api\<lparr>js_parse := (\<lambda>_. Some (update_root (length (archive demo_entries)) 7 1 [97] 0))\<rparr>"

lemma demo_paths:
  "paths_ok ((fsys demo_client)\<lparr>files := (files (fsys demo_client))(UPDATE_DIR @ slash # [97] \<mapsto> archive demo_entries)\<rparr>)
     (UPDATE_DIR @ slash # [97]) [47, 100] demo_entries"
proof -
  have p: "parent (target [47, 100] [97]) = [47, 100]" by (simp add: target_def parent_def slash_def)
  have len: "2 < length UPDATE_DIR" by (simp add: UPDATE_DIR_def bs_def)
  have short: "take i [47, 100] \<noteq> xs" if "2 < length xs" for i and xs :: bytes
  proof
    assume e: "take i [47, 100] = xs"
    have "length (take i [47, 100 :: u8]) \<le> 2" by simp
    with e that show False by simp
  qed
  have t: "take i [47, 100] \<noteq> UPDATE_DIR @ slash # [97]" "take i [47, 100] \<noteq> [47, 100, 47, 97 :: u8]" for i
    using len by (auto intro!: short)
  have q: "target [47, 100] [97] = [47, 100, 47, 97]" by (simp add: target_def slash_def)
  have "[47, 100, 47, 97] \<noteq> UPDATE_DIR" "[47, 100, 47, 97] \<noteq> UPDATE_DIR @ slash # [97]"
    by (simp_all add: UPDATE_DIR_def bs_def slash_def)
  then show ?thesis
    using p t t(2)[symmetric] by (simp add: paths_ok_def path_ok_def entry_ok_def demo_entries_def demo_client_def cl_start_def cl_fs_def q
      MAX_PATH_def slash_def)
qed


end
